(* ===== verification/Qwik_Prelude.thy ===== *)
theory Qwik_Prelude
  imports
    Complex_Main
    "HOL-Library.AList"
    "HOL-Library.Multiset"
    "HOL-Library.Word"
    "HOL-Library.Char_ord"
    "HOL-Library.List_Lexorder"
begin

text \<open>
  What every theory of the development shares: the collections of lemmas its
  proofs draw on, the way the program's runtime is modelled (Go's panics, its
  64-bit integers, its maps and the order in which a map is ranged over) and
  generic facts on lists and association lists.

  A Go map is an association list without duplicate keys: \<open>map_of\<close> reads it,
  \<open>AList.update\<close> writes it, \<open>AList.delete\<close> deletes a key, \<open>length\<close> is \<open>len\<close>.
  A Go string is a list of bytes (type \<open>string\<close>).
\<close>

section \<open>Collections of lemmas\<close>

named_theorems go_simps \<open>evaluation of the runtime model: panics, integers, maps\<close>
named_theorems resp_defs \<open>the reply constructors of the command handlers\<close>
named_theorems keyspace_simps \<open>operations of the keyspace in terms of lookups\<close>
named_theorems keeps_inv \<open>operations that keep the keyspace invariant\<close>

section \<open>Panics\<close>

text \<open>
  A Go function returns a value or panics. No handler recovers, so a panic
  ends the process: it is a result of its own, which every caller passes on.
\<close>

datatype 'a go = Ret 'a | Panic string

fun go_bind :: "'a go \<Rightarrow> ('a \<Rightarrow> 'b go) \<Rightarrow> 'b go" where
  "go_bind (Ret x) f = f x"
| "go_bind (Panic m) f = Panic m"

text \<open>\<open>returns m Q\<close>: \<open>m\<close> does not panic and its result satisfies \<open>Q\<close>.\<close>

fun returns :: "'a go \<Rightarrow> ('a \<Rightarrow> bool) \<Rightarrow> bool" where
  "returns (Ret x) Q = Q x"
| "returns (Panic m) Q = False"

lemma returns_bind [simp]: "returns (go_bind m f) Q = returns m (\<lambda>x. returns (f x) Q)"
  by (cases m) simp_all

lemma returns_mono: "returns m P \<Longrightarrow> (\<And>x. P x \<Longrightarrow> Q x) \<Longrightarrow> returns m Q"
  by (cases m) simp_all

lemma returns_mp: "returns m P \<Longrightarrow> returns m (\<lambda>x. P x \<longrightarrow> Q x) \<Longrightarrow> returns m Q"
  by (cases m) simp_all

lemma returns_iff: "returns m Q \<longleftrightarrow> (\<exists>x. m = Ret x \<and> Q x)"
  by (cases m) simp_all

lemma go_bind_Ret [simp]: "go_bind m Ret = m"
  by (cases m) simp_all

lemma go_bind_assoc: "go_bind (go_bind m f) g = go_bind m (\<lambda>x. go_bind (f x) g)"
  by (cases m) simp_all

lemma go_bind_eq_Ret: "go_bind m f = Ret y \<longleftrightarrow> (\<exists>x. m = Ret x \<and> f x = Ret y)"
  by (cases m) simp_all

section \<open>64-bit integers\<close>

text \<open>
  Go's \<open>int\<close> and \<open>int64\<close> (the program is built for a 64-bit Linux) are the
  integers from \<open>-2^63\<close> to \<open>2^63 - 1\<close>; arithmetic that can leave this range
  goes through \<open>wrap64\<close>, the two's complement wrap-around.
\<close>

definition min_int64 :: int where "min_int64 = - (2 ^ 63)"
definition max_int64 :: int where "max_int64 = 2 ^ 63 - 1"

definition int64_range :: "int \<Rightarrow> bool" where
  "int64_range x \<longleftrightarrow> min_int64 \<le> x \<and> x \<le> max_int64"

definition wrap64 :: "int \<Rightarrow> int" where
  "wrap64 x = (x + 2 ^ 63) mod 2 ^ 64 - 2 ^ 63"

lemmas int64_defs = min_int64_def max_int64_def int64_range_def

lemma wrap64_range: "int64_range (wrap64 x)"
proof -
  have "0 \<le> (x + 2 ^ 63) mod 2 ^ 64" and "(x + 2 ^ 63) mod 2 ^ 64 < 2 ^ 64"
    by simp_all
  then show ?thesis by (simp add: int64_defs wrap64_def)
qed

lemma wrap64_id: "int64_range x \<Longrightarrow> wrap64 x = x"
  by (simp add: int64_defs wrap64_def)

lemma wrap64_sint: "wrap64 x = sint (word_of_int x :: 64 word)"
proof -
  have "sint (word_of_int x :: 64 word) = signed_take_bit 63 x"
    by (simp add: sint_sbintrunc')
  then show ?thesis
    by (simp add: wrap64_def signed_take_bit_eq_take_bit_shift take_bit_eq_mod)
qed

section \<open>Allocation\<close>

text \<open>
  \<open>make([]T, n)\<close> panics when \<open>n\<close> is negative or the slice would take more than
  the address space the runtime manages, \<open>2^48\<close> bytes on 64-bit Linux.
\<close>

definition max_alloc :: int where "max_alloc = 2 ^ 48"

definition make_slice :: "int \<Rightarrow> int \<Rightarrow> unit go" where
  "make_slice elem_size n =
     (if n < 0 \<or> max_alloc < elem_size * n then Panic ''makeslice: len out of range''
      else Ret ())"

lemma make_slice_Ret: "0 \<le> n \<Longrightarrow> k * n \<le> max_alloc \<Longrightarrow> make_slice k n = Ret ()"
  by (simp add: make_slice_def)

section \<open>The environment of a command\<close>

text \<open>
  What a command takes from outside the program: the clock reading, the instant
  the process started, two readings of the memory statistics, the order
  in which Go ranges over a map (unspecified by the language, so a function
  from the keys to some permutation of them), the shuffle and the draws of
  \<open>math/rand\<close>. The event loop runs one command at a time; the model reads the
  clock once per command, in nanoseconds since Go's zero time.
\<close>

record env =
  now :: int
  start_time :: int
  mem_alloc :: int
  mem_sys :: int
  iter :: "string list \<Rightarrow> string list"
  shuffle :: "string list \<Rightarrow> string list"
  intn :: "nat \<Rightarrow> nat \<Rightarrow> nat"
  coin :: "nat \<Rightarrow> nat \<Rightarrow> bool"

text \<open>The documented behaviour of the runtime: map ranges and shuffles are
  permutations, \<open>rand.Intn(n)\<close> is below \<open>n\<close>.\<close>

definition env_ok :: "env \<Rightarrow> bool" where
  "env_ok e \<longleftrightarrow> (\<forall>xs. mset (iter e xs) = mset xs) \<and> (\<forall>xs. mset (shuffle e xs) = mset xs)
     \<and> (\<forall>i n. 0 < n \<longrightarrow> intn e i n < n)"

text \<open>An environment to run examples in: maps range in insertion order, every
  draw is 0, no coin falls on heads.\<close>

definition plain_env :: "int \<Rightarrow> env" where
  "plain_env t = \<lparr>now = t, start_time = 0, mem_alloc = 0, mem_sys = 0, iter = (\<lambda>xs. xs), shuffle = (\<lambda>xs. xs), intn = (\<lambda>i n. 0),
     coin = (\<lambda>i j. False)\<rparr>"

lemma plain_env_simps [simp]:
  "now (plain_env t) = t" "iter (plain_env t) xs = xs" "shuffle (plain_env t) xs = xs"
  "intn (plain_env t) i n = 0" "coin (plain_env t) i j = False"
  by (simp_all add: plain_env_def)

lemma plain_env_ok: "env_ok (plain_env t)"
  by (simp add: env_ok_def)

lemma env_ok_iter_set: "env_ok e \<Longrightarrow> set (iter e xs) = set xs"
  by (metis env_ok_def set_mset_mset)

lemma env_ok_iter_length: "env_ok e \<Longrightarrow> length (iter e xs) = length xs"
  by (metis env_ok_def size_mset)

lemma env_ok_iter_distinct: "env_ok e \<Longrightarrow> distinct (iter e xs) = distinct xs"
  by (metis env_ok_def mset_eq_imp_distinct_iff)

lemma env_ok_shuffle_set: "env_ok e \<Longrightarrow> set (shuffle e xs) = set xs"
  by (metis env_ok_def set_mset_mset)

lemma env_ok_shuffle_length: "env_ok e \<Longrightarrow> length (shuffle e xs) = length xs"
  by (metis env_ok_def size_mset)

lemma env_ok_shuffle_distinct: "env_ok e \<Longrightarrow> distinct (shuffle e xs) = distinct xs"
  by (metis env_ok_def mset_eq_imp_distinct_iff)

lemma env_ok_intn: "env_ok e \<Longrightarrow> 0 < n \<Longrightarrow> intn e i n < n"
  by (simp add: env_ok_def)

section \<open>Maps\<close>

definition map_wf :: "('k \<times> 'v) list \<Rightarrow> bool" where
  "map_wf m \<longleftrightarrow> distinct (map fst m)"

lemma map_wf_Nil [simp]: "map_wf []"
  by (simp add: map_wf_def)

lemma map_wf_update [simp]: "map_wf m \<Longrightarrow> map_wf (AList.update k v m)"
  by (simp add: map_wf_def distinct_update)

lemma map_wf_delete [simp]: "map_wf m \<Longrightarrow> map_wf (AList.delete k m)"
  by (simp add: map_wf_def distinct_delete)

lemma map_of_update [simp]: "map_of (AList.update k v m) = (map_of m)(k \<mapsto> v)"
  by (simp add: update_conv')

lemma map_of_delete [simp]: "map_of (AList.delete k m) = (map_of m)(k := None)"
  by (simp add: delete_conv')

lemma keys_map_of: "k \<in> fst ` set m \<longleftrightarrow> map_of m k \<noteq> None"
  by (simp add: map_of_eq_None_iff)

lemma map_wf_map_of: "map_wf m \<Longrightarrow> (k, v) \<in> set m \<longleftrightarrow> map_of m k = Some v"
  by (simp add: map_wf_def)

lemma length_update:
  "length (AList.update k v m) = (if map_of m k = None then Suc (length m) else length m)"
  by (induction m) auto

lemma length_delete:
  "map_wf m \<Longrightarrow> length (AList.delete k m) = (if map_of m k = None then length m else length m - 1)"
proof (induction m)
  case (Cons x m)
  obtain a b where x: "x = (a, b)" by fastforce
  from Cons.prems x have wf: "map_wf m" and notin: "a \<notin> fst ` set m"
    by (auto simp: map_wf_def)
  show ?case
  proof (cases "a = k")
    case True
    with notin have "AList.delete k m = m" by (simp add: delete_idem)
    with True x show ?thesis by simp
  next
    case False
    have "map_of m k \<noteq> None \<Longrightarrow> 0 < length m" by (cases m) auto
    with False x Cons.IH[OF wf] show ?thesis by auto
  qed
qed simp

lemma map_empty_iff: "m = [] \<longleftrightarrow> (\<forall>k. map_of m k = None)"
  by (cases m) auto

lemma option_eqI: "(\<And>x. a = Some x \<longleftrightarrow> b = Some x) \<Longrightarrow> a = b"
  by (cases a; cases b) auto

section \<open>Chains of pointers\<close>

text \<open>The pointer to the first, or the last, node of a chain, given what is there
  when the chain is empty.\<close>

definition first_or :: "'a list \<Rightarrow> 'a option \<Rightarrow> 'a option" where
  "first_or as n = (case as of [] \<Rightarrow> n | a # _ \<Rightarrow> Some a)"

definition last_or :: "'a option \<Rightarrow> 'a list \<Rightarrow> 'a option" where
  "last_or q as = (if as = [] then q else Some (last as))"

lemma first_or_simps [simp]: "first_or [] n = n" "first_or (a # as) n = Some a"
  by (simp_all add: first_or_def)

lemma first_or_append [simp]: "first_or (as @ bs) n = first_or as (first_or bs n)"
  by (cases as) simp_all

lemma last_or_simps [simp]: "last_or q [] = q" "last_or q (a # as) = last_or (Some a) as"
  by (simp_all add: last_or_def)

lemma last_or_append [simp]: "last_or q (as @ bs) = last_or (last_or q as) bs"
  by (induction as arbitrary: q) simp_all

end
