(* ===== verification/Go_Strconv.thy ===== *)
theory Go_Strconv
  imports Qwik_Prelude
begin

text \<open>
  The parts of Go's standard library on which the program's own logic rests:
  \<open>strconv.ParseInt\<close>, \<open>strconv.Atoi\<close> and \<open>strconv.FormatInt\<close> in base 10,
  \<open>strings.ToUpper\<close> and \<open>strings.ToLower\<close> (exact for strings of ASCII bytes,
  other bytes are left alone) and \<open>fmt.Sprintf("%*s", n, "")\<close>. The lemmas give
  the round trip of printing and parsing and the range of a parsed number.
\<close>

section \<open>Letters and digits\<close>

definition is_digit :: "char \<Rightarrow> bool" where
  "is_digit c \<longleftrightarrow> 48 \<le> (of_char c :: nat) \<and> (of_char c :: nat) \<le> 57"

definition digit_val :: "char \<Rightarrow> nat" where
  "digit_val c = of_char c - 48"

definition digit_char :: "nat \<Rightarrow> char" where
  "digit_char d = char_of (48 + d)"

definition upper_char :: "char \<Rightarrow> char" where
  "upper_char c = (let n = (of_char c :: nat) in if 97 \<le> n \<and> n \<le> 122 then char_of (n - 32) else c)"

definition lower_char :: "char \<Rightarrow> char" where
  "lower_char c = (let n = (of_char c :: nat) in if 65 \<le> n \<and> n \<le> 90 then char_of (n + 32) else c)"

definition ToUpper :: "string \<Rightarrow> string" where "ToUpper s = map upper_char s"

definition ToLower :: "string \<Rightarrow> string" where "ToLower s = map lower_char s"

lemma digit_char_digit [simp]: "d < 10 \<Longrightarrow> is_digit (digit_char d)"
  by (simp add: is_digit_def digit_char_def)

lemma digit_val_char [simp]: "d < 10 \<Longrightarrow> digit_val (digit_char d) = d"
  by (simp add: digit_val_def digit_char_def)

lemma digit_val_less: "is_digit c \<Longrightarrow> digit_val c < 10"
  unfolding is_digit_def digit_val_def by linarith

lemma upper_char_idem [simp]: "upper_char (upper_char c) = upper_char c"
proof (cases "97 \<le> (of_char c :: nat) \<and> (of_char c :: nat) \<le> 122")
  case True
  then have "((of_char c :: nat) - 32) mod 256 = of_char c - 32" by (intro mod_less) linarith
  with True show ?thesis by (auto simp: upper_char_def Let_def)
next
  case False
  then show ?thesis by (auto simp: upper_char_def Let_def)
qed

lemma ToUpper_idem [simp]: "ToUpper (ToUpper s) = ToUpper s"
  by (simp add: ToUpper_def)

section \<open>ParseInt and Atoi\<close>

text \<open>
  Both return a value and an error; the value is meaningful on errors too
  (0 on a syntax error, the nearest bound on a range error), and one caller
  ignores the error.
\<close>

datatype num_error = ErrSyntax | ErrRange

definition max_uint64 :: int where "max_uint64 = 2 ^ 64 - 1"

fun parse_uint_loop :: "int \<Rightarrow> string \<Rightarrow> int \<times> num_error option" where
  "parse_uint_loop n [] = (n, None)"
| "parse_uint_loop n (c # cs) =
     (if \<not> is_digit c then (0, Some ErrSyntax)
      else if max_uint64 div 10 + 1 \<le> n then (max_uint64, Some ErrRange)
      else if max_uint64 < n * 10 + int (digit_val c) then (max_uint64, Some ErrRange)
      else parse_uint_loop (n * 10 + int (digit_val c)) cs)"

definition ParseUint :: "string \<Rightarrow> int \<times> num_error option" where
  "ParseUint s = (if s = [] then (0, Some ErrSyntax) else parse_uint_loop 0 s)"

definition ParseInt :: "string \<Rightarrow> int \<times> num_error option" where
  "ParseInt s =
     (case s of
        [] \<Rightarrow> (0, Some ErrSyntax)
      | c # cs \<Rightarrow>
          let neg = (c = CHR ''-'');
              digits = (if c = CHR ''+'' \<or> c = CHR ''-'' then cs else s);
              (un, err) = ParseUint digits
          in if err = Some ErrSyntax then (0, Some ErrSyntax)
             else if \<not> neg \<and> 2 ^ 63 \<le> un then (2 ^ 63 - 1, Some ErrRange)
             else if neg \<and> 2 ^ 63 < un then (- (2 ^ 63), Some ErrRange)
             else (if neg then - un else un, None))"

definition Atoi :: "string \<Rightarrow> int \<times> num_error option" where
  "Atoi s = ParseInt s"

text \<open>What a caller that checks the error sees.\<close>

definition parsed :: "int \<times> num_error option \<Rightarrow> int option" where
  "parsed r = (case snd r of None \<Rightarrow> Some (fst r) | Some e \<Rightarrow> None)"

lemma parse_uint_loop_range:
  "0 \<le> n \<Longrightarrow> n \<le> max_uint64 \<Longrightarrow>
    0 \<le> fst (parse_uint_loop n s) \<and> fst (parse_uint_loop n s) \<le> max_uint64"
  by (induction n s rule: parse_uint_loop.induct) (auto simp: max_uint64_def)

lemma ParseUint_range: "ParseUint s = (n, err) \<Longrightarrow> 0 \<le> n"
  using parse_uint_loop_range[of 0 s] by (auto simp: ParseUint_def max_uint64_def split: if_splits)

lemma ParseInt_range: "int64_range (fst (ParseInt s))"
  by (auto simp: ParseInt_def int64_defs Let_def dest: ParseUint_range split: list.splits prod.splits)

lemma parsed_range: "parsed (ParseInt s) = Some n \<Longrightarrow> int64_range n"
  using ParseInt_range[of s] by (auto simp: parsed_def split: option.splits)

lemma Atoi_range: "int64_range (fst (Atoi s))"
  by (simp add: Atoi_def ParseInt_range)

lemma parsed_Atoi_range: "parsed (Atoi s) = Some n \<Longrightarrow> int64_range n"
  by (simp add: Atoi_def parsed_range)

section \<open>FormatInt\<close>

fun digits_of :: "nat \<Rightarrow> string" where
  "digits_of n = (if n < 10 then [digit_char n] else digits_of (n div 10) @ [digit_char (n mod 10)])"

declare digits_of.simps [simp del]

definition FormatInt :: "int \<Rightarrow> string" where
  "FormatInt n = (if n < 0 then CHR ''-'' # digits_of (nat (- n)) else digits_of (nat n))"

definition Itoa :: "int \<Rightarrow> string" where "Itoa n = FormatInt n"

lemma digits_of_nonempty [simp]: "digits_of n \<noteq> []"
  by (subst digits_of.simps) simp

lemma digits_of_digits: "list_all is_digit (digits_of n)"
proof (induction n rule: digits_of.induct)
  case (1 n)
  then show ?case by (cases "n < 10") (simp_all add: digits_of.simps [of n])
qed

lemma parse_uint_loop_append:
  "parse_uint_loop n s = (m, None) \<Longrightarrow> parse_uint_loop n (s @ t) = parse_uint_loop m t"
  by (induction n s rule: parse_uint_loop.induct) (auto split: if_splits)

lemma parse_uint_digits_of: "int n \<le> max_uint64 \<Longrightarrow> parse_uint_loop 0 (digits_of n) = (int n, None)"
proof (induction n rule: digits_of.induct)
  case (1 n)
  show ?case
  proof (cases "n < 10")
    case True
    then show ?thesis by (simp add: digits_of.simps [of n] max_uint64_def)
  next
    case False
    have n: "int n = int (n div 10) * 10 + int (n mod 10)"
      by (metis div_mult_mod_eq of_nat_add of_nat_mult of_nat_numeral)
    then have "int (n div 10) \<le> max_uint64" using "1.prems" by linarith
    with 1 False have "parse_uint_loop 0 (digits_of (n div 10)) = (int (n div 10), None)" by simp
    then have "parse_uint_loop 0 (digits_of n) = parse_uint_loop (int (n div 10)) [digit_char (n mod 10)]"
      using False by (simp add: digits_of.simps [of n] parse_uint_loop_append)
    moreover have "int (n div 10) < max_uint64 div 10 + 1"
      using "1.prems" n by (simp add: max_uint64_def)
    ultimately show ?thesis using "1.prems" n by simp
  qed
qed

lemma digits_of_hd:
  "digits_of n = c # cs \<Longrightarrow> is_digit c"
  using digits_of_digits[of n] by simp

lemma sign_not_digit [simp]: "\<not> is_digit CHR ''-''" "\<not> is_digit CHR ''+''"
  by (simp_all add: is_digit_def)

theorem ParseInt_FormatInt: "int64_range n \<Longrightarrow> ParseInt (FormatInt n) = (n, None)"
proof (cases "n < 0")
  case True
  assume "int64_range n"
  with True have "int (nat (- n)) \<le> max_uint64" "- n \<le> 2 ^ 63"
    by (simp_all add: int64_defs max_uint64_def)
  with True show ?thesis
    by (simp add: FormatInt_def ParseInt_def ParseUint_def parse_uint_digits_of)
next
  case False
  assume "int64_range n"
  with False have le: "int (nat n) \<le> max_uint64" "n < 2 ^ 63"
    by (simp_all add: int64_defs max_uint64_def)
  obtain c cs where d: "digits_of (nat n) = c # cs"
    by (meson digits_of_nonempty neq_Nil_conv)
  then have "is_digit c" by (rule digits_of_hd)
  then have "c \<noteq> CHR ''-''" "c \<noteq> CHR ''+''" by auto
  moreover have "ParseUint (c # cs) = (n, None)"
    using parse_uint_digits_of[OF le(1)] d False by (simp add: ParseUint_def)
  ultimately show ?thesis
    using False d le by (simp add: FormatInt_def ParseInt_def Let_def)
qed

lemma parsed_FormatInt [simp]: "int64_range n \<Longrightarrow> parsed (ParseInt (FormatInt n)) = Some n"
  by (simp add: ParseInt_FormatInt parsed_def)

lemma FormatInt_chars: "c \<in> set (FormatInt n) \<Longrightarrow> c = CHR ''-'' \<or> is_digit c"
  using digits_of_digits by (auto simp: FormatInt_def list_all_iff split: if_splits)

lemma FormatInt_no_newline [simp]: "CHR 0x0A \<notin> set (FormatInt n)" "CHR 0x0D \<notin> set (FormatInt n)"
  by (auto dest!: FormatInt_chars simp: is_digit_def)

lemma FormatInt_inj: "int64_range m \<Longrightarrow> int64_range n \<Longrightarrow> FormatInt m = FormatInt n \<Longrightarrow> m = n"
  using ParseInt_FormatInt by (metis prod.inject)

section \<open>Padding\<close>

text \<open>
  \<open>fmt.Sprintf("%*s", n, "")\<close>: \<open>n\<close> spaces, but a width above a million in
  either direction is refused with the text \<open>%!(BADWIDTH)\<close>.
\<close>

definition Sprintf_pad :: "int \<Rightarrow> string" where
  "Sprintf_pad n =
     (if 1000000 < n \<or> n < - 1000000 then ''%!(BADWIDTH)'' else replicate (nat \<bar>n\<bar>) CHR '' '')"

lemma length_Sprintf_pad: "0 \<le> n \<Longrightarrow> n \<le> 1000000 \<Longrightarrow> length (Sprintf_pad n) = nat n"
  by (simp add: Sprintf_pad_def)

end
