(* ===== verification/Resp.thy ===== *)
theory Resp
  imports Go_Strconv
begin

text \<open>
  The wire protocol: the values of resp/reader.go, the parser that reads them
  from a buffered stream, and the serializer of resp/writer.go. A stream is the
  list of bytes still to come; the end of the list is the end of the stream. This is
  the stream of a file or of a connection that the peer has closed. On a connection that
  is open the list is what has arrived, and the errors tell where it ends: \<open>ErrUnexpectedEOF\<close> in
  the body of a bulk string, for the rest of which the code waits, \<open>EOF\<close> elsewhere; what the
  server does then is in Server.
  The writer's output is the bytes it hands to its buffered writer.

  The lemmas show that the parser consumes input, that its recursion always
  comes to an end, and that it inverts the serializer.
\<close>

section \<open>Values\<close>

text \<open>
  The struct \<open>Value\<close>. Pointers to values are never nil here: the parser fills
  every slot of an array and every command handler returns a value.
\<close>

datatype resp_value =
  Value (Type: char) (Str: string) (Integer: int) (Array: "resp_value list") (IsNull: bool)

definition TypeSimpleString :: char where "TypeSimpleString = CHR ''+''"
definition TypeError :: char where "TypeError = CHR ''-''"
definition TypeInteger :: char where "TypeInteger = CHR '':''"
definition TypeBulkString :: char where "TypeBulkString = CHR ''$''"
definition TypeArray :: char where "TypeArray = CHR ''*''"

lemmas type_defs = TypeSimpleString_def TypeError_def TypeInteger_def TypeBulkString_def TypeArray_def

definition simple_value :: "string \<Rightarrow> resp_value" where
  "simple_value s = Value TypeSimpleString s 0 [] False"
definition error_value :: "string \<Rightarrow> resp_value" where
  "error_value s = Value TypeError s 0 [] False"
definition int_value :: "int \<Rightarrow> resp_value" where
  "int_value n = Value TypeInteger [] n [] False"
definition bulk_value :: "string \<Rightarrow> resp_value" where
  "bulk_value s = Value TypeBulkString s 0 [] False"
definition null_bulk_value :: resp_value where
  "null_bulk_value = Value TypeBulkString [] 0 [] True"
definition null_array_value :: resp_value where
  "null_array_value = Value TypeArray [] 0 [] True"
definition array_value :: "resp_value list \<Rightarrow> resp_value" where
  "array_value vs = Value TypeArray [] 0 vs False"

lemmas value_defs [resp_defs] = simple_value_def error_value_def int_value_def bulk_value_def
  null_bulk_value_def null_array_value_def array_value_def

definition CR :: char where "CR = CHR 0x0D"
definition NL :: char where "NL = CHR 0x0A"
definition crlf :: string where "crlf = [CR, NL]"

section \<open>The writer\<close>

text \<open>
  \<open>WriteValue\<close> gives the bytes written and whether it returned without an error;
  the only error modelled is that of an unknown type (the buffered writer below
  it is taken to accept what it is given).
\<close>

definition WriteSimpleString :: "string \<Rightarrow> string" where
  "WriteSimpleString s = TypeSimpleString # s @ crlf"
definition WriteError :: "string \<Rightarrow> string" where
  "WriteError s = TypeError # s @ crlf"
definition WriteInteger :: "int \<Rightarrow> string" where
  "WriteInteger n = TypeInteger # FormatInt n @ crlf"
definition WriteBulkString :: "string \<Rightarrow> string" where
  "WriteBulkString s = TypeBulkString # FormatInt (int (length s)) @ crlf @ s @ crlf"
definition WriteNullBulkString :: string where
  "WriteNullBulkString = ''$-1'' @ crlf"
definition WriteNullArray :: string where
  "WriteNullArray = ''*-1'' @ crlf"
definition WriteArrayLen :: "int \<Rightarrow> string" where
  "WriteArrayLen n = TypeArray # FormatInt n @ crlf"

fun WriteValue :: "resp_value \<Rightarrow> string \<times> bool"
  and write_elems :: "resp_value list \<Rightarrow> string \<times> bool" where
  "WriteValue (Value t s n vs null) =
     (if null then (WriteNullBulkString, True)
      else if t = TypeSimpleString then (WriteSimpleString s, True)
      else if t = TypeError then (WriteError s, True)
      else if t = TypeInteger then (WriteInteger n, True)
      else if t = TypeBulkString then (WriteBulkString s, True)
      else if t = TypeArray then
        (case write_elems vs of (out, good) \<Rightarrow> (WriteArrayLen (int (length vs)) @ out, good))
      else ([], False))"
| "write_elems [] = ([], True)"
| "write_elems (v # vs) =
     (case WriteValue v of (out, good) \<Rightarrow>
        if good then (case write_elems vs of (out', good') \<Rightarrow> (out @ out', good'))
        else (out, False))"

section \<open>The reader\<close>

datatype read_error = EOF | ErrInvalidSyntax | ErrUnexpectedEOF | ErrNumber string

type_synonym 'a read = "(read_error + 'a \<times> string) go"

text \<open>\<open>readLine\<close>: up to the next newline, which a carriage return must precede.\<close>

definition readLine :: "string \<Rightarrow> read_error + string \<times> string" where
  "readLine s =
     (let line = takeWhile (\<lambda>c. c \<noteq> NL) s in
      case dropWhile (\<lambda>c. c \<noteq> NL) s of
        [] \<Rightarrow> Inl EOF
      | _ # rest \<Rightarrow> if line = [] \<or> last line \<noteq> CR then Inl ErrInvalidSyntax
                   else Inr (butlast line, rest))"

definition readSimpleString :: "string \<Rightarrow> resp_value read" where
  "readSimpleString s =
     (case readLine s of Inl e \<Rightarrow> Ret (Inl e)
      | Inr (line, rest) \<Rightarrow> Ret (Inr (simple_value line, rest)))"

definition readError :: "string \<Rightarrow> resp_value read" where
  "readError s =
     (case readLine s of Inl e \<Rightarrow> Ret (Inl e)
      | Inr (line, rest) \<Rightarrow> Ret (Inr (error_value line, rest)))"

definition readInteger :: "string \<Rightarrow> resp_value read" where
  "readInteger s =
     (case readLine s of Inl e \<Rightarrow> Ret (Inl e)
      | Inr (line, rest) \<Rightarrow>
          (case parsed (ParseInt line) of
             None \<Rightarrow> Ret (Inl (ErrNumber (''invalid integer: '' @ line)))
           | Some n \<Rightarrow> Ret (Inr (int_value n, rest))))"

definition readBulkString :: "string \<Rightarrow> resp_value read" where
  "readBulkString s =
     (case readLine s of Inl e \<Rightarrow> Ret (Inl e)
      | Inr (line, rest) \<Rightarrow>
          (case parsed (ParseInt line) of
             None \<Rightarrow> Ret (Inl (ErrNumber (''invalid bulk string length: '' @ line)))
           | Some n \<Rightarrow>
               if n = - 1 then Ret (Inr (null_bulk_value, rest))
               else if n < 0 then Ret (Inl ErrInvalidSyntax)
               else go_bind (make_slice 1 (wrap64 (n + 2))) (\<lambda>_.
                 let k = nat n in
                 if length rest < k + 2 then Ret (Inl ErrUnexpectedEOF)
                 else if rest ! k \<noteq> CR \<or> rest ! (k + 1) \<noteq> NL then Ret (Inl ErrInvalidSyntax)
                 else Ret (Inr (bulk_value (take k rest), drop (k + 2) rest)))))"

text \<open>\<open>splitInline\<close>: words separated by blanks; a double quote switches quoting.\<close>

fun split_loop :: "string list \<Rightarrow> string \<Rightarrow> bool \<Rightarrow> string \<Rightarrow> string list" where
  "split_loop parts current inQuote [] = (if current \<noteq> [] then parts @ [current] else parts)"
| "split_loop parts current inQuote (c # cs) =
     (if c = CHR 0x22 then split_loop parts current (\<not> inQuote) cs
      else if c = CHR '' '' \<and> \<not> inQuote then
        (if current \<noteq> [] then split_loop (parts @ [current]) [] inQuote cs
         else split_loop parts current inQuote cs)
      else split_loop parts (current @ [c]) inQuote cs)"

definition splitInline :: "string \<Rightarrow> string list" where
  "splitInline line = split_loop [] [] False line"

definition readInline :: "string \<Rightarrow> resp_value read" where
  "readInline s =
     (case readLine s of Inl e \<Rightarrow> Ret (Inl e)
      | Inr (line, rest) \<Rightarrow>
          let parts = splitInline line in
          if parts = [] then Ret (Inl ErrInvalidSyntax)
          else Ret (Inr (array_value (map bulk_value parts), rest)))"

text \<open>The loop over the elements of an array, given the reader of one value.\<close>

fun read_elems :: "(string \<Rightarrow> resp_value read) \<Rightarrow> nat \<Rightarrow> string \<Rightarrow> resp_value list read" where
  "read_elems rd 0 s = Ret (Inr ([], s))"
| "read_elems rd (Suc n) s =
     go_bind (rd s) (\<lambda>r. case r of
        Inl e \<Rightarrow> Ret (Inl e)
      | Inr (v, rest) \<Rightarrow>
          go_bind (read_elems rd n rest) (\<lambda>r'. case r' of
             Inl e \<Rightarrow> Ret (Inl e)
           | Inr (vs, rest') \<Rightarrow> Ret (Inr (v # vs, rest'))))"

definition readArray :: "(string \<Rightarrow> resp_value read) \<Rightarrow> string \<Rightarrow> resp_value read" where
  "readArray rd s =
     (case readLine s of Inl e \<Rightarrow> Ret (Inl e)
      | Inr (line, rest) \<Rightarrow>
          (case parsed (ParseInt line) of
             None \<Rightarrow> Ret (Inl (ErrNumber (''invalid array length: '' @ line)))
           | Some n \<Rightarrow>
               if n = - 1 then Ret (Inr (null_array_value, rest))
               else if n < 0 then Ret (Inl ErrInvalidSyntax)
               else go_bind (make_slice 8 n) (\<lambda>_.
                 go_bind (read_elems rd (nat n) rest) (\<lambda>r. case r of
                   Inl e \<Rightarrow> Ret (Inl e)
                 | Inr (vs, rest') \<Rightarrow> Ret (Inr (array_value vs, rest'))))))"

text \<open>
  \<open>ReadValue\<close> calls itself for the elements of an array. The fuel bounds the
  nesting depth; \<open>ReadValue\<close> takes one more than the length of the input.
\<close>

definition out_of_fuel :: string where "out_of_fuel = ''out of fuel''"

fun read_value :: "nat \<Rightarrow> string \<Rightarrow> resp_value read" where
  "read_value 0 s = Panic out_of_fuel"
| "read_value (Suc fuel) s =
     (case s of
        [] \<Rightarrow> Ret (Inl EOF)
      | b # s' \<Rightarrow>
          if b = TypeSimpleString then readSimpleString s'
          else if b = TypeError then readError s'
          else if b = TypeInteger then readInteger s'
          else if b = TypeBulkString then readBulkString s'
          else if b = TypeArray then readArray (read_value fuel) s'
          else readInline s)"

definition ReadValue :: "string \<Rightarrow> resp_value read" where
  "ReadValue s = read_value (Suc (length s)) s"

text \<open>\<open>ToCommand\<close>: the name and the arguments, or \<open>ErrInvalidSyntax\<close>.\<close>

definition ToCommand :: "resp_value \<Rightarrow> read_error + string \<times> resp_value list" where
  "ToCommand v =
     (case Array v of
        [] \<Rightarrow> Inl ErrInvalidSyntax
      | cmd # args \<Rightarrow>
          if Type v \<noteq> TypeArray then Inl ErrInvalidSyntax
          else if Type cmd \<noteq> TypeBulkString then Inl ErrInvalidSyntax
          else Inr (Str cmd, args))"

section \<open>The reader consumes its input and terminates\<close>

lemma readLine_shorter: "readLine s = Inr (line, rest) \<Longrightarrow> length rest < length s"
proof -
  assume r: "readLine s = Inr (line, rest)"
  then obtain c where "dropWhile (\<lambda>c. c \<noteq> NL) s = c # rest"
    by (auto simp: readLine_def Let_def split: list.splits if_splits)
  with length_dropWhile_le[of "\<lambda>c. c \<noteq> NL" s] show ?thesis by simp
qed

text \<open>What holds of every result of a reader: it is not out of fuel, and if it
  is a value then the rest is shorter than the input.\<close>

definition consumes :: "string \<Rightarrow> 'a read \<Rightarrow> bool" where
  "consumes s r \<longleftrightarrow> r \<noteq> Panic out_of_fuel
     \<and> (\<forall>v rest. r = Ret (Inr (v, rest)) \<longrightarrow> length rest < length s)"

lemma consumes_error [simp]: "consumes s (Ret (Inl e))"
  by (simp add: consumes_def)

lemma consumes_value [simp]: "consumes s (Ret (Inr (v, rest))) \<longleftrightarrow> length rest < length s"
  by (simp add: consumes_def)

lemma consumes_make:
  "(make_slice k n = Ret () \<Longrightarrow> consumes s (f ())) \<Longrightarrow> consumes s (go_bind (make_slice k n) f)"
  by (auto simp: make_slice_def consumes_def out_of_fuel_def)

lemma consumes_leaves [simp]:
  "consumes (b # s) (readSimpleString s)" "consumes (b # s) (readError s)"
  "consumes (b # s) (readInteger s)"
  using readLine_shorter[of s]
  by (fastforce simp: readSimpleString_def readError_def readInteger_def consumes_def
      split: sum.splits option.splits)+

lemma consumes_inline [simp]: "consumes s (readInline s)"
  using readLine_shorter[of s]
  by (fastforce simp: readInline_def consumes_def Let_def split: sum.splits)

lemma consumes_bulk [simp]: "consumes (b # s) (readBulkString s)"
  unfolding readBulkString_def using readLine_shorter[of s]
  by (auto simp: Let_def consumes_def make_slice_def out_of_fuel_def
      split: sum.splits option.splits)

lemma consumes_elems:
  "(\<And>s'. length s' \<le> length s \<Longrightarrow> consumes s' (rd s')) \<Longrightarrow>
    read_elems rd n s \<noteq> Panic out_of_fuel
    \<and> (\<forall>vs rest. read_elems rd n s = Ret (Inr (vs, rest)) \<longrightarrow> length rest \<le> length s)"
proof (induction n arbitrary: s)
  case (Suc n)
  from Suc.prems[of s] have c: "consumes s (rd s)" by simp
  show ?case
  proof (cases "rd s")
    case (Panic m)
    with c show ?thesis by (simp add: consumes_def)
  next
    case (Ret r)
    show ?thesis
    proof (cases r)
      case (Inl e)
      with Ret show ?thesis by simp
    next
      case (Inr p)
      obtain v rest where p: "p = (v, rest)" by fastforce
      with c Ret Inr have less: "length rest < length s" by (simp add: consumes_def)
      have "read_elems rd n rest \<noteq> Panic out_of_fuel
        \<and> (\<forall>vs rest'. read_elems rd n rest = Ret (Inr (vs, rest')) \<longrightarrow> length rest' \<le> length rest)"
        using Suc.prems less by (intro Suc.IH) simp
      with Ret Inr p less show ?thesis
        by (cases "read_elems rd n rest") (auto split: sum.splits)
    qed
  qed
qed simp

lemma read_value_consumes: "length s < fuel \<Longrightarrow> consumes s (read_value fuel s)"
proof (induction fuel arbitrary: s)
  case (Suc fuel)
  show ?case
  proof (cases s)
    case (Cons b s')
    have "consumes s (readArray (read_value fuel) s')"
    proof (cases "readLine s'")
      case (Inr p)
      obtain line rest where p: "p = (line, rest)" by fastforce
      with Inr have less: "length rest < length s'" by (simp add: readLine_shorter)
      have el: "read_elems (read_value fuel) n rest \<noteq> Panic out_of_fuel
        \<and> (\<forall>vs rest'. read_elems (read_value fuel) n rest = Ret (Inr (vs, rest'))
             \<longrightarrow> length rest' \<le> length rest)" for n
        using Suc.prems Cons less by (intro consumes_elems Suc.IH) simp
      have "consumes s (go_bind (read_elems (read_value fuel) n rest) (\<lambda>r. case r of
          Inl e \<Rightarrow> Ret (Inl e) | Inr (vs, rest') \<Rightarrow> Ret (Inr (array_value vs, rest'))))" for n
        using el[of n] Cons less
        by (cases "read_elems (read_value fuel) n rest") (auto simp: consumes_def split: sum.splits)
      with Inr p Cons less show ?thesis
        by (auto simp: readArray_def intro!: consumes_make split: option.splits)
    qed (simp add: readArray_def)
    with Cons show ?thesis by auto
  qed (simp add: consumes_def)
qed simp

text \<open>More fuel does not change a result: the fuel of \<open>ReadValue\<close> is as good as any.\<close>

lemma read_elems_cong:
  "(\<And>s'. length s' \<le> length s \<Longrightarrow> rd s' = rd' s' \<and> consumes s' (rd s')) \<Longrightarrow>
    read_elems rd n s = read_elems rd' n s"
proof (induction n arbitrary: s)
  case (Suc n)
  have rd: "rd s = rd' s" and c: "consumes s (rd s)"
    by (rule conjunct1[OF Suc.prems[OF order_refl]], rule conjunct2[OF Suc.prems[OF order_refl]])
  have "read_elems rd n rest = read_elems rd' n rest" if "rd s = Ret (Inr (v, rest))" for v rest
  proof (rule Suc.IH)
    fix s' :: string assume "length s' \<le> length rest"
    moreover have "length rest < length s" using c that by simp
    ultimately show "rd s' = rd' s' \<and> consumes s' (rd s')" by (intro Suc.prems) simp
  qed
  then show ?case
    unfolding read_elems.simps rd [symmetric] by (cases "rd s") (auto split: sum.splits)
qed simp

lemma read_value_fuel:
  "length s < fuel \<Longrightarrow> length s < fuel' \<Longrightarrow> read_value fuel s = read_value fuel' s"
proof (induction fuel arbitrary: s fuel')
  case (Suc fuel)
  obtain f' where f': "fuel' = Suc f'" using Suc.prems(2) by (cases fuel') auto
  show ?case
  proof (cases s)
    case (Cons b s')
    have "readArray (read_value fuel) s' = readArray (read_value f') s'"
    proof (cases "readLine s'")
      case (Inr p)
      obtain line rest where p: "p = (line, rest)" by fastforce
      with Inr have less: "length rest < length s'" by (simp add: readLine_shorter)
      have "read_elems (read_value fuel) n rest = read_elems (read_value f') n rest" for n
        using Suc.prems f' Cons less
        by (intro read_elems_cong conjI Suc.IH read_value_consumes) simp_all
      with Inr p show ?thesis by (simp add: readArray_def split: option.splits)
    qed (simp add: readArray_def)
    with Cons f' show ?thesis by simp
  qed (simp add: f')
qed simp

section \<open>The reader inverts the writer\<close>

text \<open>
  The values that survive the wire: the fields a type does not use have their
  zero value, a line holds no newline, an integer fits in 64 bits, a payload is
  within what the reader can allocate. A null array does not survive: the
  writer sends every null as a null bulk string.
\<close>

fun wire_ok :: "resp_value \<Rightarrow> bool" where
  "wire_ok (Value t s n vs null) =
     (if null then t = TypeBulkString \<and> s = [] \<and> n = 0 \<and> vs = []
      else if t = TypeSimpleString \<or> t = TypeError then NL \<notin> set s \<and> n = 0 \<and> vs = []
      else if t = TypeInteger then int64_range n \<and> s = [] \<and> vs = []
      else if t = TypeBulkString then int (length s) + 2 \<le> max_alloc \<and> n = 0 \<and> vs = []
      else if t = TypeArray then
        s = [] \<and> n = 0 \<and> 8 * int (length vs) \<le> max_alloc \<and> list_all wire_ok vs
      else False)"

lemma readLine_crlf [simp]: "NL \<notin> set line \<Longrightarrow> readLine (line @ crlf @ rest) = Inr (line, rest)"
proof -
  assume n: "NL \<notin> set line"
  have "CR \<noteq> NL" by (simp add: CR_def NL_def)
  with n have "takeWhile (\<lambda>c. c \<noteq> NL) (line @ crlf @ rest) = line @ [CR]"
    and "dropWhile (\<lambda>c. c \<noteq> NL) (line @ crlf @ rest) = NL # rest"
    by (subst takeWhile_append2 dropWhile_append2; auto simp: crlf_def)+
  then show ?thesis by (simp add: readLine_def Let_def)
qed

lemma NL_FormatInt [simp]: "NL \<notin> set (FormatInt n)"
  by (simp add: NL_def)

lemma crlf_simps [simp]:
  "length crlf = 2" "(s @ crlf @ rest) ! length s = CR" "(s @ crlf @ rest) ! Suc (length s) = NL"
  "drop (Suc (Suc (length s))) (s @ crlf @ rest) = rest"
  by (simp_all add: crlf_def nth_append)

lemma readBulkString_write:
  assumes "int (length s) + 2 \<le> max_alloc"
  shows "readBulkString (FormatInt (int (length s)) @ crlf @ s @ crlf @ rest)
    = Ret (Inr (bulk_value s, rest))"
proof -
  have "int64_range (int (length s))" "int64_range (int (length s) + 2)"
    using assms by (simp_all add: int64_defs max_alloc_def)
  then show ?thesis
    using assms
    by (simp add: readBulkString_def wrap64_id make_slice_def Let_def)
qed

lemma readBulkString_null: "readBulkString (''-1'' @ crlf @ rest) = Ret (Inr (null_bulk_value, rest))"
proof -
  have "parsed (ParseInt ''-1'') = Some (- 1)"
    by (simp add: ParseInt_def ParseUint_def parsed_def is_digit_def digit_val_def max_uint64_def)
  moreover have "NL \<notin> set ''-1''" by (simp add: NL_def)
  ultimately show ?thesis
    unfolding readBulkString_def readLine_crlf[OF \<open>NL \<notin> set ''-1''\<close>] by simp
qed

lemma read_elems_write:
  "(\<And>v rest. v \<in> set vs \<Longrightarrow> snd (WriteValue v) \<and> rd (fst (WriteValue v) @ rest) = Ret (Inr (v, rest)))
    \<Longrightarrow> snd (write_elems vs) \<and>
        read_elems rd (length vs) (fst (write_elems vs) @ rest) = Ret (Inr (vs, rest))"
proof (induction vs arbitrary: rest)
  case (Cons v vs)
  obtain out good where w: "WriteValue v = (out, good)" by fastforce
  obtain out' good' where w': "write_elems vs = (out', good')" by fastforce
  from Cons.prems[of v] w have "good" "rd (out @ rest) = Ret (Inr (v, rest))" for rest
    by simp_all
  with Cons.IH[of rest] Cons.prems w w' show ?case by simp
qed simp

fun depth :: "resp_value \<Rightarrow> nat" where
  "depth (Value t s n vs null) = Suc (fold max (map depth vs) 0)"

lemma fold_max_le: "(a::nat) \<le> fold max xs a" "x \<in> set xs \<Longrightarrow> x \<le> fold max xs a"
proof -
  show 1: "(a::nat) \<le> fold max xs a" for a xs
  proof (induction xs arbitrary: a)
    case (Cons y ys)
    then show ?case using max.cobounded2 le_trans by (metis fold_simps(2))
  qed simp
  show "x \<in> set xs \<Longrightarrow> x \<le> fold max xs a"
  proof (induction xs arbitrary: a)
    case (Cons y ys)
    then show ?case using 1[of "max y a" ys] by auto
  qed simp
qed

lemma read_value_write:
  "wire_ok v \<Longrightarrow> depth v \<le> fuel \<Longrightarrow>
    snd (WriteValue v) \<and> read_value fuel (fst (WriteValue v) @ rest) = Ret (Inr (v, rest))"
proof (induction v arbitrary: fuel rest rule: depth.induct)
  case (1 t s n vs null)
  then obtain f where f: "fuel = Suc f" by (cases fuel) auto
  have el: "snd (write_elems vs) \<and>
      read_elems (read_value f) (length vs) (fst (write_elems vs) @ r) = Ret (Inr (vs, r))"
    if "list_all wire_ok vs" for r
  proof (rule read_elems_write)
    fix v rest assume v: "v \<in> set vs"
    then have "depth v \<le> f" using "1.prems"(2) f fold_max_le(2)[of "depth v" "map depth vs" 0] by simp
    with v that "1.IH" show "snd (WriteValue v) \<and> read_value f (fst (WriteValue v) @ rest) = Ret (Inr (v, rest))"
      by (simp add: list_all_iff)
  qed
  show ?case
  proof (cases "t = TypeArray \<and> \<not> null")
    case True
    with "1.prems"(1) have w: "s = []" "n = 0" "8 * int (length vs) \<le> max_alloc" "list_all wire_ok vs"
      by (auto simp: type_defs)
    have "int64_range (int (length vs))" using w by (simp add: int64_defs max_alloc_def)
    then have "readArray (read_value f) (FormatInt (int (length vs)) @ crlf @ fst (write_elems vs) @ rest)
        = Ret (Inr (array_value vs, rest))"
      using el[OF w(4)] w(3) by (simp add: readArray_def make_slice_def)
    with True w el[OF w(4)] f show ?thesis
      by (auto simp: WriteArrayLen_def array_value_def type_defs split: prod.splits)
  next
    case False
    with "1.prems"(1) f readBulkString_null[of rest] show ?thesis
      by (auto simp: WriteNullBulkString_def WriteSimpleString_def WriteError_def WriteInteger_def
          WriteBulkString_def readSimpleString_def readError_def readInteger_def readBulkString_write
          value_defs type_defs split: if_splits)
  qed
qed

text \<open>The same for \<open>ReadValue\<close>, whose fuel is as good as any.\<close>

lemma ReadValue_fuel: "length s < fuel \<Longrightarrow> read_value fuel s = ReadValue s"
  unfolding ReadValue_def by (rule read_value_fuel) simp_all

lemma ReadValue_write:
  assumes "wire_ok v"
  shows "snd (WriteValue v) \<and> ReadValue (fst (WriteValue v) @ rest) = Ret (Inr (v, rest))"
proof -
  let ?s = "fst (WriteValue v) @ rest" and ?fuel = "max (depth v) (Suc (length (fst (WriteValue v) @ rest)))"
  have "snd (WriteValue v) \<and> read_value ?fuel ?s = Ret (Inr (v, rest))"
    by (rule read_value_write[OF assms]) simp
  moreover have "read_value ?fuel ?s = ReadValue ?s"
    by (rule ReadValue_fuel) simp
  ultimately show ?thesis by simp
qed

text \<open>A stream of values: the loop of a client of the reader, until the first error.\<close>

function read_all :: "string \<Rightarrow> resp_value list" where
  "read_all s =
     (case ReadValue s of
        Ret (Inr (v, rest)) \<Rightarrow> if length rest < length s then v # read_all rest else []
      | _ \<Rightarrow> [])"
  by pat_completeness auto
termination by (relation "measure length") auto

declare read_all.simps [simp del]

lemma ReadValue_consumes: "consumes s (ReadValue s)"
  unfolding ReadValue_def by (rule read_value_consumes) simp

lemma read_all_step: "ReadValue s = Ret (Inr (v, rest)) \<Longrightarrow> read_all s = v # read_all rest"
  using ReadValue_consumes[of s] by (subst read_all.simps) (simp add: consumes_def)

lemma read_all_writes:
  "list_all wire_ok vs \<Longrightarrow> read_all (concat (map (\<lambda>v. fst (WriteValue v)) vs)) = vs"
proof (induction vs)
  case Nil
  then show ?case by (subst read_all.simps) (simp add: ReadValue_def)
next
  case (Cons v vs)
  then show ?case
    using read_all_step[of "fst (WriteValue v) @ concat (map (\<lambda>v. fst (WriteValue v)) vs)" v]
      ReadValue_write[of v "concat (map (\<lambda>v. fst (WriteValue v)) vs)"] by simp
qed

section \<open>Parsing does not look ahead\<close>

text \<open>What the reader returned stays the result when more input follows: a pipelined
  command does not change the one before it.\<close>

lemma readLine_more: "readLine s = Inr (line, rest) \<Longrightarrow> readLine (s @ t) = Inr (line, rest @ t)"
proof -
  assume r: "readLine s = Inr (line, rest)"
  then obtain c where d: "dropWhile (\<lambda>c. c \<noteq> NL) s = c # rest"
    by (auto simp: readLine_def Let_def split: list.splits if_splits)
  then have "dropWhile (\<lambda>c. c \<noteq> NL) s \<noteq> []" by simp
  then have n: "NL \<in> set s" by (auto simp: dropWhile_eq_Nil_conv)
  have "takeWhile (\<lambda>c. c \<noteq> NL) (s @ t) = takeWhile (\<lambda>c. c \<noteq> NL) s"
    by (rule takeWhile_append1[OF n]) simp
  moreover have "dropWhile (\<lambda>c. c \<noteq> NL) (s @ t) = c # rest @ t"
    using dropWhile_append1[OF n, of "\<lambda>c. c \<noteq> NL" t] d by simp
  ultimately show ?thesis using r d by (simp add: readLine_def Let_def split: if_splits)
qed

lemma read_line_Inr:
  "(case readLine s of Inl e \<Rightarrow> Ret (Inl e) | Inr (line, rest) \<Rightarrow> f line rest) = Ret (Inr p) \<longleftrightarrow>
    (\<exists>line rest. readLine s = Inr (line, rest) \<and> f line rest = Ret (Inr p))"
  by (auto split: sum.split prod.split)

lemma read_bind_Inr:
  "go_bind m (\<lambda>r. case r of Inl e \<Rightarrow> Ret (Inl e) | Inr (v, rest) \<Rightarrow> f v rest) = Ret (Inr p) \<longleftrightarrow>
    (\<exists>v rest. m = Ret (Inr (v, rest)) \<and> f v rest = Ret (Inr p))"
  by (cases m) (auto split: sum.split prod.split)

definition stable :: "(string \<Rightarrow> 'a read) \<Rightarrow> bool" where
  "stable rd \<longleftrightarrow> (\<forall>s t v rest. rd s = Ret (Inr (v, rest)) \<longrightarrow> rd (s @ t) = Ret (Inr (v, rest @ t)))"

lemma stableD: "stable rd \<Longrightarrow> rd s = Ret (Inr (v, rest)) \<Longrightarrow> rd (s @ t) = Ret (Inr (v, rest @ t))"
  by (simp add: stable_def)

lemma stable_line:
  assumes "\<And>line rest v rest' t. f line rest = Ret (Inr (v, rest')) \<Longrightarrow> f line (rest @ t) = Ret (Inr (v, rest' @ t))"
  shows "stable (\<lambda>s. case readLine s of Inl e \<Rightarrow> Ret (Inl e) | Inr (line, rest) \<Rightarrow> f line rest)"
  unfolding stable_def read_line_Inr using assms readLine_more by blast

lemma stable_lines:
  "stable readSimpleString" "stable readError" "stable readInteger" "stable readInline"
proof -
  show "stable readSimpleString"
    unfolding readSimpleString_def[abs_def] by (rule stable_line) simp
  show "stable readError"
    unfolding readError_def[abs_def] by (rule stable_line) simp
  show "stable readInteger"
    unfolding readInteger_def[abs_def] by (rule stable_line) (simp split: option.splits)
  show "stable readInline"
    unfolding readInline_def[abs_def] by (rule stable_line) (simp add: Let_def split: if_splits)
qed

lemma stable_bulk: "stable readBulkString"
  unfolding stable_def
proof (intro allI impI)
  fix s t v rest assume r: "readBulkString s = Ret (Inr (v, rest))"
  then obtain line rest0 n where l: "readLine s = Inr (line, rest0)" "parsed (ParseInt line) = Some n"
    by (auto simp: readBulkString_def split: sum.splits option.splits)
  show "readBulkString (s @ t) = Ret (Inr (v, rest @ t))"
    using r l readLine_more[OF l(1), of t]
    by (auto simp: readBulkString_def Let_def make_slice_def nth_append split: if_splits)
qed

lemma stable_elems: "stable rd \<Longrightarrow> stable (read_elems rd n)"
proof (induction n)
  case (Suc n)
  then have IH: "stable (read_elems rd n)" by simp
  show ?case
    unfolding stable_def
  proof (intro allI impI)
    fix s t vs rest assume r: "read_elems rd (Suc n) s = Ret (Inr (vs, rest))"
    then obtain v rest0 vs' where v: "rd s = Ret (Inr (v, rest0))"
      and vs: "read_elems rd n rest0 = Ret (Inr (vs', rest))" "vs = v # vs'"
      by (auto simp: read_bind_Inr)
    show "read_elems rd (Suc n) (s @ t) = Ret (Inr (vs, rest @ t))"
      using stableD[OF Suc.prems v] stableD[OF IH vs(1)] vs(2) by simp
  qed
qed (simp add: stable_def)

lemma stable_array:
  assumes "stable rd"
  shows "stable (readArray rd)"
  unfolding stable_def
proof (intro allI impI)
  fix s t v rest assume r: "readArray rd s = Ret (Inr (v, rest))"
  then obtain line rest0 n where l: "readLine s = Inr (line, rest0)" "parsed (ParseInt line) = Some n"
    by (auto simp: readArray_def split: sum.splits option.splits)
  show "readArray rd (s @ t) = Ret (Inr (v, rest @ t))"
  proof (cases "n < 0")
    case True
    with r l readLine_more[OF l(1), of t] show ?thesis by (auto simp: readArray_def split: if_splits)
  next
    case False
    with r l obtain vs where vs: "read_elems rd (nat n) rest0 = Ret (Inr (vs, rest))" "v = array_value vs"
      "make_slice 8 n = Ret ()"
      by (auto simp: readArray_def go_bind_eq_Ret[of "make_slice 8 n"] read_bind_Inr split: if_splits)
    with stableD[OF stable_elems[OF assms] vs(1), of t] False l readLine_more[OF l(1), of t] show ?thesis
      by (simp add: readArray_def)
  qed
qed

lemma stable_value: "stable (read_value fuel)"
proof (induction fuel)
  case (Suc fuel)
  show ?case
    unfolding stable_def
  proof (intro allI impI)
    fix s t v rest assume r: "read_value (Suc fuel) s = Ret (Inr (v, rest))"
    then obtain b s' where s: "s = b # s'" by (cases s) auto
    note st = stable_lines[THEN stableD] stable_bulk[THEN stableD] stable_array[OF Suc, THEN stableD]
    show "read_value (Suc fuel) (s @ t) = Ret (Inr (v, rest @ t))"
      using r st(4)[of s v rest t] by (auto simp: s intro: st split: if_splits)
  qed
qed (simp add: stable_def)

lemma ReadValue_more: "ReadValue s = Ret (Inr (v, rest)) \<Longrightarrow> ReadValue (s @ t) = Ret (Inr (v, rest @ t))"
proof -
  assume "ReadValue s = Ret (Inr (v, rest))"
  then have "read_value (Suc (length (s @ t))) s = Ret (Inr (v, rest))"
    by (simp add: ReadValue_fuel del: read_value.simps)
  then show ?thesis unfolding ReadValue_def by (rule stableD[OF stable_value])
qed

text \<open>Neither does a panic go away when more input follows.\<close>

definition panics_on :: "(string \<Rightarrow> 'a read) \<Rightarrow> bool" where
  "panics_on rd \<longleftrightarrow> (\<forall>s t m. rd s = Panic m \<longrightarrow> rd (s @ t) = Panic m)"

lemma panics_onD: "panics_on rd \<Longrightarrow> rd s = Panic m \<Longrightarrow> rd (s @ t) = Panic m"
  by (simp add: panics_on_def)

lemma no_panic_lines [simp]:
  "readSimpleString s \<noteq> Panic m" "readError s \<noteq> Panic m" "readInteger s \<noteq> Panic m" "readInline s \<noteq> Panic m"
  by (auto simp: readSimpleString_def readError_def readInteger_def readInline_def Let_def split: sum.split option.split)

lemma panics_on_bulk: "panics_on readBulkString"
  unfolding panics_on_def
proof (intro allI impI)
  fix s t m assume r: "readBulkString s = Panic m"
  then obtain line rest n where l: "readLine s = Inr (line, rest)" "parsed (ParseInt line) = Some n"
    by (auto simp: readBulkString_def split: sum.splits option.splits)
  then show "readBulkString (s @ t) = Panic m"
    using r readLine_more[OF l(1), of t]
    by (auto simp: readBulkString_def make_slice_def Let_def split: if_splits)
qed

lemma panics_on_elems:
  assumes "stable rd" and "panics_on rd"
  shows "panics_on (read_elems rd n)"
proof (induction n)
  case (Suc n)
  show ?case
    unfolding panics_on_def
  proof (intro allI impI)
    fix s t m assume r: "read_elems rd (Suc n) s = Panic m"
    show "read_elems rd (Suc n) (s @ t) = Panic m"
    proof (cases "rd s")
      case (Panic m')
      with r panics_onD[OF assms(2) Panic, of t] show ?thesis by simp
    next
      case (Ret x)
      with r obtain v rest where v: "rd s = Ret (Inr (v, rest))" by (cases x) auto
      with r have e: "read_elems rd n rest = Panic m" by (cases "read_elems rd n rest") (auto split: sum.splits)
      show ?thesis using stableD[OF assms(1) v, of t] panics_onD[OF Suc e, of t] by simp
    qed
  qed
qed (simp add: panics_on_def)

lemma panics_on_array:
  assumes "stable rd" and "panics_on rd"
  shows "panics_on (readArray rd)"
  unfolding panics_on_def
proof (intro allI impI)
  fix s t m assume r: "readArray rd s = Panic m"
  then obtain line rest n where l: "readLine s = Inr (line, rest)" "parsed (ParseInt line) = Some n"
    by (auto simp: readArray_def split: sum.splits option.splits)
  note l' = readLine_more[OF l(1), of t]
  show "readArray rd (s @ t) = Panic m"
  proof (cases "make_slice 8 n")
    case (Panic m')
    with r l l' show ?thesis by (auto simp: readArray_def split: if_splits)
  next
    case (Ret u)
    with r l have e: "read_elems rd (nat n) rest = Panic m"
      by (cases "read_elems rd (nat n) rest") (auto simp: readArray_def split: if_splits sum.splits)
    with panics_onD[OF panics_on_elems[OF assms] e, of t] r l l' Ret show ?thesis
      by (auto simp: readArray_def split: if_splits)
  qed
qed

lemma panics_on_value: "panics_on (read_value fuel)"
proof (induction fuel)
  case (Suc fuel)
  note arr = panics_onD[OF panics_on_array[OF stable_value Suc]]
  show ?case
    unfolding panics_on_def
  proof (intro allI impI)
    fix s t m assume r: "read_value (Suc fuel) s = Panic m"
    then obtain b s' where s: "s = b # s'" by (cases s) auto
    show "read_value (Suc fuel) (s @ t) = Panic m"
      using r by (auto simp: s intro: arr panics_onD[OF panics_on_bulk] split: if_splits)
  qed
qed (simp add: panics_on_def)

lemma ReadValue_panic_more: "ReadValue s = Panic m \<Longrightarrow> ReadValue (s @ t) = Panic m"
proof -
  assume "ReadValue s = Panic m"
  then have "read_value (Suc (length (s @ t))) s = Panic m"
    by (simp add: ReadValue_fuel del: read_value.simps)
  then show ?thesis unfolding ReadValue_def by (rule panics_onD[OF panics_on_value])
qed

text \<open>The only panic is that of an allocation.\<close>

definition makeslice_panic :: string where "makeslice_panic = ''makeslice: len out of range''"

lemma make_slice_panic: "make_slice k n = Panic m \<Longrightarrow> m = makeslice_panic"
  by (auto simp: make_slice_def makeslice_panic_def split: if_splits)

lemma panic_bulk: "readBulkString s = Panic m \<Longrightarrow> m = makeslice_panic"
  by (auto simp: readBulkString_def make_slice_def makeslice_panic_def Let_def split: sum.splits option.splits if_splits)

lemma panic_elems:
  "(\<And>s m. rd s = Panic m \<Longrightarrow> P m) \<Longrightarrow> read_elems rd n s = Panic m \<Longrightarrow> P m"
proof (induction n arbitrary: s)
  case (Suc n)
  show ?case
  proof (cases "rd s")
    case (Ret x)
    with Suc.prems(2) obtain v rest where "x = Inr (v, rest)" by (cases x) auto
    with Suc Ret show ?thesis by (cases "read_elems rd n rest") (auto split: sum.splits)
  qed (use Suc.prems in auto)
qed simp

lemma panic_array:
  assumes "\<And>s m. rd s = Panic m \<Longrightarrow> P m" and "P makeslice_panic" and "readArray rd s = Panic m"
  shows "P m"
proof -
  obtain line rest n where l: "readLine s = Inr (line, rest)" "parsed (ParseInt line) = Some n"
    using assms(3) by (auto simp: readArray_def split: sum.splits option.splits)
  show ?thesis
  proof (cases "make_slice 8 n")
    case (Panic m')
    with assms(2,3) l make_slice_panic[OF Panic] show ?thesis by (auto simp: readArray_def split: if_splits)
  next
    case (Ret u)
    with l assms(3) have "read_elems rd (nat n) rest = Panic m"
      by (cases "read_elems rd (nat n) rest") (auto simp: readArray_def split: if_splits sum.splits)
    with panic_elems[of rd P] assms(1) show ?thesis by blast
  qed
qed

lemma panic_value: "read_value fuel s = Panic m \<Longrightarrow> m = makeslice_panic \<or> m = out_of_fuel"
proof (induction fuel arbitrary: s m)
  case (Suc fuel)
  obtain b s' where s: "s = b # s'" using Suc.prems by (cases s) auto
  show ?case
    using Suc.prems panic_bulk[of s' m] panic_array[of "read_value fuel" "\<lambda>m. m = makeslice_panic \<or> m = out_of_fuel" s' m] Suc.IH
    by (auto simp: s split: if_splits)
qed simp

lemma ReadValue_panic: "ReadValue s = Panic m \<Longrightarrow> m = makeslice_panic"
  using panic_value[of "Suc (length s)" s m] ReadValue_consumes[of s] by (auto simp: ReadValue_def consumes_def)

text \<open>A part of a value is no value: reading a proper prefix of what the writer sent is an error.\<close>

lemma ReadValue_prefix:
  assumes "wire_ok v" and "fst (WriteValue v) = p @ t" and "t \<noteq> []"
  shows "\<exists>err. ReadValue p = Ret (Inl err)"
proof -
  have r: "ReadValue (p @ t) = Ret (Inr (v, []))" using ReadValue_write[OF assms(1), of "[]"] assms(2) by simp
  show ?thesis
  proof (cases "ReadValue p")
    case (Panic m)
    with ReadValue_panic_more[OF Panic, of t] r show ?thesis by simp
  next
    case (Ret x)
    show ?thesis
    proof (cases x)
      case (Inr q)
      obtain w rest where "q = (w, rest)" by fastforce
      with ReadValue_more[of p w rest t] Ret Inr r assms(3) show ?thesis by simp
    qed (use Ret in simp)
  qed
qed

end
