(* ===== verification/Go_Glob.thy ===== *)
theory Go_Glob
  imports Go_Strconv
begin

text \<open>
  \<open>filepath.Match\<close> of Go's standard library on a Unix system, which decides the
  patterns of \<open>KEYS\<close> and \<open>SCAN\<close>. Strings are taken byte by byte (exact for ASCII
  patterns and names). \<open>None\<close> is the error \<open>ErrBadPattern\<close>.
\<close>

definition slash :: char where "slash = CHR ''/''"
definition backslash :: char where "backslash = CHR 0x5C"

text \<open>\<open>scanChunk\<close>: the stars in front, then the text up to the next star that is
  neither escaped nor inside brackets.\<close>

fun scan_chunk_loop :: "bool \<Rightarrow> string \<Rightarrow> string \<times> string" where
  "scan_chunk_loop inrange [] = ([], [])"
| "scan_chunk_loop inrange (c # cs) =
     (if c = backslash then
        (case cs of [] \<Rightarrow> ([c], [])
         | d # ds \<Rightarrow> (case scan_chunk_loop inrange ds of (chunk, rest) \<Rightarrow> (c # d # chunk, rest)))
      else if c = CHR ''*'' \<and> \<not> inrange then ([], c # cs)
      else let inrange = (if c = CHR ''['' then True else if c = CHR '']'' then False else inrange)
           in (case scan_chunk_loop inrange cs of (chunk, rest) \<Rightarrow> (c # chunk, rest)))"

definition scan_chunk :: "string \<Rightarrow> bool \<times> string \<times> string" where
  "scan_chunk p =
     (case scan_chunk_loop False (dropWhile (\<lambda>c. c = CHR ''*'') p) of
        (chunk, rest) \<Rightarrow> (p \<noteq> [] \<and> hd p = CHR ''*'', chunk, rest))"

text \<open>\<open>getEsc\<close>: one character of a bracket expression; something must follow it.\<close>

definition get_esc :: "string \<Rightarrow> (char \<times> string) option" where
  "get_esc chunk =
     (case chunk of
        [] \<Rightarrow> None
      | c # cs \<Rightarrow>
          if c = CHR ''-'' \<or> c = CHR '']'' then None
          else (case (if c = backslash then cs else chunk) of
                  [] \<Rightarrow> None
                | r # rest \<Rightarrow> if rest = [] then None else Some (r, rest)))"

lemma get_esc_shorter: "get_esc chunk = Some (r, rest) \<Longrightarrow> length rest < length chunk"
  by (auto simp: get_esc_def split: list.splits if_splits)

text \<open>The ranges of a bracket expression against the character \<open>r\<close>.\<close>

function match_ranges :: "nat \<Rightarrow> string \<Rightarrow> bool \<Rightarrow> nat \<Rightarrow> (bool \<times> string) option" where
  "match_ranges r chunk m n =
     (if chunk \<noteq> [] \<and> hd chunk = CHR '']'' \<and> 0 < n then Some (m, tl chunk)
      else case get_esc chunk of
        None \<Rightarrow> None
      | Some (lo, chunk1) \<Rightarrow>
          (case (if hd chunk1 = CHR ''-'' then get_esc (tl chunk1) else Some (lo, chunk1)) of
             None \<Rightarrow> None
           | Some (hi, chunk2) \<Rightarrow>
               match_ranges r chunk2 (m \<or> of_char lo \<le> r \<and> r \<le> of_char hi) (Suc n)))"
  by pat_completeness auto
termination
proof (relation "measure (\<lambda>(r, chunk, m, n). length chunk)")
  fix r :: nat and chunk :: string and m :: bool and n :: nat and p lo chunk1 q hi chunk2
  assume "get_esc chunk = Some p" "(lo, chunk1) = p"
    "(if hd chunk1 = CHR ''-'' then get_esc (tl chunk1) else Some (lo, chunk1)) = Some q" "(hi, chunk2) = q"
  then have "length chunk1 < length chunk" "length chunk2 \<le> length chunk1"
    using get_esc_shorter[of chunk lo chunk1] get_esc_shorter[of "tl chunk1" hi chunk2]
    by (auto split: if_splits)
  then show "((r, chunk2, m \<or> of_char lo \<le> r \<and> r \<le> of_char hi, Suc n), r, chunk, m, n)
      \<in> measure (\<lambda>(r, chunk, m, n). length chunk)" by simp
qed simp

declare match_ranges.simps [simp del]

lemma match_ranges_shorter: "match_ranges r chunk m n = Some (b, rest) \<Longrightarrow> length rest < length chunk"
proof (induction r chunk m n rule: match_ranges.induct)
  case (1 r chunk m n)
  show ?case
  proof (cases "chunk \<noteq> [] \<and> hd chunk = CHR '']'' \<and> 0 < n")
    case True
    with 1 show ?thesis by (cases chunk) (auto simp: match_ranges.simps)
  next
    case False
    with 1(2) obtain lo chunk1 where e: "get_esc chunk = Some (lo, chunk1)"
      by (subst (asm) match_ranges.simps) (auto split: option.splits)
    with 1(2) False obtain hi chunk2 where
      h: "(if hd chunk1 = CHR ''-'' then get_esc (tl chunk1) else Some (lo, chunk1)) = Some (hi, chunk2)"
      and m: "match_ranges r chunk2 (m \<or> of_char lo \<le> r \<and> r \<le> of_char hi) (Suc n) = Some (b, rest)"
      by (subst (asm) match_ranges.simps) (auto split: option.splits)
    have "length chunk2 < length chunk"
      using get_esc_shorter[OF e] h get_esc_shorter[of "tl chunk1" hi chunk2] by (auto split: if_splits)
    with 1(1)[OF False e refl h refl m] show ?thesis by simp
  qed
qed

text \<open>
  \<open>matchChunk\<close>: a chunk without stars against the front of \<open>s\<close>. \<open>failed\<close> records a
  mismatch; the rest of the chunk is still checked for errors.
\<close>

function match_chunk :: "bool \<Rightarrow> string \<Rightarrow> string \<Rightarrow> string option option" where
  "match_chunk failed [] s = Some (if failed then None else Some s)"
| "match_chunk failed (c # chunk) s =
     (let failed = (failed \<or> s = []) in
      if c = CHR ''['' then
        (let r = (if failed then 0 else of_char (hd s));
             negated = (chunk \<noteq> [] \<and> hd chunk = CHR ''^'')
         in case match_ranges r (if negated then tl chunk else chunk) False 0 of
              None \<Rightarrow> None
            | Some (m, rest) \<Rightarrow> match_chunk (failed \<or> m = negated) rest (if failed then s else tl s))
      else if c = CHR ''?'' then
        match_chunk (failed \<or> hd s = slash) chunk (if failed then s else tl s)
      else if c = backslash then
        (case chunk of [] \<Rightarrow> None
         | d # chunk' \<Rightarrow> match_chunk (failed \<or> d \<noteq> hd s) chunk' (if failed then s else tl s))
      else match_chunk (failed \<or> c \<noteq> hd s) chunk (if failed then s else tl s))"
  by pat_completeness auto
termination
proof (relation "measure (\<lambda>(failed, chunk, s). length chunk)")
  fix failed c chunk s x xa xb p m rest
  assume "match_ranges xa (if xb then tl chunk else chunk) False 0 = Some p" "(m, rest) = p"
  then have "length rest < length (if xb then tl chunk else chunk)"
    using match_ranges_shorter by metis
  then have "length rest < Suc (length chunk)" by (auto split: if_splits)
  then show "((x \<or> m = xb, rest, if x then s else tl s), failed, c # chunk, s)
    \<in> measure (\<lambda>(failed, chunk, s). length chunk)" by simp
qed auto


lemma scan_chunk_loop_append: "scan_chunk_loop b p = (chunk, rest) \<Longrightarrow> p = chunk @ rest"
  by (induction b p arbitrary: chunk rest rule: scan_chunk_loop.induct)
    (auto simp: Let_def split: if_splits list.splits prod.splits)

lemma scan_chunk_shorter:
  assumes "scan_chunk p = (star, chunk, rest)" and "p \<noteq> []"
  shows "length rest < length p"
proof -
  obtain c cs where p: "p = c # cs" using assms(2) by (cases p) auto
  have app: "dropWhile (\<lambda>c. c = CHR ''*'') p = chunk @ rest"
    using assms(1) scan_chunk_loop_append by (auto simp: scan_chunk_def split: prod.splits)
  show ?thesis
  proof (cases "c = CHR ''*''")
    case True
    then have "length (chunk @ rest) \<le> length cs"
      using app length_dropWhile_le[of "\<lambda>c. c = CHR ''*''" cs] p by simp
    then show ?thesis by (simp add: p)
  next
    case False
    then have "chunk \<noteq> []"
      using assms(1) p by (auto simp: scan_chunk_def Let_def split: prod.splits if_splits list.splits)
    moreover have "p = chunk @ rest" using app p False by simp
    ultimately show ?thesis by simp
  qed
qed

text \<open>The search behind a star: skip characters other than the separator.\<close>

fun star_search :: "string \<Rightarrow> bool \<Rightarrow> string \<Rightarrow> string option option" where
  "star_search chunk last_chunk [] = Some None"
| "star_search chunk last_chunk (n # ns) =
     (if n = slash then Some None
      else case match_chunk False chunk ns of
        None \<Rightarrow> None
      | Some None \<Rightarrow> star_search chunk last_chunk ns
      | Some (Some t) \<Rightarrow>
          if last_chunk \<and> t \<noteq> [] then star_search chunk last_chunk ns else Some (Some t))"

text \<open>After a mismatch the rest of the pattern is checked for errors.\<close>

function rest_valid :: "string \<Rightarrow> bool" where
  "rest_valid pattern =
     (if pattern = [] then True
      else case scan_chunk pattern of (_, chunk, rest) \<Rightarrow>
        match_chunk False chunk [] \<noteq> None \<and> rest_valid rest)"
  by pat_completeness auto
termination by (relation "measure length") (auto dest: scan_chunk_shorter[OF sym])

declare rest_valid.simps [simp del]

function Match :: "string \<Rightarrow> string \<Rightarrow> bool option" where
  "Match pattern name =
     (if pattern = [] then Some (name = [])
      else case scan_chunk pattern of (star, chunk, rest) \<Rightarrow>
        if star \<and> chunk = [] then Some (slash \<notin> set name)
        else (case match_chunk False chunk name of
            None \<Rightarrow> None
          | Some r \<Rightarrow>
              (case (case r of Some t \<Rightarrow> if t = [] \<or> rest \<noteq> [] then Some t else None | None \<Rightarrow> None) of
                 Some t \<Rightarrow> Match rest t
               | None \<Rightarrow>
                   if star then
                     (case star_search chunk (rest = []) name of
                        None \<Rightarrow> None
                      | Some None \<Rightarrow> if rest_valid rest then Some False else None
                      | Some (Some t) \<Rightarrow> Match rest t)
                   else if rest_valid rest then Some False else None)))"
  by pat_completeness auto
termination by (relation "measure (length \<circ> fst)") (auto dest: scan_chunk_shorter[OF sym])

declare Match.simps [simp del]

lemma rest_valid_Nil [simp]: "rest_valid []"
  by (subst rest_valid.simps) simp

lemma Match_Nil [simp]: "Match [] s = Some (s = [])"
  by (subst Match.simps) simp

section \<open>Two kinds of patterns\<close>

text \<open>Characters without a meaning of their own.\<close>

definition plain_char :: "char \<Rightarrow> bool" where
  "plain_char c \<longleftrightarrow> c \<noteq> CHR ''*'' \<and> c \<noteq> CHR ''?'' \<and> c \<noteq> CHR ''['' \<and> c \<noteq> backslash"

lemma scan_chunk_plain:
  "list_all plain_char p \<Longrightarrow> scan_chunk_loop False (p @ q) = (case scan_chunk_loop False q of (c, r) \<Rightarrow> (p @ c, r))"
  by (induction p) (auto simp: plain_char_def split: prod.splits)

lemma match_chunk_failed: "list_all plain_char p \<Longrightarrow> match_chunk True p s = Some None"
  by (induction p) (auto simp: plain_char_def)

lemma match_chunk_plain:
  "list_all plain_char p \<Longrightarrow> match_chunk False p s =
    Some (if length p \<le> length s \<and> take (length p) s = p then Some (drop (length p) s) else None)"
proof (induction p arbitrary: s)
  case (Cons c p)
  have "match_chunk True p t = Some None" for t using Cons.prems by (simp add: match_chunk_failed)
  with Cons show ?case
    by (cases s; cases "c = hd s") (auto simp: plain_char_def Let_def)
qed simp

lemma dropWhile_plain: "list_all plain_char p \<Longrightarrow> dropWhile (\<lambda>c. c = CHR ''*'') p = p"
  by (cases p) (auto simp: plain_char_def)

text \<open>A pattern of plain characters matches itself only; with a star at its end it
  matches the names with this prefix and no separator behind it.\<close>

lemma Match_plain: "list_all plain_char p \<Longrightarrow> Match p s = Some (p = s)"
proof -
  assume p: "list_all plain_char p"
  show ?thesis
  proof (cases "p = []")
    case True
    then show ?thesis by auto
  next
    case False
    then obtain c cs where Cons: "p = c # cs" by (cases p) auto
    have sc: "scan_chunk p = (False, p, [])"
      using scan_chunk_plain[OF p, of "[]"] p dropWhile_plain[OF p]
      by (auto simp: scan_chunk_def Cons plain_char_def)
    have eq: "p = s \<longleftrightarrow> (length p \<le> length s \<and> take (length p) s = p) \<and> drop (length p) s = []"
      by (metis append_take_drop_id append_Nil2 drop_all order_refl take_all)
    show ?thesis
      unfolding Match.simps[of p] sc eq using False
      by (cases "length p \<le> length s \<and> take (length p) s = p")
        (simp_all only: match_chunk_plain[OF p] if_True if_False prod.case option.case simp_thms
          Match_Nil rest_valid_Nil not_False_eq_True split: if_split, simp_all)
  qed
qed

lemma Match_prefix:
  assumes p: "list_all plain_char p" "p \<noteq> []"
  shows "Match (p @ ''*'') s = Some (length p \<le> length s \<and> take (length p) s = p \<and> slash \<notin> set (drop (length p) s))"
proof -
  have sc: "scan_chunk (p @ ''*'') = (False, p, ''*'')"
    using scan_chunk_plain[OF p(1), of "''*''"] p by (cases p) (auto simp: scan_chunk_def plain_char_def backslash_def)
  have star: "Match ''*'' t = Some (slash \<notin> set t)" for t
    by (subst Match.simps) (simp add: scan_chunk_def)
  have "rest_valid ''*''" by (subst rest_valid.simps) (simp add: scan_chunk_def)
  then show ?thesis
    by (subst Match.simps) (auto simp: sc match_chunk_plain[OF p(1)] star)
qed

end
