(* ===== verification/Linked_List.thy ===== *)
theory Linked_List
  imports Qwik_Prelude
begin

text \<open>
  The doubly linked list that backs the Redis lists (datastructures/list.go).
  The nodes of one list live in an arena of their own, \<open>nodes\<close>, indexed by
  addresses; a pointer is an \<open>option\<close> of an address, nil is \<open>None\<close>. Nodes are
  private to their list in the code, so one arena per list loses nothing.

  The second half shows that every operation refines the operation on the
  sequence of values (\<open>elems\<close>), under the representation invariant \<open>list_wf\<close>:
  the chain of next pointers, the chain of prev pointers, head, tail and length
  agree. Following a nil pointer gives nil in the model and panics in Go; the
  refinement lemmas show that it never happens, since every walk they meet
  ends in the node they name.
\<close>

section \<open>The structure\<close>

record lnode =
  lvalue :: string
  lprev :: "nat option"
  lnext :: "nat option"

record llist =
  nodes :: "nat \<Rightarrow> lnode"
  lhead :: "nat option"
  ltail :: "nat option"
  llength :: int
  lfresh :: nat

definition nil_node :: lnode where
  "nil_node = \<lparr>lvalue = [], lprev = None, lnext = None\<rparr>"

definition NewList :: llist where
  "NewList = \<lparr>nodes = (\<lambda>a. nil_node), lhead = None, ltail = None, llength = 0, lfresh = 0\<rparr>"

definition Len :: "llist \<Rightarrow> int" where "Len l = llength l"

text \<open>Writes through a pointer.\<close>

definition set_node :: "nat \<Rightarrow> lnode \<Rightarrow> llist \<Rightarrow> llist" where
  "set_node a n l = l\<lparr>nodes := (nodes l)(a := n)\<rparr>"

definition set_next :: "nat option \<Rightarrow> nat option \<Rightarrow> llist \<Rightarrow> llist" where
  "set_next p q l = (case p of None \<Rightarrow> l | Some a \<Rightarrow> set_node a ((nodes l a)\<lparr>lnext := q\<rparr>) l)"

definition set_prev :: "nat option \<Rightarrow> nat option \<Rightarrow> llist \<Rightarrow> llist" where
  "set_prev p q l = (case p of None \<Rightarrow> l | Some a \<Rightarrow> set_node a ((nodes l a)\<lparr>lprev := q\<rparr>) l)"

text \<open>\<open>node := &ListNode{...}\<close>: the new node gets the next free address.\<close>

definition alloc_node :: "lnode \<Rightarrow> llist \<Rightarrow> llist" where
  "alloc_node n l = (set_node (lfresh l) n l)\<lparr>lfresh := Suc (lfresh l)\<rparr>"

section \<open>The operations\<close>

definition push_left :: "string \<Rightarrow> llist \<Rightarrow> llist" where
  "push_left v l =
     (let a = lfresh l;
          l = alloc_node \<lparr>lvalue = v, lprev = None, lnext = None\<rparr> l;
          l = (if lhead l = None then l\<lparr>lhead := Some a, ltail := Some a\<rparr>
               else (set_prev (lhead l) (Some a) (set_next (Some a) (lhead l) l))\<lparr>lhead := Some a\<rparr>)
      in l\<lparr>llength := llength l + 1\<rparr>)"

definition push_right :: "string \<Rightarrow> llist \<Rightarrow> llist" where
  "push_right v l =
     (let a = lfresh l;
          l = alloc_node \<lparr>lvalue = v, lprev = None, lnext = None\<rparr> l;
          l = (if ltail l = None then l\<lparr>lhead := Some a, ltail := Some a\<rparr>
               else (set_next (ltail l) (Some a) (set_prev (Some a) (ltail l) l))\<lparr>ltail := Some a\<rparr>)
      in l\<lparr>llength := llength l + 1\<rparr>)"

fun LPush :: "string list \<Rightarrow> llist \<Rightarrow> llist" where
  "LPush [] l = l"
| "LPush (v # vs) l = LPush vs (push_left v l)"

fun RPush :: "string list \<Rightarrow> llist \<Rightarrow> llist" where
  "RPush [] l = l"
| "RPush (v # vs) l = RPush vs (push_right v l)"

definition LPop :: "llist \<Rightarrow> string option \<times> llist" where
  "LPop l =
     (case lhead l of
        None \<Rightarrow> (None, l)
      | Some a \<Rightarrow>
          let val = lvalue (nodes l a);
              l = l\<lparr>lhead := lnext (nodes l a)\<rparr>;
              l = (if lhead l \<noteq> None then set_prev (lhead l) None l else l\<lparr>ltail := None\<rparr>)
          in (Some val, l\<lparr>llength := llength l - 1\<rparr>))"

definition RPop :: "llist \<Rightarrow> string option \<times> llist" where
  "RPop l =
     (case ltail l of
        None \<Rightarrow> (None, l)
      | Some a \<Rightarrow>
          let val = lvalue (nodes l a);
              l = l\<lparr>ltail := lprev (nodes l a)\<rparr>;
              l = (if ltail l \<noteq> None then set_next (ltail l) None l else l\<lparr>lhead := None\<rparr>)
          in (Some val, l\<lparr>llength := llength l - 1\<rparr>))"

text \<open>Following \<open>next\<close> (or \<open>prev\<close>) \<open>k\<close> times.\<close>

fun walk_next :: "llist \<Rightarrow> nat \<Rightarrow> nat option \<Rightarrow> nat option" where
  "walk_next l 0 p = p"
| "walk_next l (Suc k) p = (case p of None \<Rightarrow> None | Some a \<Rightarrow> walk_next l k (lnext (nodes l a)))"

fun walk_prev :: "llist \<Rightarrow> nat \<Rightarrow> nat option \<Rightarrow> nat option" where
  "walk_prev l 0 p = p"
| "walk_prev l (Suc k) p = (case p of None \<Rightarrow> None | Some a \<Rightarrow> walk_prev l k (lprev (nodes l a)))"

definition nodeAt :: "int \<Rightarrow> llist \<Rightarrow> nat option" where
  "nodeAt idx l =
     (let idx = (if idx < 0 then llength l + idx else idx)
      in if idx < 0 \<or> llength l \<le> idx then None
         else if idx < llength l div 2 then walk_next l (nat idx) (lhead l)
         else walk_prev l (nat (llength l - 1 - idx)) (ltail l))"

definition Index :: "int \<Rightarrow> llist \<Rightarrow> string option" where
  "Index idx l = (case nodeAt idx l of None \<Rightarrow> None | Some a \<Rightarrow> Some (lvalue (nodes l a)))"

definition Set_at :: "int \<Rightarrow> string \<Rightarrow> llist \<Rightarrow> bool \<times> llist" where
  "Set_at idx v l =
     (case nodeAt idx l of
        None \<Rightarrow> (False, l)
      | Some a \<Rightarrow> (True, set_node a ((nodes l a)\<lparr>lvalue := v\<rparr>) l))"

definition normalizeRange :: "int \<Rightarrow> int \<Rightarrow> llist \<Rightarrow> int \<times> int" where
  "normalizeRange start stop l =
     (let start = (if start < 0 then llength l + start else start);
          stop = (if stop < 0 then llength l + stop else stop);
          start = (if start < 0 then 0 else start);
          stop = (if llength l \<le> stop then llength l - 1 else stop)
      in (start, stop))"

fun range_loop :: "llist \<Rightarrow> nat \<Rightarrow> nat option \<Rightarrow> string list" where
  "range_loop l 0 p = []"
| "range_loop l (Suc k) p =
     (case p of None \<Rightarrow> [] | Some a \<Rightarrow> lvalue (nodes l a) # range_loop l k (lnext (nodes l a)))"

definition Range :: "int \<Rightarrow> int \<Rightarrow> llist \<Rightarrow> string list" where
  "Range start stop l =
     (let (start, stop) = normalizeRange start stop l
      in if stop < start then [] else range_loop l (nat (stop - start + 1)) (nodeAt start l))"

definition Trim :: "int \<Rightarrow> int \<Rightarrow> llist \<Rightarrow> llist" where
  "Trim start stop l =
     (let (start, stop) = normalizeRange start stop l
      in if stop < start then l\<lparr>lhead := None, ltail := None, llength := 0\<rparr>
         else let newHead = nodeAt start l; newTail = nodeAt stop l;
                  l = set_prev newHead None l;
                  l = set_next newTail None l
              in l\<lparr>lhead := newHead, ltail := newTail, llength := stop - start + 1\<rparr>)"

definition insertBefore :: "nat \<Rightarrow> string \<Rightarrow> llist \<Rightarrow> llist" where
  "insertBefore a v l =
     (let n = lfresh l;
          prev = lprev (nodes l a);
          l = alloc_node \<lparr>lvalue = v, lprev = prev, lnext = Some a\<rparr> l;
          l = (if prev \<noteq> None then set_next prev (Some n) l else l\<lparr>lhead := Some n\<rparr>);
          l = set_prev (Some a) (Some n) l
      in l\<lparr>llength := llength l + 1\<rparr>)"

definition insertAfter :: "nat \<Rightarrow> string \<Rightarrow> llist \<Rightarrow> llist" where
  "insertAfter a v l =
     (let n = lfresh l;
          next = lnext (nodes l a);
          l = alloc_node \<lparr>lvalue = v, lprev = Some a, lnext = next\<rparr> l;
          l = (if next \<noteq> None then set_prev next (Some n) l else l\<lparr>ltail := Some n\<rparr>);
          l = set_next (Some a) (Some n) l
      in l\<lparr>llength := llength l + 1\<rparr>)"

text \<open>
  The search loop of \<open>InsertBefore\<close> and \<open>InsertAfter\<close>. Its fuel is the number of
  nodes ever allocated, which a chain without cycles cannot exceed.
\<close>

fun find_node :: "llist \<Rightarrow> nat \<Rightarrow> string \<Rightarrow> nat option \<Rightarrow> nat option" where
  "find_node l 0 pivot p = None"
| "find_node l (Suc fuel) pivot p =
     (case p of None \<Rightarrow> None
      | Some a \<Rightarrow> if lvalue (nodes l a) = pivot then Some a
                 else find_node l fuel pivot (lnext (nodes l a)))"

definition InsertBefore :: "string \<Rightarrow> string \<Rightarrow> llist \<Rightarrow> int \<times> llist" where
  "InsertBefore pivot v l =
     (case find_node l (lfresh l) pivot (lhead l) of
        None \<Rightarrow> (- 1, l)
      | Some a \<Rightarrow> let l = insertBefore a v l in (llength l, l))"

definition InsertAfter :: "string \<Rightarrow> string \<Rightarrow> llist \<Rightarrow> int \<times> llist" where
  "InsertAfter pivot v l =
     (case find_node l (lfresh l) pivot (lhead l) of
        None \<Rightarrow> (- 1, l)
      | Some a \<Rightarrow> let l = insertAfter a v l in (llength l, l))"

definition removeNode :: "nat \<Rightarrow> llist \<Rightarrow> llist" where
  "removeNode a l =
     (let n = nodes l a;
          l = (if lprev n \<noteq> None then set_next (lprev n) (lnext n) l else l\<lparr>lhead := lnext n\<rparr>);
          l = (if lnext n \<noteq> None then set_prev (lnext n) (lprev n) l else l\<lparr>ltail := lprev n\<rparr>)
      in l\<lparr>llength := llength l - 1\<rparr>)"

fun remove_loop :: "nat \<Rightarrow> bool \<Rightarrow> int \<Rightarrow> string \<Rightarrow> nat option \<Rightarrow> int \<Rightarrow> llist \<Rightarrow> int \<times> llist" where
  "remove_loop 0 fromTail cnt element p removed l = (removed, l)"
| "remove_loop (Suc fuel) fromTail cnt element p removed l =
     (case p of
        None \<Rightarrow> (removed, l)
      | Some a \<Rightarrow>
          if cnt = 0 \<or> removed < cnt then
            let next = (if fromTail then lprev (nodes l a) else lnext (nodes l a))
            in if lvalue (nodes l a) = element
               then remove_loop fuel fromTail cnt element next (removed + 1) (removeNode a l)
               else remove_loop fuel fromTail cnt element next removed l
          else (removed, l))"

definition Remove :: "int \<Rightarrow> string \<Rightarrow> llist \<Rightarrow> int \<times> llist" where
  "Remove cnt element l =
     (let fromTail = (cnt < 0);
          cnt = (if cnt < 0 then wrap64 (- cnt) else cnt);
          node = (if fromTail then ltail l else lhead l)
      in remove_loop (lfresh l) fromTail cnt element node 0 l)"

section \<open>The representation invariant\<close>

text \<open>
  \<open>links h q as n\<close>: the nodes \<open>as\<close> are chained in this order by their \<open>next\<close> and
  \<open>prev\<close> pointers, the first one's \<open>prev\<close> being \<open>q\<close>, the last one's \<open>next\<close> being \<open>n\<close>.
\<close>

fun links :: "(nat \<Rightarrow> lnode) \<Rightarrow> nat option \<Rightarrow> nat list \<Rightarrow> nat option \<Rightarrow> bool" where
  "links h q [] n = True"
| "links h q (a # as) n = (lprev (h a) = q \<and> lnext (h a) = first_or as n \<and> links h (Some a) as n)"

definition list_rel :: "llist \<Rightarrow> nat list \<Rightarrow> bool" where
  "list_rel l as \<longleftrightarrow> links (nodes l) None as None \<and> lhead l = first_or as None
     \<and> ltail l = last_or None as \<and> distinct as \<and> list_all (\<lambda>a. a < lfresh l) as
     \<and> llength l = int (length as)"

fun chain :: "(nat \<Rightarrow> lnode) \<Rightarrow> nat \<Rightarrow> nat option \<Rightarrow> nat list" where
  "chain h 0 p = []"
| "chain h (Suc k) p = (case p of None \<Rightarrow> [] | Some a \<Rightarrow> a # chain h k (lnext (h a)))"

definition addrs :: "llist \<Rightarrow> nat list" where
  "addrs l = chain (nodes l) (nat (llength l)) (lhead l)"

definition elems :: "llist \<Rightarrow> string list" where
  "elems l = map (\<lambda>a. lvalue (nodes l a)) (addrs l)"

definition list_wf :: "llist \<Rightarrow> bool" where
  "list_wf l \<longleftrightarrow> list_rel l (addrs l)"

lemma links_append [simp]:
  "links h q (as @ bs) n \<longleftrightarrow> links h q as (first_or bs n) \<and> links h (last_or q as) bs n"
  by (induction as arbitrary: q) auto

lemma links_frame [simp]: "x \<notin> set as \<Longrightarrow> links (h(x := m)) q as n = links h q as n"
  by (induction as arbitrary: q) auto

lemma chain_links: "links h q as None \<Longrightarrow> chain h (length as) (first_or as None) = as"
proof (induction as arbitrary: q)
  case (Cons a as)
  then show ?case by (cases as) auto
qed simp

lemma list_rel_addrs: "list_rel l as \<Longrightarrow> addrs l = as"
  unfolding list_rel_def addrs_def using chain_links by auto

lemma list_wf_rel: "list_rel l as \<Longrightarrow> list_wf l"
  using list_rel_addrs by (simp add: list_wf_def)

text \<open>\<open>repr l as vs\<close>: the list has the nodes \<open>as\<close>, which hold the values \<open>vs\<close>.\<close>

definition repr :: "llist \<Rightarrow> nat list \<Rightarrow> string list \<Rightarrow> bool" where
  "repr l as vs \<longleftrightarrow> list_rel l as \<and> vs = map (\<lambda>a. lvalue (nodes l a)) as"

lemma repr_wf: "list_wf l \<Longrightarrow> repr l (addrs l) (elems l)"
  by (simp add: repr_def list_wf_def elems_def)

lemma repr_elems: "repr l as vs \<Longrightarrow> list_wf l \<and> elems l = vs \<and> addrs l = as"
  using list_rel_addrs list_wf_rel by (auto simp: repr_def elems_def)

lemma repr_length: "repr l as vs \<Longrightarrow> length as = length vs \<and> llength l = int (length vs)"
  by (simp add: repr_def list_rel_def)

lemmas write_defs = set_next_def set_prev_def set_node_def alloc_node_def

section \<open>Pushing and popping\<close>

lemma map_value_frame [simp]:
  "x \<notin> set as \<Longrightarrow> map (\<lambda>a. lvalue ((h(x := m)) a)) as = map (\<lambda>a. lvalue (h a)) as"
  by (auto simp: map_eq_conv)

lemma repr_push_left: "repr l as vs \<Longrightarrow> repr (push_left v l) (lfresh l # as) (v # vs)"
  by (cases as) (auto simp: repr_def list_rel_def push_left_def write_defs Let_def list_all_iff)

lemma repr_push_right: "repr l as vs \<Longrightarrow> repr (push_right v l) (as @ [lfresh l]) (vs @ [v])"
  by (cases as rule: rev_cases)
    (auto simp: repr_def list_rel_def push_right_def write_defs Let_def list_all_iff)

lemma repr_LPop_Nil: "repr l as [] \<Longrightarrow> LPop l = (None, l)"
  by (simp add: repr_def list_rel_def LPop_def)

lemma repr_LPop:
  "repr l as (v # vs) \<Longrightarrow> fst (LPop l) = Some v \<and> repr (snd (LPop l)) (tl as) vs"
  by (cases as; cases "tl as")
    (auto simp: repr_def list_rel_def LPop_def write_defs Let_def list_all_iff)

lemma repr_RPop_Nil: "repr l as [] \<Longrightarrow> RPop l = (None, l)"
  by (simp add: repr_def list_rel_def RPop_def)

lemma repr_RPop:
  "repr l as (vs @ [v]) \<Longrightarrow> fst (RPop l) = Some v \<and> repr (snd (RPop l)) (butlast as) vs"
proof -
  assume r: "repr l as (vs @ [v])"
  then obtain bs b where as: "as = bs @ [b]"
    by (cases as rule: rev_cases) (auto simp: repr_def)
  show ?thesis
  proof (cases bs rule: rev_cases)
    case Nil
    with r as show ?thesis
      by (auto simp: repr_def list_rel_def RPop_def write_defs Let_def)
  next
    case (snoc cs c)
    with r as show ?thesis
      by (auto simp: repr_def list_rel_def RPop_def write_defs Let_def list_all_iff butlast_append)
  qed
qed

section \<open>Access by index\<close>

text \<open>The specification: an index into a sequence, negative ones from its end.\<close>

definition seq_at :: "int \<Rightarrow> 'a list \<Rightarrow> 'a option" where
  "seq_at idx xs =
     (let j = (if idx < 0 then int (length xs) + idx else idx)
      in if 0 \<le> j \<and> j < int (length xs) then Some (xs ! nat j) else None)"

definition seq_slice :: "int \<Rightarrow> int \<Rightarrow> 'a list \<Rightarrow> 'a list" where
  "seq_slice start stop xs =
     (let n = int (length xs);
          i = max 0 (if start < 0 then n + start else start);
          j = min (n - 1) (if stop < 0 then n + stop else stop)
      in if j < i then [] else take (nat (j - i + 1)) (drop (nat i) xs))"

lemma walk_next_links:
  "links (nodes l) q as n \<Longrightarrow> k < length as \<Longrightarrow> walk_next l k (first_or as n) = Some (as ! k)"
proof (induction as arbitrary: q k)
  case (Cons a as)
  then show ?case by (cases k) auto
qed simp

lemma walk_prev_links:
  "links (nodes l) q as n \<Longrightarrow> k < length as
    \<Longrightarrow> walk_prev l k (last_or q as) = Some (as ! (length as - 1 - k))"
proof (induction as arbitrary: n k rule: rev_induct)
  case (snoc a as)
  then show ?case by (cases k) (auto simp: nth_append)
qed simp

lemma nodeAt_rel:
  assumes "list_rel l as"
  shows "nodeAt idx l = seq_at idx as"
proof -
  let ?j = "if idx < 0 then int (length as) + idx else idx"
  from assms have L: "links (nodes l) None as None" and len: "llength l = int (length as)"
    and ends: "lhead l = first_or as None" "ltail l = last_or None as"
    by (simp_all add: list_rel_def)
  show ?thesis
  proof (cases "0 \<le> ?j \<and> ?j < int (length as)")
    case True
    then have fwd: "walk_next l (nat ?j) (lhead l) = Some (as ! nat ?j)"
      using walk_next_links[OF L, of "nat ?j"] ends by auto
    have "length as - 1 - nat (int (length as) - 1 - ?j) = nat ?j" using True by linarith
    then have "walk_prev l (nat (int (length as) - 1 - ?j)) (ltail l) = Some (as ! nat ?j)"
      using walk_prev_links[OF L, of "nat (int (length as) - 1 - ?j)"] ends True by auto
    with fwd True len show ?thesis by (auto simp: nodeAt_def seq_at_def Let_def)
  next
    case False
    with len show ?thesis by (auto simp: nodeAt_def seq_at_def Let_def)
  qed
qed

lemma seq_at_map: "seq_at idx (map f xs) = map_option f (seq_at idx xs)"
  by (auto simp: seq_at_def Let_def)

lemma seq_at_Some: "seq_at idx xs = Some x \<Longrightarrow>
  \<exists>k. k < length xs \<and> x = xs ! k \<and> k = nat (if idx < 0 then int (length xs) + idx else idx)"
  by (auto simp: seq_at_def Let_def nat_less_iff split: if_splits)

lemma seq_at_nonneg: "0 \<le> i \<Longrightarrow> i < int (length xs) \<Longrightarrow> seq_at i xs = Some (xs ! nat i)"
  by (simp add: seq_at_def)

lemma repr_nodeAt: "repr l as vs \<Longrightarrow> nodeAt idx l = seq_at idx as"
  by (simp add: repr_def nodeAt_rel)

lemma repr_Index: "repr l as vs \<Longrightarrow> Index idx l = seq_at idx vs"
  by (auto simp: Index_def repr_nodeAt repr_def nodeAt_rel seq_at_map split: option.splits)

text \<open>Writing a value leaves the links alone.\<close>

lemma links_value_update [simp]:
  "links (h(a := (h a)\<lparr>lvalue := v\<rparr>)) q as n = links h q as n"
  by (induction as arbitrary: q) auto

lemma repr_set_value:
  assumes "repr l as vs" and "k < length as"
  shows "repr (set_node (as ! k) ((nodes l (as ! k))\<lparr>lvalue := v\<rparr>) l) as (vs[k := v])"
proof -
  have "distinct as" using assms by (simp add: repr_def list_rel_def)
  then have "map (\<lambda>a. lvalue (((nodes l)(as ! k := (nodes l (as ! k))\<lparr>lvalue := v\<rparr>)) a)) as = vs[k := v]"
    using assms by (auto simp: repr_def nth_list_update nth_eq_iff_index_eq intro!: nth_equalityI)
  with assms show ?thesis
    by (simp add: repr_def list_rel_def set_node_def)
qed

definition seq_set :: "int \<Rightarrow> 'a \<Rightarrow> 'a list \<Rightarrow> 'a list" where
  "seq_set idx v xs =
     (let j = (if idx < 0 then int (length xs) + idx else idx)
      in if 0 \<le> j \<and> j < int (length xs) then xs[nat j := v] else xs)"

lemma repr_Set_at:
  assumes "repr l as vs"
  shows "fst (Set_at idx v l) \<longleftrightarrow> seq_at idx vs \<noteq> None"
    and "repr (snd (Set_at idx v l)) as (seq_set idx v vs)"
proof -
  have len: "length as = length vs" using assms by (simp add: repr_def)
  show "fst (Set_at idx v l) \<longleftrightarrow> seq_at idx vs \<noteq> None"
    using len by (simp add: Set_at_def repr_nodeAt[OF assms] seq_at_def Let_def split: option.splits)
  show "repr (snd (Set_at idx v l)) as (seq_set idx v vs)"
    using repr_set_value[OF assms] assms len
    by (auto simp: Set_at_def repr_nodeAt[OF assms] seq_at_def seq_set_def Let_def nat_less_iff
        split: option.splits)
qed

section \<open>Ranges\<close>

lemma range_loop_links:
  "links (nodes l) q as None \<Longrightarrow>
    range_loop l k (first_or as None) = take k (map (\<lambda>a. lvalue (nodes l a)) as)"
proof (induction as arbitrary: q k)
  case Nil
  then show ?case by (cases k) auto
next
  case (Cons a as)
  then show ?case by (cases k) auto
qed

lemma links_drop: "links h q as n \<Longrightarrow> \<exists>q'. links h q' (drop k as) n"
  using links_append[of h q "take k as" "drop k as" n] by auto

lemma first_or_drop: "k < length as \<Longrightarrow> Some (as ! k) = first_or (drop k as) n"
  by (simp add: Cons_nth_drop_Suc [symmetric])

lemma normalizeRange_eq:
  "llength l = n \<Longrightarrow> normalizeRange start stop l =
    (max 0 (if start < 0 then n + start else start), min (n - 1) (if stop < 0 then n + stop else stop))"
  by (auto simp: normalizeRange_def Let_def)

lemma repr_Range:
  assumes r: "repr l as vs"
  shows "Range start stop l = seq_slice start stop vs"
proof -
  let ?n = "int (length as)"
  let ?i = "max 0 (if start < 0 then ?n + start else start)"
  let ?j = "min (?n - 1) (if stop < 0 then ?n + stop else stop)"
  from r have L: "links (nodes l) None as None" and len: "llength l = ?n"
    and lv: "length vs = length as" and vs: "vs = map (\<lambda>a. lvalue (nodes l a)) as"
    by (simp_all add: repr_def list_rel_def)
  show ?thesis
  proof (cases "?j < ?i")
    case True
    then show ?thesis by (simp add: Range_def normalizeRange_eq[OF len] seq_slice_def lv Let_def)
  next
    case False
    then have ij: "0 \<le> ?i" "?i < ?n" by auto
    obtain q' where "links (nodes l) q' (drop (nat ?i) as) None"
      using links_drop[OF L] by blast
    moreover have "nodeAt ?i l = first_or (drop (nat ?i) as) None"
      using ij first_or_drop[of "nat ?i" as None] by (simp add: repr_nodeAt[OF r] seq_at_def nat_less_iff)
    ultimately have "range_loop l k (nodeAt ?i l) = take k (drop (nat ?i) vs)" for k
      by (simp add: range_loop_links vs drop_map)
    with False show ?thesis
      by (simp add: Range_def normalizeRange_eq[OF len] seq_slice_def lv Let_def)
  qed
qed

lemma repr_segment:
  assumes "repr l (xs @ bs @ ys) vs" and "bs \<noteq> []"
  shows "repr ((set_next (Some (last bs)) None (set_prev (Some (hd bs)) None l))
      \<lparr>lhead := Some (hd bs), ltail := Some (last bs), llength := int (length bs)\<rparr>)
    bs (take (length bs) (drop (length xs) vs))"
proof (cases bs)
  case (Cons b cs)
  show ?thesis
  proof (cases cs rule: rev_cases)
    case Nil
    with assms Cons show ?thesis
      by (auto simp: repr_def list_rel_def write_defs list_all_iff)
  next
    case (snoc ds d)
    with assms Cons show ?thesis
      by (auto simp: repr_def list_rel_def write_defs list_all_iff)
  qed
qed (use assms in simp)

lemma split_slice:
  assumes "i \<le> j" "j < length as"
  shows "\<exists>xs bs ys. as = xs @ bs @ ys \<and> length xs = i \<and> length bs = j - i + 1
     \<and> hd bs = as ! i \<and> last bs = as ! j"
proof -
  let ?bs = "take (j - i + 1) (drop i as)"
  have "as = take i as @ ?bs @ drop (Suc j) as"
    using assms by (metis Suc_diff_le append_take_drop_id drop_drop le_add_diff_inverse2
        Suc_eq_plus1 add_Suc)
  moreover have len: "length ?bs = j - i + 1" using assms by simp
  moreover from len have "?bs \<noteq> []" by auto
  then have "last ?bs = as ! j" and "hd ?bs = as ! i"
    using assms by (simp_all add: last_conv_nth hd_conv_nth)
  moreover have "length (take i as) = i" using assms by simp
  ultimately show ?thesis by blast
qed

lemma seq_slice_eq:
  "i = max 0 (if start < 0 then int (length xs) + start else start) \<Longrightarrow>
   j = min (int (length xs) - 1) (if stop < 0 then int (length xs) + stop else stop) \<Longrightarrow>
   seq_slice start stop xs = (if j < i then [] else take (nat (j - i + 1)) (drop (nat i) xs))"
  by (simp only: seq_slice_def Let_def)

lemma repr_Trim:
  assumes r: "repr l as vs"
  shows "\<exists>as'. repr (Trim start stop l) as' (seq_slice start stop vs)"
proof -
  define i where "i = max 0 (if start < 0 then int (length vs) + start else start)"
  define j where "j = min (int (length vs) - 1) (if stop < 0 then int (length vs) + stop else stop)"
  note len = repr_length[OF r]
  have norm: "normalizeRange start stop l = (i, j)"
    unfolding i_def j_def using len by (intro normalizeRange_eq) simp
  have sl: "seq_slice start stop vs = (if j < i then [] else take (nat (j - i + 1)) (drop (nat i) vs))"
    by (rule seq_slice_eq[OF i_def j_def])
  have bounds: "0 \<le> i" "j < int (length as)"
    unfolding i_def j_def using len by simp_all
  show ?thesis
  proof (cases "j < i")
    case True
    then have "repr (Trim start stop l) [] []"
      unfolding Trim_def norm by (simp add: repr_def list_rel_def)
    with sl True show ?thesis by auto
  next
    case False
    with bounds have "nat i \<le> nat j" "nat j < length as" by linarith+
    from split_slice[OF this] obtain xs bs ys where
      as: "as = xs @ bs @ ys" and lx: "length xs = nat i" and lb: "length bs = nat j - nat i + 1"
      and hb: "hd bs = as ! nat i" and tb: "last bs = as ! nat j" by blast
    have nodes: "nodeAt i l = Some (hd bs)" "nodeAt j l = Some (last bs)"
      unfolding repr_nodeAt[OF r] hb tb using bounds False by (intro seq_at_nonneg; linarith)+
    have cnt: "j - i + 1 = int (length bs)" using bounds False lb by linarith
    have "bs \<noteq> []" using lb by auto
    with repr_segment[of l xs bs ys vs] r as
    have "repr (Trim start stop l) bs (take (length bs) (drop (length xs) vs))"
      unfolding Trim_def norm using False nodes cnt by (simp add: Let_def)
    moreover have "seq_slice start stop vs = take (length bs) (drop (length xs) vs)"
      using sl False cnt lx by simp
    ultimately show ?thesis by auto
  qed
qed

section \<open>Inserting next to a pivot\<close>

lemma find_node_links:
  "links (nodes l) q as None \<Longrightarrow> length as \<le> fuel \<Longrightarrow>
    find_node l fuel pivot (first_or as None) = find (\<lambda>a. lvalue (nodes l a) = pivot) as"
proof (induction as arbitrary: q fuel)
  case Nil
  then show ?case by (cases fuel) auto
next
  case (Cons a as)
  then show ?case by (cases fuel) auto
qed

lemma distinct_bound_length:
  assumes "distinct as" and "list_all (\<lambda>a. a < n) as"
  shows "length as \<le> (n::nat)"
proof -
  have "set as \<subseteq> {..<n}" using assms by (auto simp: list_all_iff)
  then have "card (set as) \<le> n" using card_mono[of "{..<n}"] by fastforce
  with assms show ?thesis by (simp add: distinct_card)
qed

lemma repr_fuel: "repr l as vs \<Longrightarrow> length as \<le> lfresh l"
  by (auto simp: repr_def list_rel_def intro: distinct_bound_length)

lemma find_split:
  "find P as = Some a \<Longrightarrow> \<exists>xs ys. as = xs @ a # ys \<and> P a \<and> list_all (\<lambda>x. \<not> P x) xs"
proof (induction as)
  case (Cons b as)
  show ?case
  proof (cases "P b")
    case True
    with Cons.prems show ?thesis by (intro exI[of _ "[]"] exI[of _ as]) auto
  next
    case False
    with Cons obtain xs ys where "as = xs @ a # ys" "P a" "list_all (\<lambda>x. \<not> P x) xs" by auto
    with False show ?thesis by (intro exI[of _ "b # xs"] exI[of _ ys]) auto
  qed
qed simp

lemma repr_fresh: "repr l as vs \<Longrightarrow> lfresh l \<notin> set as"
  by (auto simp: repr_def list_rel_def list_all_iff)

text \<open>A new node in front of, or behind, a node of the list.\<close>

lemma repr_insertBefore:
  assumes "repr l (xs @ a # ys) vs"
  shows "repr (insertBefore a v l) (xs @ lfresh l # a # ys)
    (take (length xs) vs @ v # drop (length xs) vs)"
proof (cases xs rule: rev_cases)
  case Nil
  with assms repr_fresh[OF assms] show ?thesis
    by (auto simp: repr_def list_rel_def insertBefore_def write_defs Let_def list_all_iff ball_Un less_SucI)
next
  case (snoc zs z)
  with assms repr_fresh[OF assms] show ?thesis
    by (auto simp: repr_def list_rel_def insertBefore_def write_defs Let_def list_all_iff ball_Un less_SucI)
qed

lemma repr_insertAfter:
  assumes "repr l (xs @ a # ys) vs"
  shows "repr (insertAfter a v l) (xs @ a # lfresh l # ys)
    (take (Suc (length xs)) vs @ v # drop (Suc (length xs)) vs)"
proof (cases ys)
  case Nil
  with assms repr_fresh[OF assms] show ?thesis
    by (auto simp: repr_def list_rel_def insertAfter_def write_defs Let_def list_all_iff ball_Un less_SucI)
next
  case (Cons z zs)
  with assms repr_fresh[OF assms] show ?thesis
    by (auto simp: repr_def list_rel_def insertAfter_def write_defs Let_def list_all_iff ball_Un less_SucI)
qed

definition seq_insert_before :: "'a \<Rightarrow> 'a \<Rightarrow> 'a list \<Rightarrow> 'a list" where
  "seq_insert_before pivot v vs =
     (if pivot \<in> set vs
      then takeWhile (\<lambda>x. x \<noteq> pivot) vs @ v # dropWhile (\<lambda>x. x \<noteq> pivot) vs else vs)"

definition seq_insert_after :: "'a \<Rightarrow> 'a \<Rightarrow> 'a list \<Rightarrow> 'a list" where
  "seq_insert_after pivot v vs =
     (if pivot \<in> set vs
      then takeWhile (\<lambda>x. x \<noteq> pivot) vs @ pivot # v # tl (dropWhile (\<lambda>x. x \<noteq> pivot) vs) else vs)"

lemma repr_find:
  assumes "repr l as vs"
  shows "find_node l (lfresh l) pivot (lhead l) = find (\<lambda>a. lvalue (nodes l a) = pivot) as"
  using assms find_node_links[of l None as "lfresh l" pivot] repr_fuel[OF assms]
  by (simp add: repr_def list_rel_def)

lemma repr_find_None:
  assumes "repr l as vs"
  shows "find_node l (lfresh l) pivot (lhead l) = None \<longleftrightarrow> pivot \<notin> set vs"
  using assms by (auto simp: repr_find[OF assms] find_None_iff repr_def)

lemma repr_find_Some:
  assumes r: "repr l as vs" and f: "find_node l (lfresh l) pivot (lhead l) = Some a"
  shows "\<exists>xs ys us ws. as = xs @ a # ys \<and> vs = us @ pivot # ws \<and> length us = length xs \<and> pivot \<notin> set us"
proof -
  obtain xs ys where as: "as = xs @ a # ys" "lvalue (nodes l a) = pivot"
    and nx: "list_all (\<lambda>x. lvalue (nodes l x) \<noteq> pivot) xs"
    using find_split[OF f[unfolded repr_find[OF r]]] by blast
  moreover have "vs = map (\<lambda>a. lvalue (nodes l a)) xs @ pivot # map (\<lambda>a. lvalue (nodes l a)) ys"
    using r as by (simp add: repr_def)
  ultimately show ?thesis
    by (intro exI[of _ xs] exI[of _ ys] exI[of _ "map (\<lambda>a. lvalue (nodes l a)) xs"]
        exI[of _ "map (\<lambda>a. lvalue (nodes l a)) ys"]) (auto simp: list_all_iff)
qed

lemma while_split [simp]:
  "p \<notin> set us \<Longrightarrow> takeWhile (\<lambda>x. x \<noteq> p) (us @ p # ws) = us"
  "p \<notin> set us \<Longrightarrow> dropWhile (\<lambda>x. x \<noteq> p) (us @ p # ws) = p # ws"
  by (induction us) auto

lemma repr_InsertBefore:
  assumes r: "repr l as vs"
  shows "\<exists>as'. repr (snd (InsertBefore pivot v l)) as' (seq_insert_before pivot v vs)
    \<and> fst (InsertBefore pivot v l) = (if pivot \<in> set vs then int (length vs) + 1 else - 1)"
proof (cases "find_node l (lfresh l) pivot (lhead l)")
  case None
  then have "pivot \<notin> set vs" using repr_find_None[OF r] by simp
  with r None show ?thesis
    by (auto simp: InsertBefore_def seq_insert_before_def)
next
  case (Some a)
  from repr_find_Some[OF r this] obtain xs ys us ws where
    as: "as = xs @ a # ys" "vs = us @ pivot # ws" "length us = length xs" "pivot \<notin> set us" by blast
  then have "repr (insertBefore a v l) (xs @ lfresh l # a # ys) (seq_insert_before pivot v vs)"
    using repr_insertBefore[of l xs a ys vs v] r by (simp add: seq_insert_before_def)
  moreover from this have "llength (insertBefore a v l) = int (length (seq_insert_before pivot v vs))"
    using repr_length by blast
  ultimately show ?thesis using Some as
    by (auto simp: InsertBefore_def seq_insert_before_def Let_def)
qed

lemma repr_InsertAfter:
  assumes r: "repr l as vs"
  shows "\<exists>as'. repr (snd (InsertAfter pivot v l)) as' (seq_insert_after pivot v vs)
    \<and> fst (InsertAfter pivot v l) = (if pivot \<in> set vs then int (length vs) + 1 else - 1)"
proof (cases "find_node l (lfresh l) pivot (lhead l)")
  case None
  then have "pivot \<notin> set vs" using repr_find_None[OF r] by simp
  with r None show ?thesis
    by (auto simp: InsertAfter_def seq_insert_after_def)
next
  case (Some a)
  from repr_find_Some[OF r this] obtain xs ys us ws where
    as: "as = xs @ a # ys" "vs = us @ pivot # ws" "length us = length xs" "pivot \<notin> set us" by blast
  then have "repr (insertAfter a v l) (xs @ a # lfresh l # ys) (seq_insert_after pivot v vs)"
    using repr_insertAfter[of l xs a ys vs v] r by (simp add: seq_insert_after_def)
  moreover from this have "llength (insertAfter a v l) = int (length (seq_insert_after pivot v vs))"
    using repr_length by blast
  ultimately show ?thesis using Some as
    by (auto simp: InsertAfter_def seq_insert_after_def Let_def)
qed

section \<open>Removing values\<close>

text \<open>
  Redis' LREM: the first \<open>n\<close> occurrences, from the head for a positive count,
  from the tail for a negative one, all of them for 0.
\<close>

fun remove_first :: "nat \<Rightarrow> 'a \<Rightarrow> 'a list \<Rightarrow> 'a list" where
  "remove_first 0 x vs = vs"
| "remove_first (Suc n) x [] = []"
| "remove_first (Suc n) x (v # vs) = (if v = x then remove_first n x vs else v # remove_first (Suc n) x vs)"

definition seq_remove :: "int \<Rightarrow> 'a \<Rightarrow> 'a list \<Rightarrow> 'a list" where
  "seq_remove cnt x vs =
     (if cnt = 0 then filter (\<lambda>v. v \<noteq> x) vs
      else if 0 < cnt then remove_first (nat cnt) x vs
      else rev (remove_first (nat (- cnt)) x (rev vs)))"

lemma remove_first_Nil [simp]: "remove_first n x [] = []"
  by (cases n) simp_all

lemma remove_first_all: "length vs \<le> n \<Longrightarrow> remove_first n x vs = filter (\<lambda>v. v \<noteq> x) vs"
  by (induction n x vs rule: remove_first.induct) auto

lemma remove_first_length:
  "length (remove_first n x vs) + min n (count_list vs x) = length vs"
  by (induction n x vs rule: remove_first.induct) auto

lemma remove_first_set: "set (remove_first n x vs) \<subseteq> set vs"
  by (induction n x vs rule: remove_first.induct) auto

lemma repr_removeNode:
  assumes "repr l (xs @ a # ys) vs"
  shows "repr (removeNode a l) (xs @ ys) (take (length xs) vs @ drop (Suc (length xs)) vs)"
proof (cases xs rule: rev_cases)
  case Nil
  with assms show ?thesis
    by (cases ys) (auto simp: repr_def list_rel_def removeNode_def write_defs Let_def list_all_iff)
next
  case (snoc zs z)
  with assms show ?thesis
    by (cases ys) (auto simp: repr_def list_rel_def removeNode_def write_defs Let_def list_all_iff)
qed

lemma repr_suffix:
  assumes "repr l (ds @ ts) vs"
  obtains us ws where "vs = us @ ws" "length us = length ds" "length ws = length ts"
proof -
  have "length vs = length ds + length ts" using assms by (simp add: repr_def)
  then show thesis using that[of "take (length ds) vs" "drop (length ds) vs"] by simp
qed

lemma repr_value: "repr l (ds @ a # ts) (us @ w # ws) \<Longrightarrow> length us = length ds \<Longrightarrow> lvalue (nodes l a) = w"
  by (auto simp: repr_def)

lemma repr_next: "repr l (ds @ a # ts) vs \<Longrightarrow> lnext (nodes l a) = first_or ts None"
  by (simp add: repr_def list_rel_def)

lemma repr_prev: "repr l (ts @ a # ds) vs \<Longrightarrow> lprev (nodes l a) = last_or None ts"
  by (simp add: repr_def list_rel_def)

text \<open>
  The loop of \<open>Remove\<close> from the head: \<open>ds\<close> are the nodes behind it, \<open>ts\<close> those
  still to visit; it deletes \<open>x\<close> as long as its count allows.
\<close>

definition allowance :: "int \<Rightarrow> int \<Rightarrow> nat \<Rightarrow> nat \<Rightarrow> bool" where
  "allowance cnt removed len n \<longleftrightarrow> (if cnt = 0 then len \<le> n else n = nat (cnt - removed))"

lemma remove_loop_head:
  "repr l (ds @ ts) (us @ ws) \<Longrightarrow> length us = length ds \<Longrightarrow> length ws = length ts \<Longrightarrow>
   length ts \<le> fuel \<Longrightarrow> allowance cnt removed (length ts) n \<Longrightarrow>
   \<exists>as'. repr (snd (remove_loop fuel False cnt x (first_or ts None) removed l)) as'
          (us @ remove_first n x ws) \<and>
     fst (remove_loop fuel False cnt x (first_or ts None) removed l) =
       removed + int (min n (count_list ws x))"
proof (induction ts arbitrary: ds us ws fuel removed n l)
  case Nil
  then show ?case by (cases fuel) auto
next
  case (Cons a ts)
  from Cons.prems obtain w ws' k where ws: "ws = w # ws'" and k: "fuel = Suc k"
    by (metis Suc_le_D length_0_conv length_Cons neq_Nil_conv nat.distinct(1))
  from Cons.prems ws have val: "lvalue (nodes l a) = w" and nxt: "lnext (nodes l a) = first_or ts None"
    by (auto intro: repr_value repr_next)
  show ?case
  proof (cases "cnt = 0 \<or> removed < cnt")
    case False
    with Cons.prems ws k show ?thesis by (auto simp: allowance_def)
  next
    case True
    with Cons.prems(5) obtain m where m: "n = Suc m" by (cases n) (auto simp: allowance_def split: if_splits)
    show ?thesis
    proof (cases "w = x")
      case True
      have "repr (removeNode a l) (ds @ ts) (us @ ws')"
        using repr_removeNode[of l ds a ts] Cons.prems ws by fastforce
      moreover have "allowance cnt (removed + 1) (length ts) m"
        using Cons.prems(5) m by (auto simp: allowance_def)
      ultimately show ?thesis
        using Cons.IH[of "removeNode a l" ds us ws' k "removed + 1" m] Cons.prems ws k m True
          \<open>cnt = 0 \<or> removed < cnt\<close> val nxt by (auto simp: Let_def)
    next
      case False
      have "allowance cnt removed (length ts) n"
        using Cons.prems(5) by (auto simp: allowance_def)
      then show ?thesis
        using Cons.IH[of l "ds @ [a]" "us @ [w]" ws' k removed n] Cons.prems ws k m False
          \<open>cnt = 0 \<or> removed < cnt\<close> val nxt by (auto simp: Let_def)
    qed
  qed
qed

lemma remove_loop_tail:
  "repr l (ts @ ds) (ws @ us) \<Longrightarrow> length us = length ds \<Longrightarrow> length ws = length ts \<Longrightarrow>
   length ts \<le> fuel \<Longrightarrow> allowance cnt removed (length ts) n \<Longrightarrow>
   \<exists>as'. repr (snd (remove_loop fuel True cnt x (last_or None ts) removed l)) as'
          (rev (remove_first n x (rev ws)) @ us) \<and>
     fst (remove_loop fuel True cnt x (last_or None ts) removed l) =
       removed + int (min n (count_list ws x))"
proof (induction ts arbitrary: ds us ws fuel removed n l rule: rev_induct)
  case Nil
  then show ?case by (cases fuel) auto
next
  case (snoc a ts)
  from snoc.prems obtain k where k: "fuel = Suc k" by (cases fuel) auto
  from snoc.prems obtain w ws' where ws: "ws = ws' @ [w]" and lws: "length ws' = length ts"
    by (cases ws rule: rev_cases) auto
  have val: "lvalue (nodes l a) = w" and prv: "lprev (nodes l a) = last_or None ts"
    using snoc.prems(1) ws lws by (auto intro: repr_value[of l ts a ds ws' w us] repr_prev)
  show ?case
  proof (cases "cnt = 0 \<or> removed < cnt")
    case False
    with snoc.prems ws k show ?thesis by (auto simp: allowance_def)
  next
    case True
    with snoc.prems(5) obtain m where m: "n = Suc m" by (cases n) (auto simp: allowance_def split: if_splits)
    show ?thesis
    proof (cases "w = x")
      case True
      have "repr (removeNode a l) (ts @ ds) (ws' @ us)"
        using repr_removeNode[of l ts a ds "ws' @ w # us"] snoc.prems ws lws by simp
      moreover have "allowance cnt (removed + 1) (length ts) m"
        using snoc.prems(5) m by (auto simp: allowance_def)
      ultimately show ?thesis
        using snoc.IH[of "removeNode a l" ds ws' us k "removed + 1" m] snoc.prems ws lws k m True
          \<open>cnt = 0 \<or> removed < cnt\<close> val prv by (auto simp: Let_def)
    next
      case False
      have "allowance cnt removed (length ts) n"
        using snoc.prems(5) by (auto simp: allowance_def)
      then show ?thesis
        using snoc.IH[of l "a # ds" ws' "w # us" k removed n] snoc.prems ws lws k m False
          \<open>cnt = 0 \<or> removed < cnt\<close> val prv by (auto simp: Let_def)
    qed
  qed
qed

lemma repr_Remove:
  assumes r: "repr l as vs" and c: "min_int64 < cnt" "cnt \<le> max_int64"
  shows "\<exists>as'. repr (snd (Remove cnt x l)) as' (seq_remove cnt x vs)
    \<and> fst (Remove cnt x l) = int (length vs) - int (length (seq_remove cnt x vs))"
proof -
  have len: "length vs = length as" and ends: "lhead l = first_or as None" "ltail l = last_or None as"
    using r by (simp_all add: repr_def list_rel_def)
  note fuel = repr_fuel[OF r]
  show ?thesis
  proof (cases "cnt < 0")
    case True
    have "wrap64 (- cnt) = - cnt" using True c by (intro wrap64_id) (simp add: int64_defs)
    moreover have "allowance (- cnt) 0 (length as) (nat (- cnt))"
      using True by (simp add: allowance_def)
    ultimately show ?thesis
      using remove_loop_tail[of l as "[]" vs "[]" "lfresh l" "- cnt" 0 "nat (- cnt)" x] r len fuel ends True
        remove_first_length[of "nat (- cnt)" x "rev vs"]
      by (auto simp: Remove_def seq_remove_def Let_def)
  next
    case False
    let ?n = "if cnt = 0 then length as else nat cnt"
    have "allowance cnt 0 (length as) ?n" by (simp add: allowance_def)
    then show ?thesis
      using remove_loop_head[of l "[]" as "[]" vs "lfresh l" cnt 0 ?n x] r len fuel ends False
        remove_first_length[of ?n x vs] remove_first_all[of vs "length vs" x]
      by (auto simp: Remove_def seq_remove_def Let_def)
  qed
qed

section \<open>The operations on well-formed lists\<close>

lemma NewList_wf [simp]: "list_wf NewList" "elems NewList = []"
  by (simp_all add: list_wf_def list_rel_def addrs_def elems_def NewList_def)

lemma Len_wf: "list_wf l \<Longrightarrow> Len l = int (length (elems l))"
  using repr_length[OF repr_wf] by (simp add: Len_def)

lemma push_left_wf: "list_wf l \<Longrightarrow> list_wf (push_left v l) \<and> elems (push_left v l) = v # elems l"
  using repr_elems[OF repr_push_left[OF repr_wf]] by blast

lemma push_right_wf: "list_wf l \<Longrightarrow> list_wf (push_right v l) \<and> elems (push_right v l) = elems l @ [v]"
  using repr_elems[OF repr_push_right[OF repr_wf]] by blast

lemma LPop_empty_wf: "list_wf l \<Longrightarrow> elems l = [] \<Longrightarrow> LPop l = (None, l)"
  using repr_wf[of l] repr_LPop_Nil by simp

lemma LPop_wf: "list_wf l \<Longrightarrow> elems l = v # vs \<Longrightarrow>
  fst (LPop l) = Some v \<and> list_wf (snd (LPop l)) \<and> elems (snd (LPop l)) = vs"
proof -
  assume wf: "list_wf l" and e: "elems l = v # vs"
  have r: "repr l (addrs l) (v # vs)" using repr_wf[OF wf] e by simp
  from repr_elems[OF conjunct2[OF repr_LPop[OF r]]] repr_LPop[OF r] show ?thesis by simp
qed

lemma RPop_empty_wf: "list_wf l \<Longrightarrow> elems l = [] \<Longrightarrow> RPop l = (None, l)"
  using repr_wf[of l] repr_RPop_Nil by simp

lemma RPop_wf: "list_wf l \<Longrightarrow> elems l = vs @ [v] \<Longrightarrow>
  fst (RPop l) = Some v \<and> list_wf (snd (RPop l)) \<and> elems (snd (RPop l)) = vs"
proof -
  assume wf: "list_wf l" and e: "elems l = vs @ [v]"
  have r: "repr l (addrs l) (vs @ [v])" using repr_wf[OF wf] e by simp
  from repr_elems[OF conjunct2[OF repr_RPop[OF r]]] repr_RPop[OF r] show ?thesis by simp
qed

lemma Index_wf: "list_wf l \<Longrightarrow> Index idx l = seq_at idx (elems l)"
  using repr_Index[OF repr_wf] by blast

lemma Set_at_wf: "list_wf l \<Longrightarrow>
  (fst (Set_at idx v l) \<longleftrightarrow> seq_at idx (elems l) \<noteq> None) \<and> list_wf (snd (Set_at idx v l))
    \<and> elems (snd (Set_at idx v l)) = seq_set idx v (elems l)"
  using repr_Set_at[OF repr_wf] repr_elems by blast

lemma Range_wf: "list_wf l \<Longrightarrow> Range start stop l = seq_slice start stop (elems l)"
  using repr_Range[OF repr_wf] by blast

lemma Trim_wf: "list_wf l \<Longrightarrow>
  list_wf (Trim start stop l) \<and> elems (Trim start stop l) = seq_slice start stop (elems l)"
  using repr_Trim[OF repr_wf] repr_elems by blast

lemma InsertBefore_wf: "list_wf l \<Longrightarrow>
  list_wf (snd (InsertBefore pivot v l))
    \<and> elems (snd (InsertBefore pivot v l)) = seq_insert_before pivot v (elems l)
    \<and> fst (InsertBefore pivot v l) = (if pivot \<in> set (elems l) then int (length (elems l)) + 1 else - 1)"
proof -
  assume wf: "list_wf l"
  obtain as' where "repr (snd (InsertBefore pivot v l)) as' (seq_insert_before pivot v (elems l))"
    using repr_InsertBefore[OF repr_wf[OF wf], of pivot v] by (elim exE conjE)
  from repr_elems[OF this] repr_InsertBefore[OF repr_wf[OF wf], of pivot v] show ?thesis by simp
qed

lemma InsertAfter_wf: "list_wf l \<Longrightarrow>
  list_wf (snd (InsertAfter pivot v l))
    \<and> elems (snd (InsertAfter pivot v l)) = seq_insert_after pivot v (elems l)
    \<and> fst (InsertAfter pivot v l) = (if pivot \<in> set (elems l) then int (length (elems l)) + 1 else - 1)"
proof -
  assume wf: "list_wf l"
  obtain as' where "repr (snd (InsertAfter pivot v l)) as' (seq_insert_after pivot v (elems l))"
    using repr_InsertAfter[OF repr_wf[OF wf], of pivot v] by (elim exE conjE)
  from repr_elems[OF this] repr_InsertAfter[OF repr_wf[OF wf], of pivot v] show ?thesis by simp
qed

lemma Remove_wf: "list_wf l \<Longrightarrow> min_int64 < cnt \<Longrightarrow> cnt \<le> max_int64 \<Longrightarrow>
  list_wf (snd (Remove cnt x l)) \<and> elems (snd (Remove cnt x l)) = seq_remove cnt x (elems l)
    \<and> fst (Remove cnt x l) = int (length (elems l)) - int (length (seq_remove cnt x (elems l)))"
proof -
  assume wf: "list_wf l" and c: "min_int64 < cnt" "cnt \<le> max_int64"
  obtain as' where "repr (snd (Remove cnt x l)) as' (seq_remove cnt x (elems l))"
    using repr_Remove[OF repr_wf[OF wf] c, of x] by (elim exE conjE)
  from repr_elems[OF this] repr_Remove[OF repr_wf[OF wf] c, of x] show ?thesis by simp
qed

text \<open>
  The count \<open>-2^63\<close> has no negation in 64 bits: it stays negative, and the loop
  stops before it removes anything.
\<close>

lemma Remove_min_int64: "Remove min_int64 x l = (0, l)"
proof -
  have "wrap64 (- min_int64) = min_int64" by (simp add: int64_defs wrap64_def)
  then show ?thesis
    by (cases "lfresh l") (auto simp: Remove_def Let_def int64_defs split: option.splits)
qed

section \<open>The ends of a list as an interface\<close>

text \<open>
  The commands push and pop at either end. \<open>list_end\<close> is what one end promises:
  seen from it (\<open>view\<close>), the list is a stack. The loop that pops up to \<open>n\<close>
  values is verified once, for both ends.
\<close>

fun pop_loop :: "('l \<Rightarrow> 'a option \<times> 'l) \<Rightarrow> nat \<Rightarrow> 'l \<Rightarrow> 'a list \<times> 'l" where
  "pop_loop pop 0 l = ([], l)"
| "pop_loop pop (Suc n) l =
     (case pop l of
        (None, l) \<Rightarrow> ([], l)
      | (Some v, l) \<Rightarrow> (case pop_loop pop n l of (vs, l) \<Rightarrow> (v # vs, l)))"

locale list_end =
  fixes wf :: "'l \<Rightarrow> bool"
    and view :: "'l \<Rightarrow> 'a list"
    and push :: "'a \<Rightarrow> 'l \<Rightarrow> 'l"
    and pop :: "'l \<Rightarrow> 'a option \<times> 'l"
  assumes push_law: "wf l \<Longrightarrow> wf (push v l) \<and> view (push v l) = v # view l"
    and pop_empty: "wf l \<Longrightarrow> view l = [] \<Longrightarrow> pop l = (None, l)"
    and pop_law: "wf l \<Longrightarrow> view l = v # vs \<Longrightarrow>
      fst (pop l) = Some v \<and> wf (snd (pop l)) \<and> view (snd (pop l)) = vs"
begin

lemma pop_view:
  assumes "wf l"
  shows "wf (snd (pop l)) \<and> view (snd (pop l)) = tl (view l)
    \<and> fst (pop l) = (if view l = [] then None else Some (hd (view l)))"
  using assms pop_empty pop_law by (cases "view l") auto

lemma pop_push: "wf l \<Longrightarrow> fst (pop (push v l)) = Some v \<and> view (snd (pop (push v l))) = view l"
  using push_law pop_law by blast

lemma push_all: "wf l \<Longrightarrow> wf (fold push vs l) \<and> view (fold push vs l) = rev vs @ view l"
proof (induction vs arbitrary: l)
  case (Cons v vs)
  then show ?case using push_law[of l v] by simp
qed simp

lemma pop_loop_view:
  "wf l \<Longrightarrow> fst (pop_loop pop n l) = take n (view l) \<and> wf (snd (pop_loop pop n l))
     \<and> view (snd (pop_loop pop n l)) = drop n (view l)"
proof (induction n arbitrary: l)
  case (Suc n)
  show ?case
  proof (cases "view l")
    case Nil
    with Suc.prems show ?thesis by (simp add: pop_empty)
  next
    case (Cons v vs)
    with pop_law[OF Suc.prems Cons] obtain l' where
      "pop l = (Some v, l')" "wf l'" "view l' = vs" by (metis prod.collapse)
    with Suc.IH[of l'] Cons show ?thesis by (auto split: prod.splits)
  qed
qed simp

end

text \<open>A deque is two ends of one list, each seeing the other's view reversed.\<close>

locale deque = left: list_end wf view lpush lpop + right: list_end wf "\<lambda>l. rev (view l)" rpush rpop
  for wf :: "'l \<Rightarrow> bool" and view :: "'l \<Rightarrow> 'a list"
    and lpush :: "'a \<Rightarrow> 'l \<Rightarrow> 'l" and lpop :: "'l \<Rightarrow> 'a option \<times> 'l"
    and rpush :: "'a \<Rightarrow> 'l \<Rightarrow> 'l" and rpop :: "'l \<Rightarrow> 'a option \<times> 'l"
begin

text \<open>Pushing on the left and popping on the right is a queue.\<close>

lemma fifo:
  assumes "wf l"
  shows "fst (pop_loop rpop (length (view l) + length vs) (fold lpush vs l)) = rev (view l) @ vs"
  using left.push_all[OF assms] right.pop_loop_view[of "fold lpush vs l"] by simp

text \<open>Moving the last value to the front rotates the list.\<close>

lemma rotate:
  assumes "wf l" and "view l = vs @ [v]"
  shows "fst (rpop l) = Some v \<and> wf (lpush v (snd (rpop l))) \<and> view (lpush v (snd (rpop l))) = v # vs"
proof -
  have "fst (rpop l) = Some v" "wf (snd (rpop l))" "rev (view (snd (rpop l))) = rev vs"
    using right.pop_law[of l v "rev vs"] assms by simp_all
  then show ?thesis using left.push_law by auto
qed

end

interpretation list_deque: deque list_wf elems push_left LPop push_right RPop
proof unfold_locales
  fix l v vs
  assume "list_wf l" "rev (elems l) = v # vs"
  then have "elems l = rev vs @ [v]" by (metis rev.simps(2) rev_rev_ident)
  with RPop_wf[OF \<open>list_wf l\<close>, of "rev vs" v]
  show "fst (RPop l) = Some v \<and> list_wf (snd (RPop l)) \<and> rev (elems (snd (RPop l))) = vs" by simp
qed (simp_all add: push_left_wf push_right_wf LPop_empty_wf RPop_empty_wf LPop_wf)

lemma LPush_fold: "LPush vs l = fold push_left vs l"
  by (induction vs arbitrary: l) simp_all

lemma RPush_fold: "RPush vs l = fold push_right vs l"
  by (induction vs arbitrary: l) simp_all

lemma LPush_wf: "list_wf l \<Longrightarrow> list_wf (LPush vs l) \<and> elems (LPush vs l) = rev vs @ elems l"
  by (simp add: LPush_fold list_deque.left.push_all)

lemma RPush_wf: "list_wf l \<Longrightarrow> list_wf (RPush vs l) \<and> elems (RPush vs l) = elems l @ vs"
  using list_deque.right.push_all[of l vs] by (simp add: RPush_fold) (metis rev_append rev_rev_ident)

end
