(* ===== verification/Go_Float.thy ===== *)
theory Go_Float
  imports Qwik_Prelude
begin

text \<open>
  The scores of the sorted sets are IEEE 754 doubles, modelled by their 64 bits.
  Comparison reads sign and magnitude: the magnitudes of doubles of one sign
  are ordered as their bit patterns are, the two zeros are equal, and a NaN is
  neither below, equal to nor above anything, itself included.

  A sorted set orders its entries by score and then by member; \<open>zkey\<close> is that
  order as a linear order of the library.
\<close>

type_synonym float64 = "64 word"

definition f_sign :: "float64 \<Rightarrow> bool" where "f_sign x \<longleftrightarrow> bit x 63"

definition f_mag :: "float64 \<Rightarrow> int" where "f_mag x = uint x mod 2 ^ 63"

definition f_nan :: "float64 \<Rightarrow> bool" where "f_nan x \<longleftrightarrow> 0x7FF0000000000000 < f_mag x"

definition f_key :: "float64 \<Rightarrow> int" where "f_key x = (if f_sign x then - f_mag x else f_mag x)"

definition f_lt :: "float64 \<Rightarrow> float64 \<Rightarrow> bool" where
  "f_lt x y \<longleftrightarrow> \<not> f_nan x \<and> \<not> f_nan y \<and> f_key x < f_key y"

definition f_le :: "float64 \<Rightarrow> float64 \<Rightarrow> bool" where
  "f_le x y \<longleftrightarrow> \<not> f_nan x \<and> \<not> f_nan y \<and> f_key x \<le> f_key y"

definition f_eq :: "float64 \<Rightarrow> float64 \<Rightarrow> bool" where
  "f_eq x y \<longleftrightarrow> \<not> f_nan x \<and> \<not> f_nan y \<and> f_key x = f_key y"

definition f_inf :: float64 where "f_inf = 0x7FF0000000000000"
definition f_neg_inf :: float64 where "f_neg_inf = 0xFFF0000000000000"
definition f_max :: float64 where "f_max = 0x7FEFFFFFFFFFFFFF"
definition f_neg_max :: float64 where "f_neg_max = 0xFFEFFFFFFFFFFFFF"

lemmas f_cmp_defs = f_lt_def f_le_def f_eq_def

lemma f_nan_incomparable: "f_nan x \<Longrightarrow> \<not> f_lt x y \<and> \<not> f_lt y x \<and> \<not> f_eq x y \<and> \<not> f_eq y x"
  by (simp add: f_cmp_defs)

lemma f_mag_nonneg: "0 \<le> f_mag x"
  by (simp add: f_mag_def)

lemma f_inf_greatest: "\<not> f_nan x \<Longrightarrow> f_le x f_inf"
proof -
  assume n: "\<not> f_nan x"
  have "f_key f_inf = 0x7FF0000000000000" "\<not> f_nan f_inf"
    by (simp_all add: f_key_def f_sign_def f_mag_def f_nan_def f_inf_def)
  moreover have "f_key x \<le> f_mag x" using f_mag_nonneg[of x] by (simp add: f_key_def)
  ultimately show ?thesis using n by (simp add: f_le_def f_nan_def)
qed

lemma f_zero_signs: "f_eq 0 0x8000000000000000"
  by (simp add: f_cmp_defs f_key_def f_sign_def f_mag_def f_nan_def)

section \<open>The order of a sorted set\<close>

datatype zkey = ZKey (zscore: int) (zmember: string)

instantiation zkey :: linorder
begin

definition less_eq_zkey :: "zkey \<Rightarrow> zkey \<Rightarrow> bool" where
  "less_eq_zkey k l \<longleftrightarrow> zscore k < zscore l \<or> zscore k = zscore l \<and> zmember k \<le> zmember l"

definition less_zkey :: "zkey \<Rightarrow> zkey \<Rightarrow> bool" where
  "less_zkey k l \<longleftrightarrow> zscore k < zscore l \<or> zscore k = zscore l \<and> zmember k < zmember l"

instance
  by standard (auto simp: less_eq_zkey_def less_zkey_def zkey.expand)

end

definition key_of :: "float64 \<Rightarrow> string \<Rightarrow> zkey" where "key_of s m = ZKey (f_key s) m"

text \<open>The comparisons the skip list makes are this order, as long as no NaN is involved.\<close>

lemma key_lt: "\<not> f_nan s \<Longrightarrow> \<not> f_nan t \<Longrightarrow>
  (f_lt s t \<or> f_eq s t \<and> m < n) \<longleftrightarrow> key_of s m < key_of t n"
  by (auto simp: f_cmp_defs key_of_def less_zkey_def)

lemma key_le: "\<not> f_nan s \<Longrightarrow> \<not> f_nan t \<Longrightarrow>
  (f_lt s t \<or> f_eq s t \<and> m \<le> n) \<longleftrightarrow> key_of s m \<le> key_of t n"
  by (auto simp: f_cmp_defs key_of_def less_eq_zkey_def)

lemma key_eq: "\<not> f_nan s \<Longrightarrow> \<not> f_nan t \<Longrightarrow>
  (f_eq s t \<and> m = n) \<longleftrightarrow> key_of s m = key_of t n"
  by (auto simp: f_cmp_defs key_of_def)

end
