(* ===== verification/Skip_List.thy ===== *)
theory Skip_List
  imports Go_Float
begin

text \<open>
  The skip list that backs the sorted sets (datastructures/skiplist.go). Nodes
  live in an arena of their list; a node has one forward pointer per level,
  with the number of nodes the pointer skips (its span). \<open>Insert\<close> takes the level
  of the new node, which the code draws at random, from \<open>randomLevel\<close>.
\<close>

section \<open>The structure\<close>

definition skiplistMaxLevel :: nat where "skiplistMaxLevel = 32"

record skiplistLevel =
  forward :: "nat option"
  span :: int

record skiplistNode =
  member :: string
  score :: float64
  backward :: "nat option"
  levels :: "skiplistLevel list"

record skiplist =
  snodes :: "nat \<Rightarrow> skiplistNode"
  header :: nat
  tail :: "nat option"
  slength :: int
  level :: nat
  sfresh :: nat

definition newSkiplistNode :: "nat \<Rightarrow> float64 \<Rightarrow> string \<Rightarrow> skiplistNode" where
  "newSkiplistNode lv sc m =
     \<lparr>member = m, score = sc, backward = None, levels = replicate lv \<lparr>forward = None, span = 0\<rparr>\<rparr>"

definition NewSkiplist :: skiplist where
  "NewSkiplist =
     \<lparr>snodes = (\<lambda>a. newSkiplistNode skiplistMaxLevel f_neg_max []), header = 0, tail = None,
      slength = 0, level = 1, sfresh = 1\<rparr>"

definition SLen :: "skiplist \<Rightarrow> int" where "SLen sl = slength sl"

text \<open>Reads and writes through a pointer to a node.\<close>

definition height :: "skiplist \<Rightarrow> nat \<Rightarrow> nat" where
  "height sl a = length (levels (snodes sl a))"

definition fwd :: "skiplist \<Rightarrow> nat \<Rightarrow> nat \<Rightarrow> nat option" where
  "fwd sl a i = forward (levels (snodes sl a) ! i)"

definition spn :: "skiplist \<Rightarrow> nat \<Rightarrow> nat \<Rightarrow> int" where
  "spn sl a i = span (levels (snodes sl a) ! i)"

definition set_level :: "nat \<Rightarrow> nat \<Rightarrow> skiplistLevel \<Rightarrow> skiplist \<Rightarrow> skiplist" where
  "set_level a i lv sl =
     sl\<lparr>snodes := (snodes sl)(a := (snodes sl a)\<lparr>levels := (levels (snodes sl a))[i := lv]\<rparr>)\<rparr>"

definition set_fwd :: "nat \<Rightarrow> nat \<Rightarrow> nat option \<Rightarrow> skiplist \<Rightarrow> skiplist" where
  "set_fwd a i p sl = set_level a i ((levels (snodes sl a) ! i)\<lparr>forward := p\<rparr>) sl"

definition set_spn :: "nat \<Rightarrow> nat \<Rightarrow> int \<Rightarrow> skiplist \<Rightarrow> skiplist" where
  "set_spn a i n sl = set_level a i ((levels (snodes sl a) ! i)\<lparr>span := n\<rparr>) sl"

definition set_backward :: "nat \<Rightarrow> nat option \<Rightarrow> skiplist \<Rightarrow> skiplist" where
  "set_backward a p sl = sl\<lparr>snodes := (snodes sl)(a := (snodes sl a)\<lparr>backward := p\<rparr>)\<rparr>"

section \<open>Searching\<close>

text \<open>
  Every operation walks down from the top level: on level \<open>i\<close> it follows the
  forward pointers while a condition on the next node holds (it may depend on
  the rank so far and on the span), then it drops one level. \<open>descend\<close> gives the
  node and the rank at which it left each level, that of level \<open>i\<close> at index \<open>i\<close>
  (the code's \<open>update[i]\<close> and \<open>rank[i]\<close>). The fuel of \<open>advance\<close> is the number of
  nodes ever allocated.
\<close>

type_synonym step_cond = "int \<Rightarrow> int \<Rightarrow> skiplistNode \<Rightarrow> bool"

fun advance :: "skiplist \<Rightarrow> nat \<Rightarrow> nat \<Rightarrow> step_cond \<Rightarrow> nat \<Rightarrow> int \<Rightarrow> nat \<times> int" where
  "advance sl 0 i c x r = (x, r)"
| "advance sl (Suc fuel) i c x r =
     (case fwd sl x i of
        None \<Rightarrow> (x, r)
      | Some y \<Rightarrow> if c r (spn sl x i) (snodes sl y) then advance sl fuel i c y (r + spn sl x i)
                 else (x, r))"

fun descend :: "skiplist \<Rightarrow> step_cond \<Rightarrow> nat \<Rightarrow> nat \<Rightarrow> int \<Rightarrow> (nat \<times> int) list" where
  "descend sl c 0 x r = []"
| "descend sl c (Suc i) x r =
     (case advance sl (sfresh sl) i c x r of (y, r') \<Rightarrow> descend sl c i y r' @ [(y, r')])"

definition before :: "float64 \<Rightarrow> string \<Rightarrow> step_cond" where
  "before sc m r s n \<longleftrightarrow> f_lt (score n) sc \<or> f_eq (score n) sc \<and> member n < m"

definition up_to :: "float64 \<Rightarrow> string \<Rightarrow> step_cond" where
  "up_to sc m r s n \<longleftrightarrow> f_lt (score n) sc \<or> f_eq (score n) sc \<and> member n \<le> m"

section \<open>Insert\<close>

text \<open>\<open>coins i\<close> is the outcome of the test \<open>rand.Float64() < skiplistP\<close> of draw \<open>i\<close>.\<close>

fun random_level_loop :: "(nat \<Rightarrow> bool) \<Rightarrow> nat \<Rightarrow> nat \<Rightarrow> nat" where
  "random_level_loop coins lv 0 = lv"
| "random_level_loop coins lv (Suc k) =
     (if coins (lv - 1) then random_level_loop coins (Suc lv) k else lv)"

definition randomLevel :: "(nat \<Rightarrow> bool) \<Rightarrow> nat" where
  "randomLevel coins = random_level_loop coins 1 (skiplistMaxLevel - 1)"

definition link_level :: "nat \<Rightarrow> (nat \<times> int) list \<Rightarrow> nat \<Rightarrow> skiplist \<Rightarrow> skiplist" where
  "link_level x path i sl =
     (let (u, r) = path ! i; r0 = snd (path ! 0);
          sl = set_fwd x i (fwd sl u i) sl;
          sl = set_fwd u i (Some x) sl;
          sl = set_spn x i (spn sl u i - (r0 - r)) sl
      in set_spn u i (r0 - r + 1) sl)"

definition bump_span :: "(nat \<times> int) list \<Rightarrow> nat \<Rightarrow> skiplist \<Rightarrow> skiplist" where
  "bump_span path i sl = (let u = fst (path ! i) in set_spn u i (spn sl u i + 1) sl)"

text \<open>Levels the list did not have yet start at the header, with a span of the whole list.\<close>

definition raise_level :: "nat \<Rightarrow> skiplist \<Rightarrow> skiplist" where
  "raise_level lv sl =
     (if level sl < lv
      then (fold (\<lambda>i sl. set_spn (header sl) i (slength sl) sl) [level sl..<lv] sl)\<lparr>level := lv\<rparr>
      else sl)"

definition new_node :: "nat \<Rightarrow> float64 \<Rightarrow> string \<Rightarrow> skiplist \<Rightarrow> skiplist" where
  "new_node lv sc m sl =
     sl\<lparr>snodes := (snodes sl)(sfresh sl := newSkiplistNode lv sc m), sfresh := Suc (sfresh sl)\<rparr>"

text \<open>The last steps of \<open>Insert\<close>: the backward pointers, the tail and the length.\<close>

definition close_insert :: "nat \<Rightarrow> nat \<Rightarrow> skiplist \<Rightarrow> skiplist" where
  "close_insert u x sl =
     (let sl = set_backward x (if u = header sl then None else Some u) sl;
          sl = (case fwd sl x 0 of Some y \<Rightarrow> set_backward y (Some x) sl | None \<Rightarrow> sl\<lparr>tail := Some x\<rparr>)
      in sl\<lparr>slength := slength sl + 1\<rparr>)"

definition Insert :: "nat \<Rightarrow> float64 \<Rightarrow> string \<Rightarrow> skiplist \<Rightarrow> skiplist" where
  "Insert lv sc m sl =
     (let path = descend sl (before sc m) (level sl) (header sl) 0
            @ replicate (lv - level sl) (header sl, 0);
          sl = raise_level lv sl;
          x = sfresh sl;
          sl = new_node lv sc m sl;
          sl = fold (link_level x path) [0..<lv] sl;
          sl = fold (bump_span path) [lv..<level sl] sl
      in close_insert (fst (path ! 0)) x sl)"

section \<open>Delete\<close>

definition unlink_level :: "nat \<Rightarrow> (nat \<times> int) list \<Rightarrow> nat \<Rightarrow> skiplist \<Rightarrow> skiplist" where
  "unlink_level x path i sl =
     (let u = fst (path ! i)
      in if fwd sl u i = Some x
         then set_fwd u i (fwd sl x i) (set_spn u i (spn sl u i + (spn sl x i - 1)) sl)
         else set_spn u i (spn sl u i - 1) sl)"

fun shrink_level :: "skiplist \<Rightarrow> nat \<Rightarrow> nat" where
  "shrink_level sl 0 = 0"
| "shrink_level sl (Suc n) = (if 0 < n \<and> fwd sl (header sl) n = None then shrink_level sl n else Suc n)"

text \<open>The backward pointer past the deleted node, or the tail.\<close>

definition bypass_back :: "nat \<Rightarrow> skiplist \<Rightarrow> skiplist" where
  "bypass_back x sl =
     (case fwd sl x 0 of Some y \<Rightarrow> set_backward y (backward (snodes sl x)) sl
      | None \<Rightarrow> sl\<lparr>tail := backward (snodes sl x)\<rparr>)"

definition deleteNode :: "nat \<Rightarrow> (nat \<times> int) list \<Rightarrow> skiplist \<Rightarrow> skiplist" where
  "deleteNode x path sl =
     (let sl = fold (unlink_level x path) [0..<level sl] sl;
          sl = bypass_back x sl;
          sl = sl\<lparr>level := shrink_level sl (level sl)\<rparr>
      in sl\<lparr>slength := slength sl - 1\<rparr>)"

definition Delete :: "float64 \<Rightarrow> string \<Rightarrow> skiplist \<Rightarrow> bool \<times> skiplist" where
  "Delete sc m sl =
     (let path = descend sl (before sc m) (level sl) (header sl) 0
      in case fwd sl (fst (path ! 0)) 0 of
           None \<Rightarrow> (False, sl)
         | Some x \<Rightarrow>
             if \<not> f_eq (score (snodes sl x)) sc \<or> member (snodes sl x) \<noteq> m then (False, sl)
             else (True, deleteNode x path sl))"

section \<open>Ranks and ranges\<close>

fun get_rank_loop :: "skiplist \<Rightarrow> float64 \<Rightarrow> string \<Rightarrow> nat \<Rightarrow> nat \<Rightarrow> int \<Rightarrow> int" where
  "get_rank_loop sl sc m 0 x r = 0"
| "get_rank_loop sl sc m (Suc i) x r =
     (case advance sl (sfresh sl) i (up_to sc m) x r of (y, r') \<Rightarrow>
        if member (snodes sl y) = m then r' else get_rank_loop sl sc m i y r')"

definition GetRank :: "float64 \<Rightarrow> string \<Rightarrow> skiplist \<Rightarrow> int" where
  "GetRank sc m sl = get_rank_loop sl sc m (level sl) (header sl) 0"

definition rank_within :: "int \<Rightarrow> step_cond" where
  "rank_within rk r s n \<longleftrightarrow> r + s \<le> rk"

fun get_by_rank_loop :: "skiplist \<Rightarrow> int \<Rightarrow> nat \<Rightarrow> nat \<Rightarrow> int \<Rightarrow> nat option" where
  "get_by_rank_loop sl rk 0 x r = None"
| "get_by_rank_loop sl rk (Suc i) x r =
     (case advance sl (sfresh sl) i (rank_within rk) x r of (y, r') \<Rightarrow>
        if r' = rk then Some y else get_by_rank_loop sl rk i y r')"

definition GetByRank :: "int \<Rightarrow> skiplist \<Rightarrow> nat option" where
  "GetByRank rk sl = get_by_rank_loop sl rk (level sl) (header sl) 0"

definition entry :: "skiplist \<Rightarrow> nat \<Rightarrow> string \<times> float64" where
  "entry sl a = (member (snodes sl a), score (snodes sl a))"

fun collect_forward :: "skiplist \<Rightarrow> nat \<Rightarrow> nat option \<Rightarrow> (string \<times> float64) list" where
  "collect_forward sl 0 p = []"
| "collect_forward sl (Suc k) p =
     (case p of None \<Rightarrow> [] | Some a \<Rightarrow> entry sl a # collect_forward sl k (fwd sl a 0))"

definition RangeByRank :: "int \<Rightarrow> int \<Rightarrow> skiplist \<Rightarrow> (string \<times> float64) list" where
  "RangeByRank start stop sl =
     (let start = (if start < 1 then 1 else start);
          stop = (if slength sl < stop then slength sl else stop)
      in if stop < start then []
         else collect_forward sl (nat (stop - start + 1)) (GetByRank start sl))"

definition below_score :: "float64 \<Rightarrow> step_cond" where
  "below_score mn r s n \<longleftrightarrow> f_lt (score n) mn"

definition upto_score :: "float64 \<Rightarrow> step_cond" where
  "upto_score mx r s n \<longleftrightarrow> f_le (score n) mx"

text \<open>The scan over the bottom level: skip \<open>offset\<close> entries, then collect up to
  \<open>cnt\<close> of them (all when \<open>cnt\<close> is not positive).\<close>

fun scan_range :: "skiplist \<Rightarrow> nat \<Rightarrow> (nat \<Rightarrow> nat option) \<Rightarrow> (nat \<Rightarrow> bool) \<Rightarrow> int \<Rightarrow> int \<Rightarrow> int
    \<Rightarrow> (string \<times> float64) list \<Rightarrow> nat option \<Rightarrow> (string \<times> float64) list" where
  "scan_range sl 0 nxt c offset cnt skipped result p = result"
| "scan_range sl (Suc fuel) nxt c offset cnt skipped result p =
     (case p of
        None \<Rightarrow> result
      | Some a \<Rightarrow>
          if \<not> c a then result
          else if skipped < offset then
            scan_range sl fuel nxt c offset cnt (skipped + 1) result (nxt a)
          else
            let result = result @ [entry sl a]
            in if 0 < cnt \<and> cnt \<le> int (length result) then result
               else scan_range sl fuel nxt c offset cnt skipped result (nxt a))"

definition RangeByScore :: "float64 \<Rightarrow> float64 \<Rightarrow> int \<Rightarrow> int \<Rightarrow> skiplist \<Rightarrow> (string \<times> float64) list" where
  "RangeByScore mn mx offset cnt sl =
     (let x = fst (descend sl (below_score mn) (level sl) (header sl) 0 ! 0)
      in scan_range sl (sfresh sl) (\<lambda>a. fwd sl a 0) (\<lambda>a. f_le (score (snodes sl a)) mx) offset cnt 0 [] (fwd sl x 0))"

definition RevRangeByScore :: "float64 \<Rightarrow> float64 \<Rightarrow> int \<Rightarrow> int \<Rightarrow> skiplist \<Rightarrow> (string \<times> float64) list" where
  "RevRangeByScore mx mn offset cnt sl =
     (let x = fst (descend sl (upto_score mx) (level sl) (header sl) 0 ! 0)
      in scan_range sl (sfresh sl) (\<lambda>a. backward (snodes sl a)) 
           (\<lambda>a. a \<noteq> header sl \<and> f_le mn (score (snodes sl a))) offset cnt 0 [] (Some x))"

fun count_upto :: "skiplist \<Rightarrow> nat \<Rightarrow> float64 \<Rightarrow> nat option \<Rightarrow> int" where
  "count_upto sl 0 mx p = 0"
| "count_upto sl (Suc fuel) mx p =
     (case p of None \<Rightarrow> 0
      | Some a \<Rightarrow> if f_le (score (snodes sl a)) mx then 1 + count_upto sl fuel mx (fwd sl a 0) else 0)"

definition CountByScore :: "float64 \<Rightarrow> float64 \<Rightarrow> skiplist \<Rightarrow> int" where
  "CountByScore mn mx sl =
     (let x = fst (descend sl (below_score mn) (level sl) (header sl) 0 ! 0)
      in count_upto sl (sfresh sl) mx (fwd sl x 0))"

definition First :: "skiplist \<Rightarrow> nat option" where "First sl = fwd sl (header sl) 0"

definition Last :: "skiplist \<Rightarrow> nat option" where "Last sl = tail sl"

end
