(* ===== verification/Skip_List_Correct.thy ===== *)
theory Skip_List_Correct
  imports Skip_List
begin

text \<open>
  The skip list keeps its entries sorted by score and member, its forward
  pointers and spans agree with the bottom level on every level, and its
  operations are the operations on the sorted sequence of entries.
\<close>

section \<open>The representation invariant\<close>

text \<open>
  Given the heights \<open>H\<close>, the level-\<open>i\<close> pointer of a node that the nodes \<open>ys\<close>
  follow leads to the first of them that reaches level \<open>i\<close>; its span is the
  number of steps on the bottom level, up to the end of the list when no such
  node is left.
\<close>

definition fwd_of :: "(nat \<Rightarrow> nat) \<Rightarrow> nat \<Rightarrow> nat list \<Rightarrow> nat option" where
  "fwd_of H i ys = first_or (dropWhile (\<lambda>a. H a \<le> i) ys) None"

definition span_of :: "(nat \<Rightarrow> nat) \<Rightarrow> nat \<Rightarrow> nat list \<Rightarrow> int" where
  "span_of H i ys = int (length (takeWhile (\<lambda>a. H a \<le> i) ys)) + (if list_ex (\<lambda>a. i < H a) ys then 1 else 0)"

definition node_ok :: "skiplist \<Rightarrow> nat \<Rightarrow> nat list \<Rightarrow> bool" where
  "node_ok sl a ys \<longleftrightarrow> (\<forall>i<height sl a. fwd sl a i = fwd_of (height sl) i ys
     \<and> (i < level sl \<longrightarrow> spn sl a i = span_of (height sl) i ys))"

fun linked :: "skiplist \<Rightarrow> nat list \<Rightarrow> nat list \<Rightarrow> bool" where
  "linked sl [] rest = True"
| "linked sl (a # as) rest = (node_ok sl a (as @ rest) \<and> linked sl as rest)"

fun back_ok :: "skiplist \<Rightarrow> nat option \<Rightarrow> nat list \<Rightarrow> bool" where
  "back_ok sl q [] = True"
| "back_ok sl q (a # as) = (backward (snodes sl a) = q \<and> back_ok sl (Some a) as)"

definition zk :: "skiplist \<Rightarrow> nat \<Rightarrow> zkey" where
  "zk sl a = key_of (score (snodes sl a)) (member (snodes sl a))"

definition sl_rel :: "skiplist \<Rightarrow> nat list \<Rightarrow> bool" where
  "sl_rel sl ns \<longleftrightarrow>
     linked sl (header sl # ns) [] \<and> distinct (header sl # ns)
     \<and> list_all (\<lambda>a. a < sfresh sl) (header sl # ns)
     \<and> height sl (header sl) = skiplistMaxLevel \<and> member (snodes sl (header sl)) = [] \<and> 1 \<le> level sl \<and> level sl \<le> skiplistMaxLevel
     \<and> list_all (\<lambda>a. 1 \<le> height sl a \<and> height sl a \<le> level sl) ns
     \<and> slength sl = int (length ns) \<and> back_ok sl None ns \<and> tail sl = last_or None ns
     \<and> sorted_wrt (<) (map (zk sl) ns) \<and> list_all (\<lambda>a. \<not> f_nan (score (snodes sl a))) ns"

lemma linked_append [simp]:
  "linked sl (xs @ ys) rest \<longleftrightarrow> linked sl xs (ys @ rest) \<and> linked sl ys rest"
  by (induction xs) auto

lemma back_ok_append [simp]:
  "back_ok sl q (xs @ ys) \<longleftrightarrow> back_ok sl q xs \<and> back_ok sl (last_or q xs) ys"
  by (induction xs arbitrary: q) auto

lemma fwd_of_Nil [simp]: "fwd_of H i [] = None"
  by (simp add: fwd_of_def)

lemma span_of_Nil [simp]: "span_of H i [] = 0"
  by (simp add: span_of_def)

lemma fwd_of_Cons [simp]: "fwd_of H i (a # ys) = (if i < H a then Some a else fwd_of H i ys)"
  by (simp add: fwd_of_def)

lemma span_of_Cons [simp]: "span_of H i (a # ys) = (if i < H a then 1 else 1 + span_of H i ys)"
  by (simp add: span_of_def)

lemma fwd_of_append:
  "fwd_of H i (xs @ ys) = (if list_ex (\<lambda>a. i < H a) xs then fwd_of H i xs else fwd_of H i ys)"
  by (induction xs) auto

lemma span_of_append:
  "span_of H i (xs @ ys) =
    (if list_ex (\<lambda>a. i < H a) xs then span_of H i xs else int (length xs) + span_of H i ys)"
  by (induction xs) auto

lemma fwd_of_split:
  "list_ex (\<lambda>a. i < H a) ys \<Longrightarrow>
    \<exists>ds y es. ys = ds @ y # es \<and> list_all (\<lambda>a. H a \<le> i) ds \<and> i < H y
      \<and> fwd_of H i (ys @ zs) = Some y \<and> span_of H i (ys @ zs) = int (length ds) + 1"
proof (induction ys)
  case (Cons a ys)
  show ?case
  proof (cases "i < H a")
    case True
    then show ?thesis by (intro exI[of _ "[]"] exI[of _ a] exI[of _ ys]) simp
  next
    case False
    with Cons obtain ds y es where "ys = ds @ y # es" "list_all (\<lambda>a. H a \<le> i) ds" "i < H y"
      "fwd_of H i (ys @ zs) = Some y" "span_of H i (ys @ zs) = int (length ds) + 1" by auto
    with False show ?thesis by (intro exI[of _ "a # ds"] exI[of _ y] exI[of _ es]) simp
  qed
qed simp

lemma fwd_of_in: "fwd_of H i ys = Some y \<Longrightarrow> \<exists>ds es. ys = ds @ y # es \<and> span_of H i ys = int (length ds) + 1"
proof (induction ys)
  case (Cons a ys)
  show ?case
  proof (cases "i < H a")
    case True
    with Cons.prems show ?thesis by (intro exI[of _ "[]"] exI[of _ ys]) simp
  next
    case False
    with Cons obtain ds es where "ys = ds @ y # es" "span_of H i ys = int (length ds) + 1" by auto
    with False show ?thesis by (intro exI[of _ "a # ds"] exI[of _ es]) simp
  qed
qed simp

lemma fwd_of_None: "\<not> list_ex (\<lambda>a. i < H a) ys \<Longrightarrow> fwd_of H i ys = None"
  by (induction ys) auto

lemma linked_node:
  "linked sl xs rest \<Longrightarrow> xs = b @ a # c \<Longrightarrow> node_ok sl a (c @ rest)"
  by simp

section \<open>Walking down\<close>

text \<open>
  \<open>at_level sl i pre (u, r)\<close>: \<open>u\<close> is the last node of \<open>pre\<close> that reaches level \<open>i\<close>,
  and \<open>r\<close> its position.
\<close>

definition at_level :: "skiplist \<Rightarrow> nat \<Rightarrow> nat list \<Rightarrow> nat \<times> int \<Rightarrow> bool" where
  "at_level sl i pre p \<longleftrightarrow> (\<exists>b c. pre = b @ fst p # c \<and> i < height sl (fst p)
     \<and> list_all (\<lambda>a. height sl a \<le> i) c \<and> snd p = int (length b))"

text \<open>
  \<open>splits_at sl c pre post\<close>: among the nodes behind the first one, condition \<open>c\<close>
  holds for exactly those in \<open>pre\<close>. The rank and the span it is given add up to
  the position of the node.
\<close>

definition splits_at :: "skiplist \<Rightarrow> step_cond \<Rightarrow> nat list \<Rightarrow> nat list \<Rightarrow> bool" where
  "splits_at sl c pre post \<longleftrightarrow>
     (\<forall>b y d r s. pre @ post = b @ y # d \<longrightarrow> b \<noteq> [] \<longrightarrow> r + s = int (length b) \<longrightarrow>
        c r s (snodes sl y) = (length b < length pre))"

lemma splits_atD:
  "splits_at sl c pre post \<Longrightarrow> pre @ post = b @ y # d \<Longrightarrow> b \<noteq> [] \<Longrightarrow> r + s = int (length b) \<Longrightarrow>
    c r s (snodes sl y) = (length b < length pre)"
  unfolding splits_at_def by blast

lemma advance_at_level:
  assumes "linked sl (pre @ post) []" and "splits_at sl c pre post" and "i < level sl"
  shows "pre = b @ x # cs \<Longrightarrow> i < height sl x \<Longrightarrow> length cs < fuel \<Longrightarrow>
    at_level sl i pre (advance sl fuel i c x (int (length b)))"
proof (induction "length cs" arbitrary: b x cs fuel rule: less_induct)
  case less
  obtain k where k: "fuel = Suc k" using less.prems by (cases fuel) auto
  have "node_ok sl x (cs @ post)"
    using assms(1) less.prems(1) by simp
  then have f: "fwd sl x i = fwd_of (height sl) i (cs @ post)"
    and s: "spn sl x i = span_of (height sl) i (cs @ post)"
    using less.prems(2) assms(3) by (simp_all add: node_ok_def)
  show ?case
  proof (cases "list_ex (\<lambda>a. i < height sl a) cs")
    case True
    from fwd_of_split[where H = "height sl", OF True, of post] obtain ds y es where
      cs: "cs = ds @ y # es" and hy: "i < height sl y"
      and fy: "fwd sl x i = Some y" "spn sl x i = int (length ds) + 1" unfolding f s by blast
    have "pre @ post = (b @ x # ds) @ y # (es @ post)" using less.prems(1) cs by simp
    from splits_atD[OF assms(2) this, of "int (length b)" "spn sl x i"]
    have "c (int (length b)) (spn sl x i) (snodes sl y)"
      using less.prems(1) cs fy by simp
    moreover have "at_level sl i pre (advance sl k i c y (int (length (b @ x # ds))))"
      using less.prems cs hy k by (intro less.hyps[of es]) auto
    ultimately show ?thesis using k fy by (simp add: ac_simps)
  next
    case False
    have stop: "at_level sl i pre (x, int (length b))"
      unfolding at_level_def using less.prems False
      by (intro exI[of _ b] exI[of _ cs]) (auto simp: list_ex_iff list_all_iff not_less)
    show ?thesis
    proof (cases "fwd sl x i")
      case None
      with stop k show ?thesis by simp
    next
      case (Some y)
      with f False have fy: "fwd_of (height sl) i post = Some y" by (simp add: fwd_of_append)
      from fwd_of_in[OF fy] obtain ds es where
        post: "post = ds @ y # es" and sp: "span_of (height sl) i post = int (length ds) + 1" by blast
      have "spn sl x i = int (length cs) + int (length ds) + 1"
        using s sp False by (simp add: span_of_append)
      moreover have "pre @ post = (b @ x # cs @ ds) @ y # es" using less.prems(1) post by simp
      ultimately have "\<not> c (int (length b)) (spn sl x i) (snodes sl y)"
        using splits_atD[OF assms(2), of "b @ x # cs @ ds" y es "int (length b)" "spn sl x i"]
          less.prems(1) by simp
      with Some stop k show ?thesis by simp
    qed
  qed
qed

lemma at_level_split:
  "at_level sl i pre (u, r) \<Longrightarrow> pre = b @ a # c \<Longrightarrow> i < height sl a \<Longrightarrow>
    list_all (\<lambda>a. height sl a \<le> i) c \<Longrightarrow> u = a \<and> r = int (length b)"
proof (induction c arbitrary: pre rule: rev_induct)
  case Nil
  then obtain b' c' where p: "b @ [a] = b' @ u # c'" "list_all (\<lambda>a. height sl a \<le> i) c'"
    "r = int (length b')" "i < height sl u" by (auto simp: at_level_def)
  then show ?case using Nil by (cases c' rule: rev_cases) auto
next
  case (snoc z zs)
  then obtain b' c' where p: "(b @ a # zs) @ [z] = b' @ u # c'" "list_all (\<lambda>a. height sl a \<le> i) c'"
    "r = int (length b')" "i < height sl u" by (auto simp: at_level_def)
  moreover have "height sl z \<le> i" using snoc.prems by simp
  ultimately obtain c'' where "c' = c'' @ [z]" by (cases c' rule: rev_cases) auto
  with p have "at_level sl i (b @ a # zs) (u, r)" by (auto simp: at_level_def)
  with snoc show ?case by simp
qed

lemma at_level_mem: "at_level sl i pre p \<Longrightarrow> fst p \<in> set pre \<and> i < height sl (fst p)"
  by (auto simp: at_level_def)

lemma descend_at_level:
  assumes L: "linked sl (pre @ post) []" and C: "splits_at sl c pre post" and fuel: "length pre \<le> sfresh sl"
  shows "n \<le> level sl \<Longrightarrow> pre = b @ x # cs \<Longrightarrow> n \<le> height sl x \<Longrightarrow> r = int (length b) \<Longrightarrow>
    length (descend sl c n x r) = n \<and> (\<forall>i<n. at_level sl i pre (descend sl c n x r ! i))"
proof (induction n arbitrary: b x cs r)
  case (Suc n)
  obtain y r' where a: "advance sl (sfresh sl) n c x r = (y, r')" by fastforce
  have "at_level sl n pre (y, r')"
    using advance_at_level[OF L C, of n b x cs "sfresh sl"] Suc.prems fuel a by simp
  moreover from this obtain b' cs' where "pre = b' @ y # cs'" "n < height sl y" "r' = int (length b')"
    by (auto simp: at_level_def)
  with Suc have "length (descend sl c n y r') = n \<and> (\<forall>i<n. at_level sl i pre (descend sl c n y r' ! i))"
    by (intro Suc.IH[of b' y cs']) simp_all
  ultimately show ?case using a by (auto simp: nth_append less_Suc_eq)
qed simp

section \<open>Writes\<close>

lemma height_set [simp]:
  "height (set_fwd a i p sl) b = height sl b" "height (set_spn a i n sl) b = height sl b"
  "height (set_backward a p sl) b = height sl b"
  by (simp_all add: height_def set_fwd_def set_spn_def set_level_def set_backward_def)

lemma fwd_set_fwd [simp]:
  "i < height sl a \<Longrightarrow> fwd (set_fwd a i p sl) b j = (if b = a \<and> j = i then p else fwd sl b j)"
  by (simp add: fwd_def height_def set_fwd_def set_level_def nth_list_update)

lemma spn_set_spn [simp]:
  "i < height sl a \<Longrightarrow> spn (set_spn a i n sl) b j = (if b = a \<and> j = i then n else spn sl b j)"
  by (simp add: spn_def height_def set_spn_def set_level_def nth_list_update)

lemma fwd_set_spn [simp]: "fwd (set_spn a i n sl) b j = fwd sl b j"
  by (cases "i < length (levels (snodes sl a))")
    (simp_all add: fwd_def set_spn_def set_level_def nth_list_update list_update_beyond)

lemma spn_set_fwd [simp]: "spn (set_fwd a i p sl) b j = spn sl b j"
  by (cases "i < length (levels (snodes sl a))")
    (simp_all add: spn_def set_fwd_def set_level_def nth_list_update list_update_beyond)

lemma set_backward_levels [simp]:
  "fwd (set_backward a q sl) b j = fwd sl b j" "spn (set_backward a q sl) b j = spn sl b j"
  by (simp_all add: fwd_def spn_def set_backward_def)

lemma set_backward_fields [simp]:
  "backward (snodes (set_backward a q sl) b) = (if b = a then q else backward (snodes sl b))"
  "tail (set_backward a q sl) = tail sl" "header (set_backward a q sl) = header sl"
  by (simp_all add: set_backward_def)

text \<open>What the writes to levels leave alone.\<close>

definition same_frame :: "skiplist \<Rightarrow> skiplist \<Rightarrow> bool" where
  "same_frame sl sl' \<longleftrightarrow> header sl' = header sl \<and> tail sl' = tail sl \<and> slength sl' = slength sl
     \<and> level sl' = level sl \<and> sfresh sl' = sfresh sl
     \<and> (\<forall>a. height sl' a = height sl a \<and> member (snodes sl' a) = member (snodes sl a)
          \<and> score (snodes sl' a) = score (snodes sl a) \<and> backward (snodes sl' a) = backward (snodes sl a))"

lemma same_frame_refl [simp]: "same_frame sl sl"
  by (simp add: same_frame_def)

lemma same_frame_trans: "same_frame sl sl' \<Longrightarrow> same_frame sl' sl'' \<Longrightarrow> same_frame sl sl''"
  by (simp add: same_frame_def)

lemma same_frame_write:
  "same_frame sl s \<Longrightarrow> same_frame sl (set_fwd a i p s)"
  "same_frame sl s \<Longrightarrow> same_frame sl (set_spn a i n s)"
  by (auto simp: same_frame_def height_def set_fwd_def set_spn_def set_level_def)

lemma same_frame_levels:
  "same_frame sl (link_level x path i sl)" "same_frame sl (bump_span path i sl)"
  "same_frame sl (unlink_level x path i sl)"
  by (auto simp: link_level_def bump_span_def unlink_level_def Let_def split: prod.splits
      intro!: same_frame_write)

lemma same_frame_fold: "(\<And>i sl. same_frame sl (f i sl)) \<Longrightarrow> same_frame sl (fold f is sl)"
proof (induction "is" arbitrary: sl)
  case (Cons i "is")
  then show ?case using same_frame_trans[of sl "f i sl"] by simp
qed simp

lemmas same_frame_folds = same_frame_fold[of "link_level x path" for x path, OF same_frame_levels(1)]
  same_frame_fold[of "bump_span path" for path, OF same_frame_levels(2)]
  same_frame_fold[of "unlink_level x path" for x path, OF same_frame_levels(3)]

lemma same_frame_height: "same_frame sl sl' \<Longrightarrow> height sl' a = height sl a"
  by (simp add: same_frame_def)

lemmas fold_heights = same_frame_folds[THEN same_frame_height]

text \<open>The loop that links a new node in, level by level.\<close>

lemma link_fold:
  assumes "\<And>i. i < n \<Longrightarrow> fst (path ! i) \<noteq> x \<and> i < height sl (fst (path ! i)) \<and> i < height sl x"
  shows "fwd (fold (link_level x path) [0..<n] sl) a j =
      (if j < n \<and> a = x then fwd sl (fst (path ! j)) j
       else if j < n \<and> a = fst (path ! j) then Some x else fwd sl a j)
    \<and> spn (fold (link_level x path) [0..<n] sl) a j =
      (if j < n \<and> a = x then spn sl (fst (path ! j)) j - (snd (path ! 0) - snd (path ! j))
       else if j < n \<and> a = fst (path ! j) then snd (path ! 0) - snd (path ! j) + 1 else spn sl a j)"
  using assms
proof (induction n arbitrary: a j)
  case (Suc n)
  let ?s = "fold (link_level x path) [0..<n] sl"
  have fr: "height ?s b = height sl b" for b
    by (rule fold_heights)
  obtain u r where p: "path ! n = (u, r)" by fastforce
  have u: "u \<noteq> x" "n < height sl u" "n < height sl x" using Suc.prems[of n] p by auto
  have IH: "fwd ?s b k = (if k < n \<and> b = x then fwd sl (fst (path ! k)) k
       else if k < n \<and> b = fst (path ! k) then Some x else fwd sl b k)"
    "spn ?s b k = (if k < n \<and> b = x then spn sl (fst (path ! k)) k - (snd (path ! 0) - snd (path ! k))
       else if k < n \<and> b = fst (path ! k) then snd (path ! 0) - snd (path ! k) + 1 else spn sl b k)" for b k
    using Suc by simp_all
  have "fwd (link_level x path n ?s) a j = (if a = u \<and> j = n then Some x
      else if a = x \<and> j = n then fwd ?s u n else fwd ?s a j)"
    and "spn (link_level x path n ?s) a j = (if a = u \<and> j = n then snd (path ! 0) - r + 1
      else if a = x \<and> j = n then spn ?s u n - (snd (path ! 0) - r) else spn ?s a j)"
    using u by (auto simp: link_level_def p fr Let_def)
  then show ?case
    using u p by (auto simp: IH less_Suc_eq)
qed simp

lemma bump_span_writes:
  assumes "n < height s (fst (path ! n))"
  shows "fwd (bump_span path n s) a j = fwd s a j"
    and "spn (bump_span path n s) a j = (if j = n \<and> a = fst (path ! n) then spn s a j + 1 else spn s a j)"
  using assms by (auto simp: bump_span_def Let_def)

lemma unlink_level_writes:
  assumes "n < height s (fst (path ! n))" and "fst (path ! n) \<noteq> x"
  shows "fwd (unlink_level x path n s) a j =
      (if j = n \<and> a = fst (path ! n) \<and> fwd s a j = Some x then fwd s x j else fwd s a j)"
    and "spn (unlink_level x path n s) a j =
      (if j = n \<and> a = fst (path ! n) then
         (if fwd s a j = Some x then spn s a j + (spn s x j - 1) else spn s a j - 1) else spn s a j)"
  using assms by (auto simp: unlink_level_def Let_def)

lemma bump_fold:
  assumes "\<And>i. k \<le> i \<Longrightarrow> i < n \<Longrightarrow> i < height sl (fst (path ! i))"
  shows "fwd (fold (bump_span path) [k..<n] sl) a j = fwd sl a j
    \<and> spn (fold (bump_span path) [k..<n] sl) a j =
      (if k \<le> j \<and> j < n \<and> a = fst (path ! j) then spn sl a j + 1 else spn sl a j)"
  using assms
proof (induction n arbitrary: a j)
  case (Suc n)
  show ?case
  proof (cases "k \<le> n")
    case True
    let ?s = "fold (bump_span path) [k..<n] sl"
    have fr: "height ?s b = height sl b" for b
      by (rule fold_heights)
    have IH: "fwd ?s b m = fwd sl b m" "spn ?s b m =
      (if k \<le> m \<and> m < n \<and> b = fst (path ! m) then spn sl b m + 1 else spn sl b m)" for b m
      using Suc by simp_all
    have "n < height ?s (fst (path ! n))" using Suc.prems True by (simp add: fr)
    note w = bump_span_writes[OF this]
    have "fold (bump_span path) [k..<Suc n] sl = bump_span path n ?s" using True by simp
    then show ?thesis using True by (auto simp: w IH less_Suc_eq)
  qed simp
qed simp

lemma unlink_fold:
  assumes "\<And>i. i < n \<Longrightarrow> fst (path ! i) \<noteq> x \<and> i < height sl (fst (path ! i))"
  shows "fwd (fold (unlink_level x path) [0..<n] sl) a j =
      (if j < n \<and> a = fst (path ! j) \<and> fwd sl a j = Some x then fwd sl x j else fwd sl a j)
    \<and> spn (fold (unlink_level x path) [0..<n] sl) a j =
      (if j < n \<and> a = fst (path ! j) then
         (if fwd sl a j = Some x then spn sl a j + (spn sl x j - 1) else spn sl a j - 1) else spn sl a j)"
  using assms
proof (induction n arbitrary: a j)
  case (Suc n)
  let ?s = "fold (unlink_level x path) [0..<n] sl"
  have fr: "height ?s b = height sl b" for b
    by (rule fold_heights)
  have IH: "fwd ?s b m = (if m < n \<and> b = fst (path ! m) \<and> fwd sl b m = Some x then fwd sl x m else fwd sl b m)"
    "spn ?s b m = (if m < n \<and> b = fst (path ! m) then
         (if fwd sl b m = Some x then spn sl b m + (spn sl x m - 1) else spn sl b m - 1) else spn sl b m)" for b m
    using Suc by simp_all
  have u: "n < height ?s (fst (path ! n))" "fst (path ! n) \<noteq> x" using Suc.prems by (simp_all add: fr)
  note w = unlink_level_writes[OF u]
  have "fold (unlink_level x path) [0..<Suc n] sl = unlink_level x path n ?s" by simp
  then show ?case using u by (auto simp: w IH less_Suc_eq)
qed simp

section \<open>Linking a node in\<close>

lemma linked_iff: "linked sl xs rest \<longleftrightarrow> (\<forall>b a c. xs = b @ a # c \<longrightarrow> node_ok sl a (c @ rest))"
proof (induction xs)
  case (Cons z zs)
  show ?case unfolding linked.simps Cons.IH by (auto simp: Cons_eq_append_conv)
qed simp

lemma of_levels_cong:
  assumes "\<And>a. a \<in> set ys \<Longrightarrow> H a = H' a"
  shows "fwd_of H i ys = fwd_of H' i ys" "span_of H i ys = span_of H' i ys"
  using assms by (induction ys) auto

lemma linked_cong:
  assumes "linked sl xs rest" and "level sl' = level sl"
    and "\<And>a. a \<in> set (xs @ rest) \<Longrightarrow> height sl' a = height sl a"
    and "\<And>a i. a \<in> set xs \<Longrightarrow> i < height sl a \<Longrightarrow> fwd sl' a i = fwd sl a i \<and> spn sl' a i = spn sl a i"
  shows "linked sl' xs rest"
  using assms
proof (induction xs)
  case (Cons a xs)
  have H: "b \<in> set (xs @ rest) \<Longrightarrow> height sl' b = height sl b" for b
    using Cons.prems(3) by simp
  have c: "fwd_of (height sl') i (xs @ rest) = fwd_of (height sl) i (xs @ rest)"
    "span_of (height sl') i (xs @ rest) = span_of (height sl) i (xs @ rest)" for i
    by (rule of_levels_cong, erule H)+
  have "node_ok sl a (xs @ rest)" using Cons.prems(1) by simp
  then have "node_ok sl' a (xs @ rest)"
    using Cons.prems(2,3,4) by (simp add: node_ok_def c del: set_append)
  with Cons show ?case by simp
qed simp

lemma split_around:
  "xs @ x # ys = b @ a # c \<Longrightarrow>
    (\<exists>c'. xs = b @ a # c' \<and> c = c' @ x # ys) \<or> (a = x \<and> b = xs \<and> c = ys)
      \<or> (\<exists>b'. ys = b' @ a # c \<and> b = xs @ x # b')"
proof (induction xs arbitrary: b)
  case Nil
  then show ?case by (cases b) auto
next
  case (Cons z zs)
  then show ?case by (cases b) auto
qed

lemma split_between:
  "xs @ ys = b @ a # c \<Longrightarrow>
    (\<exists>c'. xs = b @ a # c' \<and> c = c' @ ys) \<or> (\<exists>b'. ys = b' @ a # c \<and> b = xs @ b')"
proof (induction xs arbitrary: b)
  case (Cons z zs)
  then show ?case by (cases b) auto
qed simp

lemma insert_links:
  assumes L: "linked sl (pre @ post) []" and x: "x \<notin> set (pre @ post)" "height sl x = lv"
    and lv: "1 \<le> lv" "lv \<le> level sl" and d: "distinct (pre @ post)"
    and path: "\<And>i. i < level sl \<Longrightarrow> at_level sl i pre (path ! i)"
    and r0: "snd (path ! 0) = int (length pre) - 1"
    and top: "list_all (\<lambda>a. height sl a \<le> level sl) post"
  shows "linked (fold (bump_span path) [lv..<level sl] (fold (link_level x path) [0..<lv] sl)) (pre @ x # post) []"
    (is "linked ?s _ _")
  unfolding linked_iff
proof (intro allI impI)
  fix b a c assume eq: "pre @ x # post = b @ a # c"
  let ?l = "fold (link_level x path) [0..<lv] sl"
  have mem: "i < level sl \<Longrightarrow> fst (path ! i) \<in> set pre \<and> i < height sl (fst (path ! i))" for i
    using at_level_mem path by blast
  have px: "i < lv \<Longrightarrow> fst (path ! i) \<noteq> x \<and> i < height sl (fst (path ! i)) \<and> i < height sl x" for i
    using mem[of i] x lv by auto
  note l = link_fold[of lv path x sl, OF px]
  have "lv \<le> i \<Longrightarrow> i < level sl \<Longrightarrow> i < height ?l (fst (path ! i))" for i
    using mem[of i] by (simp add: fold_heights)
  note bu = bump_fold[of lv "level sl" ?l path, OF this]
  have f: "fwd ?s n j = (if j < lv \<and> n = x then fwd sl (fst (path ! j)) j
       else if j < lv \<and> n = fst (path ! j) then Some x else fwd sl n j)" for n j
    using bu l by simp
  have s: "spn ?s n j = (if j < lv \<and> n = x then spn sl (fst (path ! j)) j - (snd (path ! 0) - snd (path ! j))
       else if j < lv \<and> n = fst (path ! j) then snd (path ! 0) - snd (path ! j) + 1
       else if lv \<le> j \<and> j < level sl \<and> n = fst (path ! j) then spn sl n j + 1 else spn sl n j)" for n j
    using bu l by simp
  have h: "height ?s = height sl" and le: "level ?s = level sl"
    using same_frame_folds by (auto simp: fold_heights same_frame_def fun_eq_iff)
  have ok: "pre @ post = b' @ n # c' \<Longrightarrow> i < height sl n \<Longrightarrow> fwd sl n i = fwd_of (height sl) i c'
      \<and> (i < level sl \<longrightarrow> spn sl n i = span_of (height sl) i c')" for b' n c' i
    using L unfolding linked_iff node_ok_def by auto
  have goal: "fwd ?s a i = fwd_of (height sl) i c \<and> (i < level sl \<longrightarrow> spn ?s a i = span_of (height sl) i c)"
    if i: "i < height sl a" for i
  proof -
    consider (pre) c' where "pre = b @ a # c'" "c = c' @ x # post" | (new) "a = x" "b = pre" "c = post"
      | (post) b' where "post = b' @ a # c"
      using split_around[OF eq] by blast
    then show ?thesis
    proof cases
      case pre
      then have ax: "a \<noteq> x" and o: "fwd sl a i = fwd_of (height sl) i (c' @ post)"
        "i < level sl \<Longrightarrow> spn sl a i = span_of (height sl) i (c' @ post)"
        using x ok[of b a "c' @ post" i] i by auto
      show ?thesis
      proof (cases "list_ex (\<lambda>a. i < height sl a) c'")
        case True
        have "i < level sl \<Longrightarrow> fst (path ! i) \<noteq> a"
        proof
          assume i: "i < level sl" and a: "fst (path ! i) = a"
          obtain e g where g: "pre = e @ a # g" "list_all (\<lambda>a. height sl a \<le> i) g"
            using path[OF i] a by (auto simp: at_level_def)
          have "e = b \<and> g = c'" using g(1) pre(1) d a append_Cons_eq_iff[of a e g b c'] by auto
          with g(2) True show False by (auto simp: list_all_iff list_ex_iff)
        qed
        with True ax lv show ?thesis by (auto simp: f s o pre fwd_of_append span_of_append)
      next
        case False
        have "i < level sl \<Longrightarrow> path ! i = (a, int (length b))"
          using at_level_split[of sl i pre "fst (path ! i)" "snd (path ! i)" b a c'] path[of i] pre(1) i False
          by (auto simp: list_all_iff list_ex_iff not_less prod_eq_iff)
        with False ax lv r0 show ?thesis by (auto simp: f s o pre fwd_of_append span_of_append x)
      qed
    next
      case new
      then have i: "i < lv" "i < level sl" using i x lv by auto
      obtain e g where g: "pre = e @ fst (path ! i) # g" "list_all (\<lambda>a. height sl a \<le> i) g"
        "snd (path ! i) = int (length e)" "i < height sl (fst (path ! i))"
        using path[OF i(2)] by (auto simp: at_level_def)
      have "\<not> list_ex (\<lambda>a. i < height sl a) g" using g(2) by (auto simp: list_all_iff list_ex_iff not_less)
      with ok[of e "fst (path ! i)" "g @ post" i] g i r0 new show ?thesis
        by (simp add: f s fwd_of_append span_of_append)
    next
      case post
      then have "a \<notin> set pre" "a \<noteq> x" using d x by auto
      then have "i < level sl \<Longrightarrow> fst (path ! i) \<noteq> a" using mem[of i] by auto
      with \<open>a \<noteq> x\<close> ok[of "pre @ b'" a c i] post i lv show ?thesis by (auto simp: f s)
    qed
  qed
  then show "node_ok ?s a (c @ [])" by (simp add: node_ok_def h le)
qed

section \<open>Taking a node out\<close>

lemma unlink_links:
  assumes L: "linked sl (pre @ x # post) []" and d: "distinct (pre @ x # post)"
    and path: "\<And>i. i < level sl \<Longrightarrow> at_level sl i pre (path ! i)" and top: "height sl x \<le> level sl"
  shows "linked (fold (unlink_level x path) [0..<level sl] sl) (pre @ post) []"
    (is "linked ?s _ _")
  unfolding linked_iff
proof (intro allI impI)
  fix b a c assume eq: "pre @ post = b @ a # c"
  have mem: "i < level sl \<Longrightarrow> fst (path ! i) \<in> set pre \<and> i < height sl (fst (path ! i))" for i
    using at_level_mem path by blast
  have "i < level sl \<Longrightarrow> fst (path ! i) \<noteq> x \<and> i < height sl (fst (path ! i))" for i
    using mem[of i] d by auto
  note u = unlink_fold[of "level sl" path x sl, OF this]
  have h: "height ?s = height sl" and le: "level ?s = level sl"
    using same_frame_folds by (auto simp: fold_heights same_frame_def fun_eq_iff)
  have ok: "pre @ x # post = b' @ n # c' \<Longrightarrow> i < height sl n \<Longrightarrow> fwd sl n i = fwd_of (height sl) i c'
      \<and> (i < level sl \<longrightarrow> spn sl n i = span_of (height sl) i c')" for b' n c' i
    using L unfolding linked_iff node_ok_def by auto
  have "fwd ?s a i = fwd_of (height sl) i c \<and> (i < level sl \<longrightarrow> spn ?s a i = span_of (height sl) i c)"
    if i: "i < height sl a" for i
  proof -
    consider (pre) c' where "pre = b @ a # c'" "c = c' @ post" | (post) b' where "post = b' @ a # c"
      using split_between[OF eq] by blast
    then show ?thesis
    proof cases
      case pre
      then have ax: "a \<noteq> x" and o: "fwd sl a i = fwd_of (height sl) i (c' @ x # post)"
        "i < level sl \<Longrightarrow> spn sl a i = span_of (height sl) i (c' @ x # post)"
        using d ok[of b a "c' @ x # post" i] i by auto
      show ?thesis
      proof (cases "list_ex (\<lambda>a. i < height sl a) c'")
        case True
        have "i < level sl \<Longrightarrow> fst (path ! i) \<noteq> a"
        proof
          assume i: "i < level sl" and a: "fst (path ! i) = a"
          obtain e g where g: "pre = e @ a # g" "list_all (\<lambda>a. height sl a \<le> i) g"
            using path[OF i] a by (auto simp: at_level_def)
          have "e = b \<and> g = c'" using g(1) pre(1) d a append_Cons_eq_iff[of a e g b c'] by auto
          with g(2) True show False by (auto simp: list_all_iff list_ex_iff)
        qed
        with True ax show ?thesis by (auto simp: u o pre fwd_of_append span_of_append)
      next
        case False
        have at: "i < level sl \<Longrightarrow> path ! i = (a, int (length b))"
          using at_level_split[of sl i pre "fst (path ! i)" "snd (path ! i)" b a c'] path[of i] pre(1) i False
          by (auto simp: list_all_iff list_ex_iff not_less prod_eq_iff)
        have "fwd_of (height sl) i post \<noteq> Some x"
          using fwd_of_in[of "height sl" i post x] d by auto
        moreover have "i < height sl x \<Longrightarrow> fwd sl x i = fwd_of (height sl) i post
            \<and> spn sl x i = span_of (height sl) i post"
          using ok[of pre x post i] top by auto
        ultimately show ?thesis using False ax at top
          by (cases "i < height sl x"; cases "i < level sl")
            (simp_all add: u o pre fwd_of_append span_of_append)
      qed
    next
      case post
      then have "a \<notin> set pre" using d by auto
      then have "i < level sl \<Longrightarrow> fst (path ! i) \<noteq> a" using mem[of i] by auto
      with ok[of "pre @ x # b'" a c i] post i show ?thesis by (auto simp: u)
    qed
  qed
  then show "node_ok ?s a (c @ [])" by (simp add: node_ok_def h le)
qed

section \<open>Insert and Delete keep the list sorted and linked\<close>

text \<open>The walk of \<open>Insert\<close> and \<open>Delete\<close> stops behind the entries that precede the new key.\<close>

definition cut_at :: "skiplist \<Rightarrow> zkey \<Rightarrow> nat list \<Rightarrow> nat list \<Rightarrow> bool" where
  "cut_at sl k as bs \<longleftrightarrow> list_all (\<lambda>a. zk sl a < k) as \<and> list_all (\<lambda>a. k \<le> zk sl a) bs"

lemma splits_atI:
  assumes "\<And>b y d r s. as = b @ y # d \<Longrightarrow> r + s = int (length b) + 1 \<Longrightarrow> c r s (snodes sl y)"
    and "\<And>b y d r s. bs = b @ y # d \<Longrightarrow> r + s = int (length as) + int (length b) + 1 \<Longrightarrow> \<not> c r s (snodes sl y)"
  shows "splits_at sl c (h # as) bs"
  unfolding splits_at_def
proof (intro allI impI)
  fix b y d and r s :: int
  assume eq: "(h # as) @ bs = b @ y # d" and b: "b \<noteq> []" and rs: "r + s = int (length b)"
  then obtain b' where b': "b = h # b'" by (cases b) auto
  then have "as @ bs = b' @ y # d" using eq by simp
  from split_between[OF this] show "c r s (snodes sl y) = (length b < length (h # as))"
    using assms rs b' by fastforce
qed

lemma before_splits:
  assumes "cut_at sl (key_of sc m) as bs" and "\<not> f_nan sc"
    and "list_all (\<lambda>a. \<not> f_nan (score (snodes sl a))) (as @ bs)"
  shows "splits_at sl (before sc m) (h # as) bs"
  using assms
  by (intro splits_atI) (auto simp: before_def key_lt cut_at_def zk_def list_all_iff not_less)

lemma sl_rel_keys_cong:
  "same_frame sl sl' \<Longrightarrow> zk sl' a = zk sl a \<and> entry sl' a = entry sl a"
  by (simp add: same_frame_def zk_def entry_def)

lemma back_ok_cong:
  "(\<And>a. a \<in> set xs \<Longrightarrow> backward (snodes sl' a) = backward (snodes sl a)) \<Longrightarrow> back_ok sl' q xs = back_ok sl q xs"
  by (induction xs arbitrary: q) auto

lemma raise_fold:
  assumes "n \<le> height sl (header sl)"
  shows "same_frame sl (fold (\<lambda>i sl. set_spn (header sl) i (slength sl) sl) [k..<n] sl)
    \<and> fwd (fold (\<lambda>i sl. set_spn (header sl) i (slength sl) sl) [k..<n] sl) a j = fwd sl a j
    \<and> spn (fold (\<lambda>i sl. set_spn (header sl) i (slength sl) sl) [k..<n] sl) a j =
      (if k \<le> j \<and> j < n \<and> a = header sl then slength sl else spn sl a j)"
  using assms
proof (induction n arbitrary: a j)
  case (Suc n)
  let ?s = "fold (\<lambda>i sl. set_spn (header sl) i (slength sl) sl) [k..<n] sl"
  have IH: "same_frame sl ?s" "fwd ?s a j = fwd sl a j"
    "spn ?s a j = (if k \<le> j \<and> j < n \<and> a = header sl then slength sl else spn sl a j)" for a j
    using Suc by simp_all
  moreover from this have "n < height ?s (header sl)" "header ?s = header sl" "slength ?s = slength sl"
    using Suc.prems by (auto simp: same_frame_def)
  ultimately show ?case
    using same_frame_write(2)[OF IH(1)] by (auto simp: less_Suc_eq)
qed simp

lemma same_frame_level:
  "same_frame sl s \<Longrightarrow> n = m \<Longrightarrow> same_frame (sl\<lparr>level := n\<rparr>) (s\<lparr>level := m\<rparr>)"
  by (simp add: same_frame_def height_def)

lemma level_update [simp]:
  "height (sl\<lparr>level := n\<rparr>) a = height sl a" "fwd (sl\<lparr>level := n\<rparr>) a i = fwd sl a i"
  "spn (sl\<lparr>level := n\<rparr>) a i = spn sl a i"
  by (simp_all add: height_def fwd_def spn_def)

lemma fwd_of_low: "list_all (\<lambda>a. H a \<le> i) ys \<Longrightarrow> fwd_of H i ys = None \<and> span_of H i ys = int (length ys)"
  by (induction ys) auto

lemma raise_level_rel:
  assumes R: "sl_rel sl ns" and lv: "lv \<le> skiplistMaxLevel"
  shows "sl_rel (raise_level lv sl) ns
    \<and> same_frame (sl\<lparr>level := max lv (level sl)\<rparr>) (raise_level lv sl)"
proof (cases "level sl < lv")
  case True
  let ?s = "fold (\<lambda>i sl. set_spn (header sl) i (slength sl) sl) [level sl..<lv] sl"
  have hd: "height sl (header sl) = skiplistMaxLevel" using R by (simp add: sl_rel_def)
  then have "lv \<le> height sl (header sl)" using lv by simp
  note f = raise_fold[OF this, of "level sl"]
  have fr: "same_frame sl ?s" using f by blast
  have r: "raise_level lv sl = ?s\<lparr>level := lv\<rparr>" using True by (simp add: raise_level_def)
  have sf: "same_frame (sl\<lparr>level := max lv (level sl)\<rparr>) (raise_level lv sl)"
    unfolding r using fr True by (intro same_frame_level) auto
  have h: "height (raise_level lv sl) = height sl"
    using fr by (simp add: r same_frame_def fun_eq_iff)
  have low: "list_all (\<lambda>a. height sl a \<le> level sl) ns" "header sl \<notin> set ns"
    "slength sl = int (length ns)" and L: "linked sl (header sl # ns) []"
    using R by (auto simp: sl_rel_def list_all_iff)
  have "linked (raise_level lv sl) (header sl # ns) []"
    unfolding linked_iff node_ok_def h
  proof (intro allI impI conjI)
    fix b a c i assume eq: "header sl # ns = b @ a # c" and i: "i < height sl a"
    have ok: "fwd sl a i = fwd_of (height sl) i c" "i < level sl \<Longrightarrow> spn sl a i = span_of (height sl) i c"
      using L eq i unfolding linked_iff node_ok_def by auto
    then show "fwd (raise_level lv sl) a i = fwd_of (height sl) i (c @ [])"
      using f by (simp add: r)
    assume "i < level (raise_level lv sl)"
    then have ilv: "i < lv" by (simp add: r)
    show "spn (raise_level lv sl) a i = span_of (height sl) i (c @ [])"
    proof (cases "i < level sl")
      case False
      then have "a = header sl" using low i eq by (cases b) (auto simp: list_all_iff)
      moreover have "c = ns" using eq low \<open>a = header sl\<close> by (cases b) auto
      moreover have "list_all (\<lambda>a. height sl a \<le> i) ns" using low False by (auto simp: list_all_iff)
      ultimately show ?thesis using f False ilv low by (simp add: r fwd_of_low)
    qed (use ok f in \<open>simp add: r\<close>)
  qed
  moreover have "zk (raise_level lv sl) = zk sl" "score (snodes (raise_level lv sl) a) = score (snodes sl a)" for a
    using fr by (auto simp: r zk_def same_frame_def fun_eq_iff)
  moreover have "back_ok (raise_level lv sl) None ns = back_ok sl None ns"
    using fr by (intro back_ok_cong) (simp add: r same_frame_def)
  ultimately have "sl_rel (raise_level lv sl) ns"
    using R sf lv True by (auto simp: sl_rel_def h same_frame_def list_all_iff)
  with sf show ?thesis by blast
next
  case False
  then have "sl\<lparr>level := max lv (level sl)\<rparr> = sl" by simp
  with False R show ?thesis by (simp add: raise_level_def)
qed

lemma new_node_simps [simp]:
  "height (new_node lv sc m sl) a = (if a = sfresh sl then lv else height sl a)"
  "a \<noteq> sfresh sl \<Longrightarrow> snodes (new_node lv sc m sl) a = snodes sl a"
  "snodes (new_node lv sc m sl) (sfresh sl) = newSkiplistNode lv sc m"
  "a \<noteq> sfresh sl \<Longrightarrow> fwd (new_node lv sc m sl) a i = fwd sl a i"
  "a \<noteq> sfresh sl \<Longrightarrow> spn (new_node lv sc m sl) a i = spn sl a i"
  "level (new_node lv sc m sl) = level sl" "header (new_node lv sc m sl) = header sl"
  "tail (new_node lv sc m sl) = tail sl" "slength (new_node lv sc m sl) = slength sl"
  "sfresh (new_node lv sc m sl) = Suc (sfresh sl)"
  by (simp_all add: new_node_def height_def newSkiplistNode_def fwd_def spn_def)

lemma close_insert_levels:
  "height (close_insert u x s) a = height s a" "fwd (close_insert u x s) a i = fwd s a i"
  "spn (close_insert u x s) a i = spn s a i" "member (snodes (close_insert u x s) a) = member (snodes s a)"
  "score (snodes (close_insert u x s) a) = score (snodes s a)" "level (close_insert u x s) = level s"
  "header (close_insert u x s) = header s" "sfresh (close_insert u x s) = sfresh s"
  "slength (close_insert u x s) = slength s + 1"
  by (auto simp: close_insert_def Let_def height_def fwd_def spn_def set_backward_def split: option.splits)

lemma close_insert_back:
  assumes "back_ok s None (as @ bs)" and "distinct (as @ x # bs)" and "header s \<notin> set as"
    and "fwd s x 0 = first_or bs None" and "u = (case as of [] \<Rightarrow> header s | _ \<Rightarrow> last as)"
  shows "back_ok (close_insert u x s) None (as @ x # bs)
    \<and> (tail s = last_or None (as @ bs) \<longrightarrow> tail (close_insert u x s) = last_or None (as @ x # bs))"
proof -
  have u: "(if u = header s then None else Some u) = last_or None as"
    using assms(3,5) last_in_set[of as] by (cases as) (auto simp: last_or_def)
  have b: "backward (snodes (close_insert u x s) a) =
      (if fwd s x 0 = Some a then Some x else if a = x then last_or None as else backward (snodes s a))" for a
    using assms(2,4) u by (cases bs) (auto simp: close_insert_def Let_def split: option.splits)
  have "back_ok (close_insert u x s) q xs = back_ok s q xs"
    if "x \<notin> set xs" "fwd s x 0 \<noteq> None \<Longrightarrow> the (fwd s x 0) \<notin> set xs" for q xs
    using that by (intro back_ok_cong) (auto simp: b)
  then have "back_ok (close_insert u x s) None as"
    "bs = y # ys \<Longrightarrow> back_ok (close_insert u x s) (Some y) ys" for y ys
    using assms by (cases bs; force)+
  moreover have "tail (close_insert u x s) = (if bs = [] then Some x else tail s)"
    using assms(4) by (cases bs) (auto simp: close_insert_def Let_def)
  ultimately show ?thesis using assms(2,4) by (cases bs) (auto simp: b last_or_append)
qed

lemma at_level_cong:
  "at_level sl i pre p \<Longrightarrow> (\<And>a. a \<in> set pre \<Longrightarrow> height sl' a = height sl a) \<Longrightarrow> at_level sl' i pre p"
  unfolding at_level_def by (metis (no_types, lifting) in_set_conv_decomp list.pred_mono_strong list.set_intros(2)
      Un_iff set_append)

lemma at_level_0:
  assumes "at_level sl 0 (h # as) p" and "list_all (\<lambda>a. 1 \<le> height sl a) as"
  shows "fst p = (case as of [] \<Rightarrow> h | _ \<Rightarrow> last as) \<and> snd p = int (length as)"
proof -
  obtain b c where p: "h # as = b @ fst p # c" "list_all (\<lambda>a. height sl a \<le> 0) c" "snd p = int (length b)"
    using assms(1) by (auto simp: at_level_def)
  have "c = []"
  proof (cases c)
    case (Cons z zs)
    then have "z \<in> set as" using p(1) by (cases b) auto
    then show ?thesis using assms(2) p(2) Cons by (auto simp: list_all_iff)
  qed
  then have "last (h # as) = fst p" "length b = length as" using p(1)
    by (metis last_snoc, metis add_diff_cancel_right' append_butlast_last_id length_butlast length_Cons
        length_append_singleton diff_Suc_1 p(1) \<open>c = []\<close>)
  with p(3) show ?thesis by (cases as) auto
qed

lemma fwd_of_first: "list_all (\<lambda>a. 1 \<le> H a) ys \<Longrightarrow> fwd_of H 0 ys = first_or ys None"
  by (cases ys) auto

lemma search_path:
  assumes R: "sl_rel sl (as @ bs)" and S: "splits_at sl c (header sl # as) bs"
  shows "length (descend sl c (level sl) (header sl) 0) = level sl
    \<and> (\<forall>i<level sl. at_level sl i (header sl # as) (descend sl c (level sl) (header sl) 0 ! i))"
proof (rule descend_at_level[OF _ S])
  show "linked sl ((header sl # as) @ bs) []" using R by (simp add: sl_rel_def)
  have "distinct (header sl # as)" "set (header sl # as) \<subseteq> {..<sfresh sl}"
    using R by (auto simp: sl_rel_def list_all_iff)
  then show "length (header sl # as) \<le> sfresh sl"
    using card_mono[of "{..<sfresh sl}" "set (header sl # as)"] by (simp only: distinct_card finite_lessThan card_lessThan)
  show "header sl # as = [] @ header sl # as" by simp
qed (use R in \<open>auto simp: sl_rel_def\<close>)

text \<open>
  The step of \<open>Insert\<close> behind \<open>raise_level\<close>: the list reaches the level of the new
  node already.
\<close>

lemma insert_node:
  assumes R: "sl_rel sl (as @ bs)" and lv: "1 \<le> lv" "lv \<le> level sl" and nan: "\<not> f_nan sc"
    and lt: "list_all (\<lambda>a. zk sl a < key_of sc m) as" and gt: "list_all (\<lambda>a. key_of sc m < zk sl a) bs"
    and path: "\<And>i. i < level sl \<Longrightarrow> at_level sl i (header sl # as) (path ! i)"
    and x: "x = sfresh sl"
    and sl': "sl' = fold (bump_span path) [lv..<level sl]
      (fold (link_level x path) [0..<lv] (new_node lv sc m sl))"
  shows "sl_rel (close_insert (fst (path ! 0)) x sl') (as @ x # bs)"
proof -
  let ?h = "header sl"
  have old: "linked sl (?h # as @ bs) []" "distinct (?h # as @ bs)" "x \<notin> set (?h # as @ bs)"
    "list_all (\<lambda>a. 1 \<le> height sl a \<and> height sl a \<le> level sl) (as @ bs)"
    "1 \<le> level sl" "height sl ?h = skiplistMaxLevel" "level sl \<le> skiplistMaxLevel"
    using R x by (auto simp: sl_rel_def list_all_iff)
  let ?a = "new_node lv sc m sl"
  have fr: "same_frame ?a sl'"
    unfolding sl' by (intro same_frame_trans[OF same_frame_folds(1) same_frame_folds(2)])
  then have h: "height sl' a = (if a = x then lv else height sl a)" for a
    by (simp add: same_frame_def x)
  have ne: "a \<in> set (?h # as @ bs) \<Longrightarrow> a \<noteq> sfresh sl" for a
    using old(3) x by auto
  have L2: "linked ?a ((?h # as) @ bs) []"
    by (rule linked_cong[of sl]) (use old ne in auto)
  have path2: "i < level sl \<Longrightarrow> at_level ?a i (?h # as) (path ! i)" for i
    using path[of i] by (rule at_level_cong) (use old x in auto)
  have p0: "fst (path ! 0) = (case as of [] \<Rightarrow> ?h | _ \<Rightarrow> last as)" "snd (path ! 0) = int (length as)"
    using at_level_0[OF path[of 0]] old by (auto simp: list_all_iff)
  have L4: "linked sl' ((?h # as) @ x # bs) []"
    unfolding sl' new_node_simps(6)[of lv sc m sl, symmetric]
    using old lv x path2 p0
    by (intro insert_links[OF L2]) (auto simp: list_all_iff simp del: new_node_simps(3))
  define e where "e = close_insert (fst (path ! 0)) x sl'"
  have lev: "height e = height sl'" "fwd e = fwd sl'" "spn e = spn sl'" "level e = level sl"
    "header e = ?h" "sfresh e = Suc x" "slength e = slength sl + 1"
    using fr by (auto simp: e_def close_insert_levels same_frame_def fun_eq_iff x)
  have "fwd sl' x 0 = fwd_of (height sl') 0 bs"
    using L4 lv by (simp add: node_ok_def h)
  also have "\<dots> = first_or bs None"
    using old by (intro fwd_of_first) (auto simp: h list_all_iff)
  finally have f0: "fwd sl' x 0 = first_or bs None" .
  have bk: "back_ok sl' None (as @ bs) = back_ok sl None (as @ bs)"
    by (rule back_ok_cong) (use fr ne in \<open>auto simp: same_frame_def\<close>)
  have hs: "header sl' = ?h" using fr by (simp add: same_frame_def)
  have "back_ok e None (as @ x # bs) \<and> (tail sl' = last_or None (as @ bs) \<longrightarrow> tail e = last_or None (as @ x # bs))"
    unfolding e_def using R old f0 bk
    by (intro close_insert_back) (auto simp: sl_rel_def p0 hs simp del: back_ok_append split: list.split)
  moreover have "tail sl' = tail sl" using fr by (simp add: same_frame_def)
  ultimately have B: "back_ok e None (as @ x # bs)" "tail e = last_or None (as @ x # bs)"
    using R by (simp_all add: sl_rel_def)
  have L5: "linked e ((?h # as) @ x # bs) []"
    by (rule linked_cong[OF L4]) (use lev fr in \<open>auto simp: same_frame_def\<close>)
  have ent: "member (snodes e a) = (if a = x then m else member (snodes sl a))"
    "score (snodes e a) = (if a = x then sc else score (snodes sl a))" for a
    using fr x by (auto simp: e_def close_insert_levels same_frame_def newSkiplistNode_def)
  have zk: "zk e a = (if a = x then key_of sc m else zk sl a)" for a
    by (simp add: zk_def ent)
  have "map (zk e) (as @ x # bs) = map (zk sl) as @ key_of sc m # map (zk sl) bs"
    using old(3) by (auto simp: zk)
  moreover have "sorted_wrt (<) (map (zk sl) as @ key_of sc m # map (zk sl) bs)"
    using R lt gt by (auto simp: sl_rel_def sorted_wrt_append list_all_iff)
  ultimately have srt: "sorted_wrt (<) (map (zk e) (as @ x # bs))" by (simp only:)
  have nn: "list_all (\<lambda>a. \<not> f_nan (score (snodes e a))) (as @ x # bs)"
    using R nan by (auto simp: sl_rel_def list_all_iff ent)
  have hh: "list_all (\<lambda>a. 1 \<le> height e a \<and> height e a \<le> level e) (as @ x # bs)"
    using old(4) lv by (auto simp: list_all_iff lev h)
  have ff: "list_all (\<lambda>a. a < sfresh e) (header e # as @ x # bs)"
    using R x by (auto simp: sl_rel_def list_all_iff lev less_Suc_eq)
  have len: "slength e = int (length (as @ x # bs))"
    using R by (simp add: sl_rel_def lev)
  have hm: "member (snodes e ?h) = []"
    using R old(3) by (auto simp: ent sl_rel_def)
  show ?thesis
    unfolding e_def[symmetric] sl_rel_def using hm L5 old(2,3,5,6,7) B srt nn hh ff len
    by (simp add: lev h)
qed

lemma Insert_rel:
  assumes R: "sl_rel sl (as @ bs)" and lv: "1 \<le> lv" "lv \<le> skiplistMaxLevel" and nan: "\<not> f_nan sc"
    and lt: "list_all (\<lambda>a. zk sl a < key_of sc m) as" and gt: "list_all (\<lambda>a. key_of sc m < zk sl a) bs"
  shows "sl_rel (Insert lv sc m sl) (as @ sfresh sl # bs)
    \<and> map (entry (Insert lv sc m sl)) (as @ sfresh sl # bs) = map (entry sl) as @ (m, sc) # map (entry sl) bs"
proof -
  let ?path = "descend sl (before sc m) (level sl) (header sl) 0 @ replicate (lv - level sl) (header sl, 0)"
  let ?s = "raise_level lv sl"
  let ?s' = "fold (bump_span ?path) [lv..<level ?s] (fold (link_level (sfresh ?s) ?path) [0..<lv] (new_node lv sc m ?s))"
  have rr: "sl_rel ?s (as @ bs)" and fr: "same_frame (sl\<lparr>level := max lv (level sl)\<rparr>) ?s"
    using raise_level_rel[OF R lv(2)] by blast+
  have frs: "height ?s a = height sl a" "header ?s = header sl" "level ?s = max lv (level sl)"
    "sfresh ?s = sfresh sl" "zk ?s a = zk sl a" "entry ?s a = entry sl a" for a
    using fr by (simp_all add: same_frame_def zk_def entry_def)
  have hd: "height sl (header sl) = skiplistMaxLevel" "list_all (\<lambda>a. height sl a \<le> level sl) as"
    "sfresh sl \<notin> set (as @ bs)"
    using R by (auto simp: sl_rel_def list_all_iff)
  have "splits_at sl (before sc m) (header sl # as) bs"
    using R lt gt nan by (intro before_splits) (auto simp: sl_rel_def cut_at_def list_all_iff)
  note sp = search_path[OF R this]
  have path: "at_level ?s i (header ?s # as) (?path ! i)" if "i < level ?s" for i
  proof -
    have "at_level sl i (header sl # as) (?path ! i)"
    proof (cases "i < level sl")
      case True
      with sp show ?thesis by (simp add: nth_append)
    next
      case False
      moreover from this have "?path ! i = (header sl, 0)" using sp that by (simp add: nth_append frs)
      moreover have "list_all (\<lambda>a. height sl a \<le> i) as" using hd False by (auto simp: list_all_iff)
      ultimately show ?thesis using hd that lv R unfolding at_level_def
        by (intro exI[of _ "[]"] exI[of _ as]) (auto simp: frs sl_rel_def)
    qed
    then show ?thesis unfolding frs(2) by (rule at_level_cong) (simp add: frs)
  qed
  have ins: "Insert lv sc m sl = close_insert (fst (?path ! 0)) (sfresh ?s) ?s'"
  proof -
    have "level (fold (link_level x path) [0..<lv] s) = level s" for x path s
      using same_frame_folds(1)[of s x path "[0..<lv]"] by (simp add: same_frame_def)
    then show ?thesis by (simp add: Insert_def Let_def)
  qed
  have "same_frame (new_node lv sc m ?s) ?s'"
    by (intro same_frame_trans[OF same_frame_folds(1) same_frame_folds(2)])
  then have "entry ?s' a = entry (new_node lv sc m ?s) a" for a
    by (simp only: sl_rel_keys_cong)
  moreover have "entry (new_node lv sc m ?s) a = (if a = sfresh sl then (m, sc) else entry ?s a)" for a
    by (simp add: entry_def newSkiplistNode_def frs(4)[symmetric])
  moreover have "entry (Insert lv sc m sl) a = entry ?s' a" for a
    by (simp only: ins entry_def close_insert_levels)
  ultimately have "entry (Insert lv sc m sl) a = (if a = sfresh sl then (m, sc) else entry sl a)" for a
    by (simp only: frs)
  moreover have "sl_rel (Insert lv sc m sl) (as @ sfresh ?s # bs)"
    unfolding ins using lv nan lt gt path
    by (intro insert_node[OF rr _ _ _ _ _ _ refl refl]) (auto simp: frs)
  ultimately show ?thesis using hd(3) by (auto simp: frs)
qed

text \<open>Deletion.\<close>

lemma linked_lower:
  "linked sl xs rest \<Longrightarrow> n \<le> level sl \<Longrightarrow> linked (sl\<lparr>level := n\<rparr>) xs rest"
proof (induction xs)
  case (Cons a xs)
  have "height (sl\<lparr>level := n\<rparr>) = height sl" by (simp add: fun_eq_iff)
  with Cons show ?case by (simp add: node_ok_def)
qed simp

lemma shrink_level_range: "shrink_level sl n \<le> n" "0 < n \<Longrightarrow> 0 < shrink_level sl n"
  by (induction n) auto

lemma shrink_level_empty: "shrink_level sl n \<le> i \<Longrightarrow> i < n \<Longrightarrow> 0 < i \<Longrightarrow> fwd sl (header sl) i = None"
  by (induction n) (auto simp: less_Suc_eq split: if_splits)

lemma fwd_of_None_iff: "fwd_of H i ys = None \<longleftrightarrow> list_all (\<lambda>a. H a \<le> i) ys"
  by (induction ys) auto

lemma shrink_level_heights:
  assumes "node_ok sl (header sl) ns" and "list_all (\<lambda>a. height sl a \<le> level sl) ns"
    and "level sl \<le> height sl (header sl)" and "0 < level sl"
  shows "list_all (\<lambda>a. height sl a \<le> shrink_level sl (level sl)) ns"
proof (rule ccontr)
  assume "\<not> ?thesis"
  then obtain a where a: "a \<in> set ns" "shrink_level sl (level sl) < height sl a"
    by (auto simp: list_all_iff)
  then have "height sl a \<le> level sl" using assms(2) by (auto simp: list_all_iff)
  then have lt: "shrink_level sl (level sl) < level sl" using a by simp
  moreover have "0 < shrink_level sl (level sl)" using shrink_level_range(2)[OF assms(4)] .
  ultimately have "fwd sl (header sl) (shrink_level sl (level sl)) = None"
    by (intro shrink_level_empty) auto
  then have "fwd_of (height sl) (shrink_level sl (level sl)) ns = None"
    using assms(1,3) lt by (simp add: node_ok_def)
  then show False using a by (auto simp: fwd_of_None_iff list_all_iff)
qed

lemma bypass_back_levels:
  "height (bypass_back x s) a = height s a" "fwd (bypass_back x s) a i = fwd s a i"
  "spn (bypass_back x s) a i = spn s a i" "member (snodes (bypass_back x s) a) = member (snodes s a)"
  "score (snodes (bypass_back x s) a) = score (snodes s a)" "level (bypass_back x s) = level s"
  "header (bypass_back x s) = header s" "sfresh (bypass_back x s) = sfresh s"
  "slength (bypass_back x s) = slength s"
  by (auto simp: bypass_back_def height_def fwd_def spn_def set_backward_def split: option.splits)

lemma bypass_back_back:
  assumes "back_ok s None (as @ x # bs)" and "distinct (as @ x # bs)" and "fwd s x 0 = first_or bs None"
  shows "back_ok (bypass_back x s) None (as @ bs)
    \<and> (tail s = last_or None (as @ x # bs) \<longrightarrow> tail (bypass_back x s) = last_or None (as @ bs))"
proof -
  have b: "backward (snodes (bypass_back x s) a) =
      (if fwd s x 0 = Some a then last_or None as else backward (snodes s a))" for a
    using assms(1) by (auto simp: bypass_back_def split: option.splits)
  have "back_ok (bypass_back x s) q xs = back_ok s q xs"
    if "fwd s x 0 \<noteq> None \<Longrightarrow> the (fwd s x 0) \<notin> set xs" for q xs
    using that by (intro back_ok_cong) (auto simp: b)
  then have "back_ok (bypass_back x s) None as"
    "bs = y # ys \<Longrightarrow> back_ok (bypass_back x s) (Some y) ys" for y ys
    using assms by (cases bs; force)+
  moreover have "tail (bypass_back x s) = (if bs = [] then last_or None as else tail s)"
    using assms(1,3) by (cases bs) (auto simp: bypass_back_def)
  ultimately show ?thesis using assms(2,3) by (cases bs) (auto simp: b)
qed

lemma deleteNode_rel:
  assumes R: "sl_rel sl (as @ x # bs)"
    and path: "\<And>i. i < level sl \<Longrightarrow> at_level sl i (header sl # as) (path ! i)"
  shows "sl_rel (deleteNode x path sl) (as @ bs) \<and> (\<forall>a. entry (deleteNode x path sl) a = entry sl a)"
proof -
  let ?h = "header sl"
  define s where "s = fold (unlink_level x path) [0..<level sl] sl"
  have fr: "same_frame sl s" unfolding s_def by (rule same_frame_folds)
  have old: "linked sl ((?h # as) @ x # bs) []" "distinct ((?h # as) @ x # bs)"
    "list_all (\<lambda>a. 1 \<le> height sl a \<and> height sl a \<le> level sl) (as @ x # bs)"
    "1 \<le> level sl" "height sl ?h = skiplistMaxLevel" "level sl \<le> skiplistMaxLevel"
    using R by (auto simp: sl_rel_def list_all_iff)
  have L: "linked s ((?h # as) @ bs) []"
    unfolding s_def using old path by (intro unlink_links[OF old(1)]) auto
  have px: "i < level sl \<Longrightarrow> fst (path ! i) \<noteq> x \<and> i < height sl (fst (path ! i))" for i
    using at_level_mem[OF path[of i]] old(2) by auto
  have "fwd s x 0 = fwd sl x 0"
    using unlink_fold[of "level sl" path x sl x 0, OF px] px[of 0] old(4) by (auto simp: s_def)
  also have "\<dots> = first_or bs None"
    using old fwd_of_first[of "height sl" bs] by (auto simp: node_ok_def list_all_iff)
  finally have f0: "fwd s x 0 = first_or bs None" .
  define b where "b = bypass_back x s"
  define n where "n = shrink_level b (level b)"
  define e where "e = b\<lparr>level := n, slength := slength b - 1\<rparr>"
  have e: "deleteNode x path sl = e"
    by (simp add: deleteNode_def Let_def e_def n_def b_def s_def)
  have lev: "height b = height sl" "fwd b = fwd s" "spn b = spn s" "level b = level sl" "header b = ?h"
    "sfresh b = sfresh sl" "slength b = slength sl" "tail s = tail sl" "header s = ?h" "height s = height sl"
    using fr by (auto simp: b_def bypass_back_levels same_frame_def fun_eq_iff)
  have "back_ok s None (as @ x # bs)"
    using back_ok_cong[of "as @ x # bs" s sl None] fr R by (simp add: same_frame_def sl_rel_def)
  from bypass_back_back[OF this _ f0] R have B: "back_ok b None (as @ bs)" "tail b = last_or None (as @ bs)"
    by (simp_all add: b_def lev sl_rel_def)
  have Lb: "linked b ((?h # as) @ bs) []"
    by (rule linked_cong[OF L]) (simp_all add: lev b_def bypass_back_levels)
  have n: "n \<le> level sl" "1 \<le> n"
    using shrink_level_range(1)[of b "level b"] shrink_level_range(2)[of "level b" b] old(4)
    by (auto simp: n_def lev)
  have "list_all (\<lambda>a. height b a \<le> n) (as @ bs)"
    unfolding n_def using Lb old by (intro shrink_level_heights) (auto simp: lev list_all_iff)
  then have hh: "list_all (\<lambda>a. 1 \<le> height e a \<and> height e a \<le> level e) (as @ bs)"
    using old(3) lev(1) by (auto simp: list_all_iff e_def height_def fun_eq_iff)
  have eh: "height e = height b" by (simp add: e_def height_def fun_eq_iff)
  have es: "header e = ?h" "sfresh e = sfresh sl" "level e = n" "snodes e = snodes b"
    "tail e = tail b" "slength e = slength sl - 1"
    by (simp_all add: e_def lev)
  have "linked e ((?h # as) @ bs) [] = linked (b\<lparr>level := n\<rparr>) ((?h # as) @ bs) []"
    by (intro iffI; rule linked_cong, assumption) (simp_all add: e_def height_def fwd_def spn_def)
  then have Le: "linked e (?h # as @ bs) []"
    using linked_lower[OF Lb] n(1) by (simp add: lev)
  have ent: "entry e a = entry sl a" "zk e a = zk sl a" "score (snodes e a) = score (snodes sl a)" for a
    using fr by (auto simp: entry_def zk_def es b_def bypass_back_levels same_frame_def)
  then have ez: "zk e = zk sl" by auto
  have em: "member (snodes e a) = member (snodes sl a)" for a
    using ent(1) by (simp add: entry_def)
  have "back_ok e None (as @ bs) = back_ok b None (as @ bs)"
    by (rule back_ok_cong) (simp add: es)
  then have "sl_rel e (as @ bs)"
    unfolding sl_rel_def using R Le B hh n old(5,6)
    by (simp add: es(1,2,3,5,6) eh lev ez em ent sl_rel_def sorted_wrt_append)
  with e ent show ?thesis by simp
qed

section \<open>The sorted sequence of entries\<close>

text \<open>
  What the skip list stands for: its entries, sorted by score and then by member.
  \<open>z_insert\<close>, \<open>z_delete\<close> and the other functions on such sequences are what the
  operations promise.
\<close>

definition ekey :: "string \<times> float64 \<Rightarrow> zkey" where "ekey e = key_of (snd e) (fst e)"

definition sl_view :: "skiplist \<Rightarrow> (string \<times> float64) list \<Rightarrow> bool" where
  "sl_view sl es \<longleftrightarrow> (\<exists>ns. sl_rel sl ns \<and> es = map (entry sl) ns)"

definition z_insert :: "string \<times> float64 \<Rightarrow> (string \<times> float64) list \<Rightarrow> (string \<times> float64) list" where
  "z_insert e es = takeWhile (\<lambda>x. ekey x < ekey e) es @ e # dropWhile (\<lambda>x. ekey x < ekey e) es"

definition z_delete :: "string \<times> float64 \<Rightarrow> (string \<times> float64) list \<Rightarrow> (string \<times> float64) list" where
  "z_delete e es = filter (\<lambda>x. ekey x \<noteq> ekey e) es"

lemma ekey_entry [simp]: "ekey (entry sl a) = zk sl a"
  by (simp add: ekey_def entry_def zk_def)

lemma fst_entry [simp]: "fst (entry sl a) = member (snodes sl a)"
  and snd_entry [simp]: "snd (entry sl a) = score (snodes sl a)"
  by (simp_all add: entry_def)

lemma sl_view_sorted:
  "sl_view sl es \<Longrightarrow> sorted_wrt (<) (map ekey es) \<and> list_all (\<lambda>e. \<not> f_nan (snd e)) es
    \<and> slength sl = int (length es)"
  unfolding sl_view_def sl_rel_def by (elim exE conjE) (simp add: list_all_iff comp_def)

lemma sl_view_New: "sl_view NewSkiplist []"
  by (auto simp: sl_view_def sl_rel_def NewSkiplist_def node_ok_def height_def fwd_def spn_def
      newSkiplistNode_def skiplistMaxLevel_def intro!: exI[of _ "[]"])

lemma take_drop_key:
  fixes f :: "'a \<Rightarrow> zkey"
  assumes "sorted_wrt (<) (map f xs)"
  shows "list_all (\<lambda>a. f a < k) (takeWhile (\<lambda>a. f a < k) xs)"
    and "list_all (\<lambda>a. k \<le> f a) (dropWhile (\<lambda>a. f a < k) xs)"
proof -
  show "list_all (\<lambda>a. f a < k) (takeWhile (\<lambda>a. f a < k) xs)"
    by (auto simp: list_all_iff dest: set_takeWhileD)
  show "list_all (\<lambda>a. k \<le> f a) (dropWhile (\<lambda>a. f a < k) xs)"
    using assms by (induction xs) (auto simp: list_all_iff not_less intro: order.trans less_imp_le)
qed

lemma sl_view_Insert:
  assumes "sl_view sl es" and "1 \<le> lv" "lv \<le> skiplistMaxLevel" and "\<not> f_nan sc"
    and "key_of sc m \<notin> ekey ` set es"
  shows "sl_view (Insert lv sc m sl) (z_insert (m, sc) es)"
proof -
  let ?k = "key_of sc m"
  obtain ns where R: "sl_rel sl ns" and es: "es = map (entry sl) ns"
    using assms(1) by (auto simp: sl_view_def)
  let ?as = "takeWhile (\<lambda>a. zk sl a < ?k) ns" and ?bs = "dropWhile (\<lambda>a. zk sl a < ?k) ns"
  have srt: "sorted_wrt (<) (map (zk sl) ns)" using R by (simp add: sl_rel_def)
  have "list_all (\<lambda>a. ?k < zk sl a) ?bs"
    using take_drop_key(2)[OF srt, of ?k] assms(5)
    by (auto simp: list_all_iff es image_image image_iff order.order_iff_strict dest: set_dropWhileD)
  with R take_drop_key(1)[OF srt, of ?k] assms(2-4)
  have "sl_rel (Insert lv sc m sl) (?as @ sfresh sl # ?bs)
    \<and> map (entry (Insert lv sc m sl)) (?as @ sfresh sl # ?bs) = map (entry sl) ?as @ (m, sc) # map (entry sl) ?bs"
    by (intro Insert_rel) auto
  moreover have "z_insert (m, sc) es = map (entry sl) ?as @ (m, sc) # map (entry sl) ?bs"
    by (simp add: z_insert_def es takeWhile_map dropWhile_map comp_def) (simp add: ekey_def)
  ultimately show ?thesis unfolding sl_view_def by metis
qed

lemma search_next:
  assumes R: "sl_rel sl (as @ bs)" and S: "splits_at sl c (header sl # as) bs"
  shows "fst (descend sl c (level sl) (header sl) 0 ! 0) = (case as of [] \<Rightarrow> header sl | _ \<Rightarrow> last as)"
    and "fwd sl (fst (descend sl c (level sl) (header sl) 0 ! 0)) 0 = first_or bs None"
proof -
  let ?u = "fst (descend sl c (level sl) (header sl) 0 ! 0)"
  have hd: "1 \<le> level sl" "list_all (\<lambda>a. 1 \<le> height sl a) (as @ bs)" "0 < height sl (header sl)"
    using R by (auto simp: sl_rel_def list_all_iff)
  have at0: "at_level sl 0 (header sl # as) (descend sl c (level sl) (header sl) 0 ! 0)"
    using search_path[OF R S] hd by auto
  show u: "?u = (case as of [] \<Rightarrow> header sl | _ \<Rightarrow> last as)"
    using at_level_0[OF at0] hd by simp
  have "header sl # as = butlast (header sl # as) @ [?u]"
    using u append_butlast_last_id[of "header sl # as"] by (cases as) auto
  moreover have "linked sl ((header sl # as) @ bs) []" using R by (simp add: sl_rel_def)
  ultimately have "node_ok sl ?u bs"
    by (metis append.right_neutral linked.simps(2) linked_append append.left_neutral)
  then show "fwd sl ?u 0 = first_or bs None"
    using at_level_mem[OF at0] fwd_of_first[of "height sl" bs] hd by (auto simp: node_ok_def)
qed

lemma Delete_rel:
  assumes R: "sl_rel sl (as @ bs)" and nan: "\<not> f_nan sc" and cut: "cut_at sl (key_of sc m) as bs"
  shows "Delete sc m sl = (case bs of [] \<Rightarrow> (False, sl)
     | x # _ \<Rightarrow> if zk sl x = key_of sc m
         then (True, deleteNode x (descend sl (before sc m) (level sl) (header sl) 0) sl) else (False, sl))"
    and "bs = x # bs' \<Longrightarrow> sl_rel (deleteNode x (descend sl (before sc m) (level sl) (header sl) 0) sl) (as @ bs')"
    and "bs = x # bs' \<Longrightarrow> entry (deleteNode x (descend sl (before sc m) (level sl) (header sl) 0) sl) a = entry sl a"
proof -
  have nn: "list_all (\<lambda>a. \<not> f_nan (score (snodes sl a))) (as @ bs)" using R by (simp add: sl_rel_def)
  have S: "splits_at sl (before sc m) (header sl # as) bs" using cut nan nn by (rule before_splits)
  show "Delete sc m sl = (case bs of [] \<Rightarrow> (False, sl)
     | x # _ \<Rightarrow> if zk sl x = key_of sc m
         then (True, deleteNode x (descend sl (before sc m) (level sl) (header sl) 0) sl) else (False, sl))"
    using nn nan by (cases bs)
      (auto simp: Delete_def Let_def search_next(2)[OF R S] zk_def key_of_def f_eq_def)
  assume "bs = x # bs'"
  with R search_path[OF R S] have
    "sl_rel (deleteNode x (descend sl (before sc m) (level sl) (header sl) 0) sl) (as @ bs')
      \<and> (\<forall>a. entry (deleteNode x (descend sl (before sc m) (level sl) (header sl) 0) sl) a = entry sl a)"
    by (intro deleteNode_rel) auto
  then show "sl_rel (deleteNode x (descend sl (before sc m) (level sl) (header sl) 0) sl) (as @ bs')"
    and "entry (deleteNode x (descend sl (before sc m) (level sl) (header sl) 0) sl) a = entry sl a" by auto
qed

lemma sl_rel_cut:
  assumes "sl_rel sl ns"
  obtains as bs where "ns = as @ bs" "cut_at sl k as bs"
    "k \<in> zk sl ` set ns \<longleftrightarrow> (\<exists>x bs'. bs = x # bs' \<and> zk sl x = k)"
    "bs = [] \<or> zk sl (hd bs) \<noteq> k \<Longrightarrow> filter (\<lambda>a. zk sl a \<noteq> k) ns = ns"
    "\<And>x bs'. bs = x # bs' \<Longrightarrow> zk sl x = k \<Longrightarrow> filter (\<lambda>a. zk sl a \<noteq> k) ns = as @ bs'"
proof -
  have "sorted_wrt (<) (map (zk sl) ns)" using assms by (simp add: sl_rel_def)
  from take_drop_key[OF this, of k] obtain as bs where ns: "ns = as @ bs"
    and ta: "\<And>a. a \<in> set as \<Longrightarrow> zk sl a < k" and tb: "\<And>a. a \<in> set bs \<Longrightarrow> k \<le> zk sl a"
    using takeWhile_dropWhile_id[of "\<lambda>a. zk sl a < k" ns] unfolding list_all_iff by metis
  have hd: "k < zk sl a" if "bs = x # bs'" "a \<in> set bs'" for x bs' a
    using assms tb[of x] that by (auto simp: ns sl_rel_def sorted_wrt_append)
  show thesis
  proof (rule that[OF ns])
    show "cut_at sl k as bs" using ta tb by (auto simp: cut_at_def list_all_iff)
    show "k \<in> zk sl ` set ns \<longleftrightarrow> (\<exists>x bs'. bs = x # bs' \<and> zk sl x = k)"
    proof (cases bs)
      case Nil
      then show ?thesis using ta by (auto simp: ns)
    next
      case (Cons x bs')
      then have "a \<in> set bs' \<Longrightarrow> zk sl a \<noteq> k" for a using hd[OF Cons] by blast
      moreover have "a \<in> set as \<Longrightarrow> zk sl a \<noteq> k" for a using ta by blast
      ultimately show ?thesis by (auto simp: ns Cons image_iff)
    qed
  next
    assume n: "bs = [] \<or> zk sl (hd bs) \<noteq> k"
    then show "filter (\<lambda>a. zk sl a \<noteq> k) ns = ns"
    proof (cases bs)
      case Nil
      then show ?thesis using ta by (auto simp: ns filter_id_conv)
    next
      case (Cons x bs')
      then have "a \<in> set bs' \<Longrightarrow> zk sl a \<noteq> k" for a using hd[OF Cons] by blast
      moreover have "a \<in> set as \<Longrightarrow> zk sl a \<noteq> k" for a using ta by blast
      ultimately show ?thesis using n by (auto simp: ns Cons filter_id_conv)
    qed
  next
    fix x bs' assume b: "bs = x # bs'" "zk sl x = k"
    show "filter (\<lambda>a. zk sl a \<noteq> k) ns = as @ bs'"
    proof -
      have "a \<in> set bs' \<Longrightarrow> zk sl a \<noteq> k" for a using hd[OF b(1)] by blast
      moreover have "a \<in> set as \<Longrightarrow> zk sl a \<noteq> k" for a using ta by blast
      ultimately show ?thesis using b by (auto simp: ns filter_id_conv)
    qed
  qed
qed

lemma sl_view_Delete:
  assumes "sl_view sl es" and "\<not> f_nan sc"
  shows "sl_view (snd (Delete sc m sl)) (z_delete (m, sc) es)
    \<and> fst (Delete sc m sl) = (key_of sc m \<in> ekey ` set es)"
proof -
  obtain ns where R: "sl_rel sl ns" and es: "es = map (entry sl) ns"
    using assms(1) by (auto simp: sl_view_def)
  obtain as bs where ns: "ns = as @ bs" and cut: "cut_at sl (key_of sc m) as bs"
    and mem: "key_of sc m \<in> zk sl ` set ns \<longleftrightarrow> (\<exists>x bs'. bs = x # bs' \<and> zk sl x = key_of sc m)"
    and out: "bs = [] \<or> zk sl (hd bs) \<noteq> key_of sc m \<Longrightarrow> filter (\<lambda>a. zk sl a \<noteq> key_of sc m) ns = ns"
    and hit: "\<And>x bs'. bs = x # bs' \<Longrightarrow> zk sl x = key_of sc m \<Longrightarrow> filter (\<lambda>a. zk sl a \<noteq> key_of sc m) ns = as @ bs'"
    using sl_rel_cut[OF R, of "key_of sc m"] by blast
  have zd: "z_delete (m, sc) es = map (entry sl) (filter (\<lambda>a. zk sl a \<noteq> key_of sc m) ns)"
    by (simp add: z_delete_def es filter_map comp_def) (simp add: ekey_def)
  have me: "key_of sc m \<in> ekey ` set es \<longleftrightarrow> key_of sc m \<in> zk sl ` set ns"
    by (simp add: es image_image)
  note D = Delete_rel[OF R[unfolded ns] assms(2) cut]
  show ?thesis
  proof (cases "bs \<noteq> [] \<and> zk sl (hd bs) = key_of sc m")
    case False
    then have "Delete sc m sl = (False, sl)" by (auto simp: D(1) split: list.split)
    with False R out mem show ?thesis by (auto simp: zd me sl_view_def)
  next
    case True
    then obtain x bs' where b: "bs = x # bs'" "zk sl x = key_of sc m" by (cases bs) auto
    define s where "s = deleteNode x (descend sl (before sc m) (level sl) (header sl) 0) sl"
    have "Delete sc m sl = (True, s)" by (simp add: D(1) b s_def)
    moreover have "sl_rel s (as @ bs')" "map (entry s) (as @ bs') = map (entry sl) (as @ bs')"
      using D(2,3)[OF b(1)] by (auto simp: s_def)
    ultimately show ?thesis using mem b hit[OF b] unfolding sl_view_def zd me by auto
  qed
qed

end
