(* ===== verification/Skip_List_Range.thy ===== *)
theory Skip_List_Range
  imports Skip_List_Correct
begin

text \<open>
  The queries of the skip list: ranks, ranges by rank, ranges and counts by score,
  read off the sorted sequence of entries.
\<close>

section \<open>Following pointers\<close>

fun follows :: "(nat \<Rightarrow> nat option) \<Rightarrow> nat option \<Rightarrow> nat list \<Rightarrow> bool" where
  "follows nxt p [] = (p = None)"
| "follows nxt p (a # as) = (p = Some a \<and> follows nxt (nxt a) as)"

lemma linked_follows:
  "linked sl as [] \<Longrightarrow> list_all (\<lambda>a. 1 \<le> height sl a) as \<Longrightarrow> follows (\<lambda>a. fwd sl a 0) (first_or as None) as"
proof (induction as)
  case (Cons a as)
  then have "fwd sl a 0 = first_or as None"
    using fwd_of_first[of "height sl" as] by (auto simp: node_ok_def)
  with Cons show ?case by simp
qed simp

lemma back_follows:
  "back_ok sl None as \<Longrightarrow> follows (\<lambda>a. backward (snodes sl a)) (last_or None as) (rev as)"
proof (induction as rule: rev_induct)
  case (snoc a as)
  then show ?case by (simp add: last_or_append)
qed simp

definition paged :: "int \<Rightarrow> int \<Rightarrow> 'a list \<Rightarrow> 'a list" where
  "paged offset cnt xs =
     (let ys = drop (nat offset) xs in if 0 < cnt then take (nat cnt) ys else ys)"

lemma scan_range_follows:
  "follows nxt p as \<Longrightarrow> length as < fuel \<Longrightarrow> 0 < cnt \<longrightarrow> int (length result) < cnt \<Longrightarrow>
    scan_range sl fuel nxt c offset cnt skipped result p = result @
      (let ys = drop (nat (offset - skipped)) (map (entry sl) (takeWhile c as))
       in if 0 < cnt then take (nat cnt - length result) ys else ys)"
proof (induction sl fuel nxt c offset cnt skipped result p arbitrary: as rule: scan_range.induct)
  case (2 sl fuel nxt c offset cnt skipped result p)
  show ?case
  proof (cases as)
    case (Cons a as')
    then have p: "p = Some a" "follows nxt (nxt a) as'" "length as' < fuel" using "2.prems" by auto
    show ?thesis
    proof (cases "c a")
      case False
      with Cons p show ?thesis by simp
    next
      case c: True
      show ?thesis
      proof (cases "skipped < offset")
        case True
        then have "nat (offset - skipped) = Suc (nat (offset - (skipped + 1)))" by linarith
        with "2.IH"(1)[OF p(1) _ True p(2,3)] c True Cons p "2.prems"(3) show ?thesis by simp
      next
        case False
        show ?thesis
        proof (cases "0 < cnt \<and> cnt \<le> int (length (result @ [entry sl a]))")
          case True
          then have "nat cnt - length result = 1" using "2.prems"(3) by auto
          with c False True Cons p show ?thesis by simp
        next
          case more: False
          then have "0 < cnt \<longrightarrow> int (length (result @ [entry sl a])) < cnt"
            and "0 < cnt \<Longrightarrow> nat cnt - length result = Suc (nat cnt - Suc (length result))" by auto
          with "2.IH"(2)[OF p(1) _ False refl _ p(2,3)] c False more Cons p show ?thesis
            by (simp add: Let_def)
        qed
      qed
    qed
  qed (use "2.prems" in simp)
qed simp

lemma collect_forward_follows:
  "follows (\<lambda>a. fwd sl a 0) p as \<Longrightarrow> collect_forward sl k p = take k (map (entry sl) as)"
proof (induction k arbitrary: p as)
  case (Suc k)
  then show ?case by (cases as) auto
qed simp

lemma count_upto_follows:
  "follows (\<lambda>a. fwd sl a 0) p as \<Longrightarrow> length as < fuel \<Longrightarrow>
    count_upto sl fuel mx p = int (length (takeWhile (\<lambda>a. f_le (score (snodes sl a)) mx) as))"
proof (induction fuel arbitrary: p as)
  case (Suc fuel)
  then show ?case by (cases as) auto
qed simp

lemma sl_rel_parts:
  assumes "sl_rel sl (as @ bs)"
  shows "follows (\<lambda>a. fwd sl a 0) (first_or bs None) bs"
    and "follows (\<lambda>a. backward (snodes sl a)) (last_or None as) (rev as)"
    and "length (as @ bs) < sfresh sl"
proof -
  have "linked sl bs []" "list_all (\<lambda>a. 1 \<le> height sl a) bs" "back_ok sl None as"
    using assms by (auto simp: sl_rel_def list_all_iff)
  then show "follows (\<lambda>a. fwd sl a 0) (first_or bs None) bs"
    "follows (\<lambda>a. backward (snodes sl a)) (last_or None as) (rev as)"
    by (auto intro: linked_follows back_follows)
  have "distinct (header sl # as @ bs)" "set (header sl # as @ bs) \<subseteq> {..<sfresh sl}"
    using assms by (auto simp: sl_rel_def list_all_iff)
  then have "length (header sl # as @ bs) \<le> sfresh sl"
    using card_mono[of "{..<sfresh sl}" "set (header sl # as @ bs)"]
    by (simp only: distinct_card finite_lessThan card_lessThan)
  then show "length (as @ bs) < sfresh sl" by simp
qed

section \<open>Ranges by score\<close>

lemma sorted_below:
  fixes g :: "'a \<Rightarrow> int"
  assumes "sorted_wrt (\<le>) (map g xs)"
  shows "takeWhile (\<lambda>x. g x \<le> b) xs = filter (\<lambda>x. g x \<le> b) xs"
    and "dropWhile (\<lambda>x. g x < a) xs = filter (\<lambda>x. a \<le> g x) xs"
    and "takeWhile (\<lambda>x. a \<le> g x) (rev xs) = rev (filter (\<lambda>x. a \<le> g x) xs)"
proof -
  show "takeWhile (\<lambda>x. g x \<le> b) xs = filter (\<lambda>x. g x \<le> b) xs"
    using assms by (induction xs) (force simp: empty_filter_conv)+
  show "dropWhile (\<lambda>x. g x < a) xs = filter (\<lambda>x. a \<le> g x) xs"
  proof (use assms in \<open>induction xs\<close>)
    case (Cons x xs)
    show ?case
    proof (cases "g x < a")
      case False
      then have "filter (\<lambda>x. a \<le> g x) (x # xs) = x # xs"
        using Cons.prems by (intro filter_True) auto
      with False show ?thesis by simp
    qed (use Cons in simp)
  qed simp
  show "takeWhile (\<lambda>x. a \<le> g x) (rev xs) = rev (filter (\<lambda>x. a \<le> g x) xs)"
    using assms by (induction xs rule: rev_induct) (force simp: sorted_wrt_append filter_empty_conv)+
qed

definition z_in_scores :: "float64 \<Rightarrow> float64 \<Rightarrow> (string \<times> float64) list \<Rightarrow> (string \<times> float64) list" where
  "z_in_scores mn mx es = filter (\<lambda>e. f_le mn (snd e) \<and> f_le (snd e) mx) es"

lemma sl_rel_scores:
  assumes "sl_rel sl ns"
  shows "sorted_wrt (\<le>) (map (\<lambda>a. f_key (score (snodes sl a))) ns)"
proof -
  have "sorted_wrt (<) (map (zk sl) ns)" using assms by (simp add: sl_rel_def)
  then show ?thesis
    by (simp add: sorted_wrt_map, elim sorted_wrt_mono_rel[rotated])
      (auto simp: zk_def key_of_def less_zkey_def)
qed

text \<open>The nodes below a score, and the rest.\<close>

lemma cut_by_score:
  assumes R: "sl_rel sl ns" and mn: "\<not> f_nan mn"
  obtains as bs where "ns = as @ bs" "splits_at sl (below_score mn) (header sl # as) bs"
    "bs = filter (\<lambda>a. f_le mn (score (snodes sl a))) ns"
proof -
  let ?g = "\<lambda>a. f_key (score (snodes sl a))"
  let ?as = "takeWhile (\<lambda>a. ?g a < f_key mn) ns" and ?bs = "dropWhile (\<lambda>a. ?g a < f_key mn) ns"
  have nn: "a \<in> set ns \<Longrightarrow> \<not> f_nan (score (snodes sl a))" for a
    using R by (auto simp: sl_rel_def list_all_iff)
  have bs: "?bs = filter (\<lambda>a. f_key mn \<le> ?g a) ns" by (rule sorted_below(2)[OF sl_rel_scores[OF R]])
  also have "\<dots> = filter (\<lambda>a. f_le mn (score (snodes sl a))) ns"
    using nn mn by (intro filter_cong) (auto simp: f_le_def)
  finally have fb: "?bs = filter (\<lambda>a. f_le mn (score (snodes sl a))) ns" .
  have "splits_at sl (below_score mn) (header sl # ?as) ?bs"
  proof (rule splits_atI)
    fix b y d and r s :: int
    assume "?as = b @ y # d"
    then have "y \<in> set ?as" by simp
    then show "below_score mn r s (snodes sl y)"
      using nn mn by (auto simp: below_score_def f_lt_def dest: set_takeWhileD)
  next
    fix b y d and r s :: int
    assume "?bs = b @ y # d"
    then have "y \<in> set ?bs" by simp
    then have "f_key mn \<le> ?g y" unfolding bs by simp
    then show "\<not> below_score mn r s (snodes sl y)" by (simp add: below_score_def f_lt_def)
  qed
  from that[OF takeWhile_dropWhile_id[symmetric] this fb] show thesis .
qed

lemma range_filter:
  assumes R: "sl_rel sl ns" and mn: "\<not> f_nan mn"
  shows "takeWhile (\<lambda>a. f_le (score (snodes sl a)) mx) (filter (\<lambda>a. f_le mn (score (snodes sl a))) ns)
    = filter (\<lambda>a. f_le mn (score (snodes sl a)) \<and> f_le (score (snodes sl a)) mx) ns"
proof (cases "f_nan mx")
  case False
  let ?g = "\<lambda>a. f_key (score (snodes sl a))"
  have nn: "a \<in> set ns \<Longrightarrow> \<not> f_nan (score (snodes sl a))" for a
    using R by (auto simp: sl_rel_def list_all_iff)
  let ?f = "filter (\<lambda>a. f_le mn (score (snodes sl a))) ns"
  have "sorted_wrt (\<le>) (map ?g ?f)"
    using sl_rel_scores[OF R] by (simp add: sorted_wrt_map sorted_wrt_filter)
  note s = sorted_below(1)[OF this, of "f_key mx"]
  have "takeWhile (\<lambda>a. f_le (score (snodes sl a)) mx) ?f = takeWhile (\<lambda>a. ?g a \<le> f_key mx) ?f"
    using nn False by (intro takeWhile_cong) (auto simp: f_le_def)
  also have "\<dots> = filter (\<lambda>a. f_le (score (snodes sl a)) mx) ?f"
    unfolding s using nn False by (intro filter_cong) (auto simp: f_le_def)
  finally show ?thesis by (simp add: conj_commute)
next
  case True
  then have "takeWhile (\<lambda>a. f_le (score (snodes sl a)) mx) xs = []" for xs
    by (cases xs) (simp_all add: f_le_def)
  with True show ?thesis by (simp add: f_le_def)
qed

lemma RangeByScore_rel:
  assumes "sl_view sl es" and "\<not> f_nan mn"
  shows "RangeByScore mn mx offset cnt sl = paged offset cnt (z_in_scores mn mx es)"
    and "CountByScore mn mx sl = int (length (z_in_scores mn mx es))"
proof -
  obtain ns where R: "sl_rel sl ns" and es: "es = map (entry sl) ns"
    using assms(1) by (auto simp: sl_view_def)
  obtain as bs where ns: "ns = as @ bs" and S: "splits_at sl (below_score mn) (header sl # as) bs"
    and bs: "bs = filter (\<lambda>a. f_le mn (score (snodes sl a))) ns"
    using cut_by_score[OF R assms(2)] .
  note parts = sl_rel_parts[OF R[unfolded ns]] and next' = search_next(2)[OF R[unfolded ns] S]
  have tw: "takeWhile (\<lambda>a. f_le (score (snodes sl a)) mx) bs =
      filter (\<lambda>a. f_le mn (score (snodes sl a)) \<and> f_le (score (snodes sl a)) mx) ns"
    unfolding bs by (rule range_filter[OF R assms(2)])
  have z: "z_in_scores mn mx es = map (entry sl) (filter (\<lambda>a. f_le mn (score (snodes sl a)) \<and> f_le (score (snodes sl a)) mx) ns)"
    by (simp add: z_in_scores_def es filter_map comp_def)
  show "RangeByScore mn mx offset cnt sl = paged offset cnt (z_in_scores mn mx es)"
    using scan_range_follows[OF parts(1), of "sfresh sl" cnt "[]"] parts(3)
    by (simp add: RangeByScore_def Let_def next' z tw paged_def)
  show "CountByScore mn mx sl = int (length (z_in_scores mn mx es))"
    using count_upto_follows[OF parts(1), of "sfresh sl"] parts(3)
    by (simp add: CountByScore_def Let_def next' z tw)
qed

text \<open>Backwards, from the last entry of at most the upper bound.\<close>

lemma cut_upto_score:
  assumes R: "sl_rel sl ns" and mx: "\<not> f_nan mx"
  obtains as bs where "ns = as @ bs" "splits_at sl (upto_score mx) (header sl # as) bs"
    "as = filter (\<lambda>a. f_le (score (snodes sl a)) mx) ns"
proof -
  let ?g = "\<lambda>a. f_key (score (snodes sl a))"
  have nn: "a \<in> set ns \<Longrightarrow> \<not> f_nan (score (snodes sl a))" for a
    using R by (auto simp: sl_rel_def list_all_iff)
  have P: "a \<in> set ns \<Longrightarrow> f_le (score (snodes sl a)) mx \<longleftrightarrow> ?g a \<le> f_key mx" for a
    using nn mx by (simp add: f_le_def)
  let ?as = "takeWhile (\<lambda>a. ?g a \<le> f_key mx) ns" and ?bs = "dropWhile (\<lambda>a. ?g a \<le> f_key mx) ns"
  have as: "?as = filter (\<lambda>a. ?g a \<le> f_key mx) ns" by (rule sorted_below(1)[OF sl_rel_scores[OF R]])
  also have "\<dots> = filter (\<lambda>a. f_le (score (snodes sl a)) mx) ns"
    using P by (intro filter_cong) auto
  finally have fa: "?as = filter (\<lambda>a. f_le (score (snodes sl a)) mx) ns" .
  have bs: "?bs = filter (\<lambda>a. f_key mx + 1 \<le> ?g a) ns"
    using sorted_below(2)[OF sl_rel_scores[OF R], of "f_key mx + 1"] by (simp add: zless_add1_eq zle_add1_eq_le)
  have "splits_at sl (upto_score mx) (header sl # ?as) ?bs"
  proof (rule splits_atI)
    fix b y d and r s :: int
    assume "?as = b @ y # d"
    then have "y \<in> set ?as" by simp
    then show "upto_score mx r s (snodes sl y)" using P by (auto simp: upto_score_def dest: set_takeWhileD)
  next
    fix b y d and r s :: int
    assume "?bs = b @ y # d"
    then have "y \<in> set ?bs" by simp
    then have "f_key mx + 1 \<le> ?g y" unfolding bs by simp
    then show "\<not> upto_score mx r s (snodes sl y)" by (simp add: upto_score_def f_le_def)
  qed
  from that[OF takeWhile_dropWhile_id[symmetric] this fa] show thesis .
qed

lemma RevRangeByScore_rel:
  assumes "sl_view sl es" and mx: "\<not> f_nan mx" and mn: "\<not> f_nan mn"
  shows "RevRangeByScore mx mn offset cnt sl = paged offset cnt (rev (z_in_scores mn mx es))"
proof -
  obtain ns where R: "sl_rel sl ns" and es: "es = map (entry sl) ns"
    using assms(1) by (auto simp: sl_view_def)
  obtain as bs where ns: "ns = as @ bs" and S: "splits_at sl (upto_score mx) (header sl # as) bs"
    and as: "as = filter (\<lambda>a. f_le (score (snodes sl a)) mx) ns"
    using cut_upto_score[OF R mx] .
  note parts = sl_rel_parts[OF R[unfolded ns]] and last' = search_next(1)[OF R[unfolded ns] S]
  let ?c = "\<lambda>a. a \<noteq> header sl \<and> f_le mn (score (snodes sl a))"
  have z: "z_in_scores mn mx es = map (entry sl) (filter (\<lambda>a. f_le mn (score (snodes sl a))) as)"
    by (simp add: z_in_scores_def es as filter_map comp_def conj_commute)
  show ?thesis
  proof (cases "as = []")
    case True
    obtain k where "sfresh sl = Suc k" using parts(3) by (cases "sfresh sl") auto
    with True z show ?thesis by (simp add: RevRangeByScore_def Let_def last' paged_def)
  next
    case False
    let ?g = "\<lambda>a. f_key (score (snodes sl a))"
    have nn: "a \<in> set as \<Longrightarrow> \<not> f_nan (score (snodes sl a))" "a \<in> set as \<Longrightarrow> a \<noteq> header sl" for a
      using R ns by (auto simp: sl_rel_def list_all_iff)
    have "sorted_wrt (\<le>) (map ?g as)" using sl_rel_scores[OF R] by (simp add: as sorted_wrt_map sorted_wrt_filter)
    note s = sorted_below(3)[OF this, of "f_key mn"]
    have "takeWhile ?c (rev as) = takeWhile (\<lambda>a. f_key mn \<le> ?g a) (rev as)"
      using nn mn by (intro takeWhile_cong) (auto simp: f_le_def)
    also have "\<dots> = rev (filter (\<lambda>a. f_le mn (score (snodes sl a))) as)"
      unfolding s using nn mn by (intro arg_cong[of _ _ rev] filter_cong) (auto simp: f_le_def)
    finally have tw: "takeWhile ?c (rev as) = rev (filter (\<lambda>a. f_le mn (score (snodes sl a))) as)" .
    have "last_or None as = Some (last as)" "(case as of [] \<Rightarrow> header sl | _ \<Rightarrow> last as) = last as"
      using False by (simp_all add: last_or_def split: list.split)
    then show ?thesis
      using scan_range_follows[OF parts(2), of "sfresh sl" cnt "[]"] parts(3)
      by (simp add: RevRangeByScore_def Let_def last' tw z paged_def rev_map)
  qed
qed

section \<open>Ranks\<close>

lemma find_all:
  "\<forall>p\<in>set ps. P p \<longrightarrow> f p = v \<Longrightarrow> \<exists>p\<in>set ps. P p \<Longrightarrow> map_option f (find P ps) = Some v"
  by (induction ps) auto

lemma find_levels:
  assumes "\<And>i. i < length ps \<Longrightarrow> P (ps ! i) \<Longrightarrow> f (ps ! i) = v" and "0 < length ps" and "P (ps ! 0)"
  shows "map_option f (find P (rev ps)) = Some v"
proof (rule find_all)
  have "P p \<Longrightarrow> f p = v" if "p \<in> set ps" for p
    using assms(1) that by (metis in_set_conv_nth)
  then show "\<forall>p\<in>set (rev ps). P p \<longrightarrow> f p = v" by simp
  show "\<exists>p\<in>set (rev ps). P p" using nth_mem[OF assms(2)] assms(3) by auto
qed

lemma get_by_rank_loop_find:
  "get_by_rank_loop sl rk n x r =
    map_option fst (find (\<lambda>p. snd p = rk) (rev (descend sl (rank_within rk) n x r)))"
  by (induction n arbitrary: x r) (auto split: prod.splits)

lemma get_rank_loop_find:
  "get_rank_loop sl sc m n x r =
    (case find (\<lambda>p. member (snodes sl (fst p)) = m) (rev (descend sl (up_to sc m) n x r)) of
       None \<Rightarrow> 0 | Some p \<Rightarrow> snd p)"
  by (induction n arbitrary: x r) (auto split: prod.splits)

lemma at_level_last:
  assumes "at_level sl i (pre @ [x]) p" and "distinct (pre @ [x])"
  shows "snd p = int (length pre) \<Longrightarrow> fst p = x" and "fst p = x \<Longrightarrow> snd p = int (length pre)"
proof -
  obtain b c where bc: "pre @ [x] = b @ fst p # c" "snd p = int (length b)"
    using assms(1) by (auto simp: at_level_def)
  show "fst p = x" if "snd p = int (length pre)"
    using bc that by auto
  show "snd p = int (length pre)" if "fst p = x"
    using bc that assms(2) by (cases c rule: rev_cases) auto
qed

lemma GetByRank_rel:
  assumes R: "sl_rel sl ns" and i: "i < length ns"
  shows "GetByRank (int i + 1) sl = Some (ns ! i)"
proof -
  let ?rk = "int i + 1" and ?as = "take (Suc i) ns" and ?bs = "drop (Suc i) ns"
  have R': "sl_rel sl (?as @ ?bs)" using R by simp
  have S: "splits_at sl (rank_within ?rk) (header sl # ?as) ?bs"
    using i by (intro splits_atI) (auto simp: rank_within_def dest!: arg_cong[of _ _ length])
  let ?path = "descend sl (rank_within ?rk) (level sl) (header sl) 0"
  have lev: "1 \<le> level sl" "list_all (\<lambda>a. 1 \<le> height sl a) ?as" "distinct (header sl # ?as)"
    using R by (auto simp: sl_rel_def list_all_iff dest: in_set_takeD)
  have pre: "header sl # ?as = (header sl # take i ns) @ [ns ! i]" using i by (simp add: take_Suc_conv_app_nth)
  note sp = search_path[OF R' S]
  have "map_option fst (find (\<lambda>p. snd p = ?rk) (rev ?path)) = Some (ns ! i)"
  proof (rule find_levels)
    fix j assume "j < length ?path" "snd (?path ! j) = ?rk"
    then show "fst (?path ! j) = ns ! i"
      using sp at_level_last(1)[of sl j "header sl # take i ns" "ns ! i" "?path ! j"] lev i unfolding pre by auto
  next
    show "0 < length ?path" using sp lev by auto
    show "snd (?path ! 0) = ?rk" using at_level_0[of sl "header sl" ?as "?path ! 0"] sp lev i by auto
  qed
  then show ?thesis by (simp add: GetByRank_def get_by_rank_loop_find)
qed

lemma GetRank_rel:
  assumes R: "sl_rel sl (as @ x # bs)" and x: "entry sl x = (m, sc)"
    and d: "distinct (map (\<lambda>a. member (snodes sl a)) (as @ x # bs))" and m: "m \<noteq> []"
  shows "GetRank sc m sl = int (length as) + 1"
proof -
  have e: "member (snodes sl x) = m" "score (snodes sl x) = sc" using x by (simp_all add: entry_def)
  have nn: "a \<in> set (as @ x # bs) \<Longrightarrow> \<not> f_nan (score (snodes sl a))" for a
    using R by (auto simp: sl_rel_def list_all_iff)
  have srt: "a \<in> set as \<Longrightarrow> zk sl a < zk sl x" "a \<in> set bs \<Longrightarrow> zk sl x < zk sl a" for a
    using R by (auto simp: sl_rel_def sorted_wrt_append)
  have kx: "zk sl x = key_of sc m" using e by (simp add: zk_def)
  have R': "sl_rel sl ((as @ [x]) @ bs)" using R by simp
  have up: "a \<in> set (as @ x # bs) \<Longrightarrow> up_to sc m r s (snodes sl a) \<longleftrightarrow> zk sl a \<le> zk sl x" for a r s
    unfolding kx using nn[of a] nn[of x] e by (simp add: up_to_def key_le zk_def)
  have S: "splits_at sl (up_to sc m) (header sl # as @ [x]) bs"
  proof (rule splits_atI)
    fix b y d and r s :: int
    assume "as @ [x] = b @ y # d"
    then have "y \<in> set (as @ [x])" by simp
    then show "up_to sc m r s (snodes sl y)" using srt(1) up by (auto simp: less_imp_le)
  next
    fix b y d and r s :: int
    assume "bs = b @ y # d"
    then have "y \<in> set bs" by simp
    then show "\<not> up_to sc m r s (snodes sl y)" using srt(2)[of y] up by (auto simp: not_le)
  qed
  let ?path = "descend sl (up_to sc m) (level sl) (header sl) 0"
  have lev: "1 \<le> level sl" "list_all (\<lambda>a. 1 \<le> height sl a) (as @ [x])" "distinct ((header sl # as) @ [x])"
    "member (snodes sl (header sl)) = []"
    using R by (auto simp: sl_rel_def list_all_iff)
  note sp = search_path[OF R' S]
  have "map_option snd (find (\<lambda>p. member (snodes sl (fst p)) = m) (rev ?path)) = Some (int (length as) + 1)"
  proof (rule find_levels)
    fix j assume j: "j < length ?path" "member (snodes sl (fst (?path ! j))) = m"
    have at: "at_level sl j ((header sl # as) @ [x]) (?path ! j)" using sp j by auto
    have "fst (?path ! j) \<in> set (as @ [x])"
      using at_level_mem[OF at] lev(4) m j by auto
    moreover have "a \<in> set as \<Longrightarrow> member (snodes sl a) \<noteq> m" for a
      using d e by (auto simp: image_iff)
    ultimately have "fst (?path ! j) = x" using j(2) by auto
    with at_level_last(2)[OF at lev(3)] show "snd (?path ! j) = int (length as) + 1" by simp
  next
    show "0 < length ?path" using sp lev by auto
    have "fst (?path ! 0) = x"
      using at_level_0[of sl "header sl" "as @ [x]" "?path ! 0"] sp lev by (cases as) auto
    then show "member (snodes sl (fst (?path ! 0))) = m" using e by simp
  qed
  then show ?thesis by (auto simp: GetRank_def get_rank_loop_find split: option.split)
qed

lemma RangeByRank_rel:
  assumes "sl_view sl es"
  shows "RangeByRank start stop sl =
    (let start = max 1 start; stop = min stop (int (length es))
     in if stop < start then [] else take (nat (stop - start + 1)) (drop (nat (start - 1)) es))"
proof -
  obtain ns where R: "sl_rel sl ns" and es: "es = map (entry sl) ns"
    using assms(1) by (auto simp: sl_view_def)
  have len: "slength sl = int (length es)" using R es by (simp add: sl_rel_def)
  let ?a = "max 1 start" and ?b = "min stop (int (length es))"
  have ab: "(if start < 1 then 1 else start) = ?a" "(if slength sl < stop then slength sl else stop) = ?b"
    by (auto simp: len)
  show ?thesis
  proof (cases "?b < ?a")
    case False
    let ?i = "nat (?a - 1)"
    have i: "?i < length ns" using False es by auto
    have "int ?i + 1 = ?a" by simp
    with GetByRank_rel[OF R i] have "GetByRank ?a sl = Some (ns ! ?i)" by (simp only:)
    moreover have "sl_rel sl (take ?i ns @ drop ?i ns)" using R by simp
    from sl_rel_parts(1)[OF this] have "follows (\<lambda>a. fwd sl a 0) (Some (ns ! ?i)) (drop ?i ns)"
      using i by (simp add: Cons_nth_drop_Suc[symmetric])
    ultimately show ?thesis
      using False by (simp add: RangeByRank_def Let_def ab collect_forward_follows es drop_map take_map)
  qed (simp add: RangeByRank_def Let_def ab)
qed

lemma First_Last_rel:
  assumes "sl_view sl es"
  shows "map_option (entry sl) (First sl) = first_or es None"
    and "map_option (entry sl) (Last sl) = last_or None es"
proof -
  obtain ns where R: "sl_rel sl ns" and es: "es = map (entry sl) ns"
    using assms(1) by (auto simp: sl_view_def)
  have "First sl = fwd_of (height sl) 0 ns"
    using R by (auto simp: sl_rel_def node_ok_def First_def skiplistMaxLevel_def)
  also have "\<dots> = first_or ns None"
    using R by (intro fwd_of_first) (auto simp: sl_rel_def list_all_iff)
  finally show "map_option (entry sl) (First sl) = first_or es None"
    by (cases ns) (simp_all add: es)
  show "map_option (entry sl) (Last sl) = last_or None es"
    using R by (simp add: sl_rel_def Last_def es last_or_def last_map)
qed

lemma random_level_loop_range:
  "lv \<le> random_level_loop coins lv k \<and> random_level_loop coins lv k \<le> lv + k"
proof (induction k arbitrary: lv)
  case (Suc k)
  from Suc[of "Suc lv"] show ?case by simp
qed simp

lemma randomLevel_range: "1 \<le> randomLevel coins \<and> randomLevel coins \<le> skiplistMaxLevel"
  using random_level_loop_range[of 1 coins "skiplistMaxLevel - 1"]
  by (simp add: randomLevel_def skiplistMaxLevel_def)

end
