(* ===== verification/Store.thy ===== *)
theory Store
  imports Go_Glob Linked_List Skip_List_Range
begin

text \<open>
  The keyspace (store/store.go): objects with their expiry and access data, the
  sorted set that pairs a skip list with a map, the operations of one database
  and the store of several databases.

  A Go map of one database is \<open>dat\<close>, an association list. The values behind
  pointers (lists, hashes, sets, sorted sets) are cells of the database's own
  heap, because two keys can share one of them. An instant is a number of
  nanoseconds since Go's zero time; \<open>now\<close> of the environment is the clock.
\<close>

section \<open>Objects\<close>

datatype ValueType = TypeString | TypeList | TypeHash | TypeSet | TypeZSet

definition type_String :: "ValueType \<Rightarrow> string" where
  "type_String t =
     (case t of TypeString \<Rightarrow> ''string'' | TypeList \<Rightarrow> ''list'' | TypeHash \<Rightarrow> ''hash''
      | TypeSet \<Rightarrow> ''set'' | TypeZSet \<Rightarrow> ''zset'')"

text \<open>The sorted set: a skip list and the score of each member.\<close>

record zset =
  zlist :: skiplist
  zscores :: "(string \<times> float64) list"

datatype cell =
    CList llist
  | CHash "(string \<times> string) list"
  | CSet "string list"
  | CZSet zset

datatype val = VStr string | VRef nat

text \<open>\<open>AccessFreq\<close> is an unsigned 32-bit counter; an object without expiry has the
  zero time in \<open>Expiry\<close>.\<close>

record object =
  oType :: ValueType
  oValue :: val
  oExpiry :: int
  oHasExpiry :: bool
  oLastAccess :: int
  oAccessFreq :: "32 word"

definition new_object :: "ValueType \<Rightarrow> val \<Rightarrow> object" where
  "new_object t v =
     \<lparr>oType = t, oValue = v, oExpiry = 0, oHasExpiry = False, oLastAccess = 0, oAccessFreq = 0\<rparr>"

section \<open>Time\<close>

definition unix_to_internal :: int where "unix_to_internal = 62135596800"

definition UnixNano :: "int \<Rightarrow> int" where
  "UnixNano t = wrap64 (t - unix_to_internal * 10 ^ 9)"

definition time_Unix :: "int \<Rightarrow> int" where
  "time_Unix secs = wrap64 (secs + unix_to_internal) * 10 ^ 9"

definition time_UnixMilli :: "int \<Rightarrow> int" where
  "time_UnixMilli ms = (ms + unix_to_internal * 10 ^ 3) * 10 ^ 6"

text \<open>A difference of two instants is a \<open>Duration\<close>, which saturates.\<close>

definition time_Sub :: "int \<Rightarrow> int \<Rightarrow> int" where
  "time_Sub t u = max min_int64 (min max_int64 (t - u))"

definition Seconds :: "int \<Rightarrow> int" where "Seconds n = wrap64 (n * 10 ^ 9)"
definition Milliseconds :: "int \<Rightarrow> int" where "Milliseconds n = wrap64 (n * 10 ^ 6)"

definition Touch :: "env \<Rightarrow> object \<Rightarrow> object" where
  "Touch e o1 =
     o1\<lparr>oLastAccess := UnixNano (now e),
        oAccessFreq := (if oAccessFreq o1 < push_bit 24 1 then oAccessFreq o1 + 1 else oAccessFreq o1)\<rparr>"

definition IsExpired :: "env \<Rightarrow> object \<Rightarrow> bool" where
  "IsExpired e o1 \<longleftrightarrow> oHasExpiry o1 \<and> oExpiry o1 < now e"

section \<open>Sorted sets\<close>

definition NewZSet :: zset where "NewZSet = \<lparr>zlist = NewSkiplist, zscores = []\<rparr>"

text \<open>\<open>lv\<close> is the level \<open>randomLevel\<close> draws for the new node.\<close>

definition ZSet_Add :: "nat \<Rightarrow> float64 \<Rightarrow> string \<Rightarrow> zset \<Rightarrow> bool \<times> zset" where
  "ZSet_Add lv sc m z =
     (case map_of (zscores z) m of
        Some old \<Rightarrow>
          (False, z\<lparr>zlist := Insert lv sc m (snd (Delete old m (zlist z))),
                    zscores := AList.update m sc (zscores z)\<rparr>)
      | None \<Rightarrow>
          (True, z\<lparr>zlist := Insert lv sc m (zlist z), zscores := AList.update m sc (zscores z)\<rparr>))"

definition ZSet_Remove :: "string \<Rightarrow> zset \<Rightarrow> bool \<times> zset" where
  "ZSet_Remove m z =
     (case map_of (zscores z) m of
        None \<Rightarrow> (False, z)
      | Some sc \<Rightarrow>
          (True, z\<lparr>zlist := snd (Delete sc m (zlist z)), zscores := AList.delete m (zscores z)\<rparr>))"

definition ZSet_Score :: "string \<Rightarrow> zset \<Rightarrow> float64 option" where
  "ZSet_Score m z = map_of (zscores z) m"

definition ZSet_Rank :: "string \<Rightarrow> zset \<Rightarrow> int option" where
  "ZSet_Rank m z = map_option (\<lambda>sc. GetRank sc m (zlist z) - 1) (map_of (zscores z) m)"

definition ZSet_RevRank :: "string \<Rightarrow> zset \<Rightarrow> int option" where
  "ZSet_RevRank m z = map_option (\<lambda>r. SLen (zlist z) - 1 - r) (ZSet_Rank m z)"

definition ZSet_Len :: "zset \<Rightarrow> int" where "ZSet_Len z = SLen (zlist z)"

section \<open>A database\<close>

record db =
  dat :: "(string \<times> object) list"
  heap :: "nat \<Rightarrow> cell option"
  next_ref :: nat

definition newDB :: db where
  "newDB = \<lparr>dat = [], heap = (\<lambda>a. None), next_ref = 0\<rparr>"

definition new_cell :: "cell \<Rightarrow> db \<Rightarrow> nat \<times> db" where
  "new_cell c d = (next_ref d, d\<lparr>heap := (heap d)(next_ref d \<mapsto> c), next_ref := Suc (next_ref d)\<rparr>)"

definition db_Get :: "env \<Rightarrow> string \<Rightarrow> db \<Rightarrow> object option \<times> db" where
  "db_Get e key d =
     (case map_of (dat d) key of
        None \<Rightarrow> (None, d)
      | Some o1 \<Rightarrow>
          if IsExpired e o1 then (None, d\<lparr>dat := AList.delete key (dat d)\<rparr>)
          else (Some (Touch e o1), d\<lparr>dat := AList.update key (Touch e o1) (dat d)\<rparr>))"

definition db_Set :: "env \<Rightarrow> string \<Rightarrow> object \<Rightarrow> db \<Rightarrow> db" where
  "db_Set e key o1 d = d\<lparr>dat := AList.update key (o1\<lparr>oLastAccess := UnixNano (now e)\<rparr>) (dat d)\<rparr>"

fun db_Del :: "string list \<Rightarrow> db \<Rightarrow> int \<times> db" where
  "db_Del [] d = (0, d)"
| "db_Del (k # ks) d =
     (if map_of (dat d) k \<noteq> None
      then (case db_Del ks (d\<lparr>dat := AList.delete k (dat d)\<rparr>) of (n, d) \<Rightarrow> (1 + n, d))
      else db_Del ks d)"

definition live :: "env \<Rightarrow> db \<Rightarrow> string \<Rightarrow> bool" where
  "live e d k \<longleftrightarrow> (case map_of (dat d) k of Some o1 \<Rightarrow> \<not> IsExpired e o1 | None \<Rightarrow> False)"

definition db_Exists :: "env \<Rightarrow> string list \<Rightarrow> db \<Rightarrow> int" where
  "db_Exists e keys d = int (length (filter (live e d) keys))"

definition db_SetExpiry :: "env \<Rightarrow> string \<Rightarrow> int \<Rightarrow> db \<Rightarrow> bool \<times> db" where
  "db_SetExpiry e key t d =
     (case map_of (dat d) key of
        None \<Rightarrow> (False, d)
      | Some o1 \<Rightarrow>
          if IsExpired e o1 then (False, d)
          else (True, d\<lparr>dat := AList.update key (o1\<lparr>oHasExpiry := True, oExpiry := t\<rparr>) (dat d)\<rparr>))"

definition db_RemoveExpiry :: "string \<Rightarrow> db \<Rightarrow> bool \<times> db" where
  "db_RemoveExpiry key d =
     (case map_of (dat d) key of
        None \<Rightarrow> (False, d)
      | Some o1 \<Rightarrow> (True, d\<lparr>dat := AList.update key (o1\<lparr>oHasExpiry := False\<rparr>) (dat d)\<rparr>))"

text \<open>\<open>-2\<close> stands for no key, \<open>-1\<close> for no expiry, else nanoseconds.\<close>

definition db_TTL :: "env \<Rightarrow> string \<Rightarrow> db \<Rightarrow> int" where
  "db_TTL e key d =
     (case map_of (dat d) key of
        None \<Rightarrow> - 2
      | Some o1 \<Rightarrow>
          if IsExpired e o1 then - 2
          else if \<not> oHasExpiry o1 then - 1
          else let left = time_Sub (oExpiry o1) (now e) in if left < 0 then - 2 else left)"

definition db_Type :: "env \<Rightarrow> string \<Rightarrow> db \<Rightarrow> string \<times> db" where
  "db_Type e key d =
     (case db_Get e key d of
        (None, d) \<Rightarrow> (''none'', d)
      | (Some o1, d) \<Rightarrow> (type_String (oType o1), d))"

definition matchGlob :: "string \<Rightarrow> string \<Rightarrow> bool" where
  "matchGlob pattern s = (pattern = ''*'' \<or> Match (ToLower pattern) (ToLower s) = Some True)"

text \<open>A range over the map visits the keys in the order the environment gives.\<close>

definition live_keys :: "env \<Rightarrow> db \<Rightarrow> string list" where
  "live_keys e d = filter (live e d) (iter e (map fst (dat d)))"

definition db_Keys :: "env \<Rightarrow> string \<Rightarrow> db \<Rightarrow> string list" where
  "db_Keys e pattern d = filter (matchGlob pattern) (live_keys e d)"

definition db_Size :: "env \<Rightarrow> db \<Rightarrow> int" where
  "db_Size e d = int (length (live_keys e d))"

definition db_Flush :: "db \<Rightarrow> db" where "db_Flush d = d\<lparr>dat := []\<rparr>"

definition db_RandomKey :: "env \<Rightarrow> db \<Rightarrow> string" where
  "db_RandomKey e d =
     (let keys = live_keys e d in if keys = [] then [] else keys ! intn e 0 (length keys))"

definition db_Rename :: "env \<Rightarrow> string \<Rightarrow> string \<Rightarrow> db \<Rightarrow> bool \<times> db" where
  "db_Rename e src dst d =
     (case map_of (dat d) src of
        None \<Rightarrow> (False, d)
      | Some o1 \<Rightarrow>
          if IsExpired e o1 then (False, d)
          else (True, d\<lparr>dat := AList.update dst o1 (AList.delete src (dat d))\<rparr>))"

text \<open>
  \<open>Scan\<close>: Go's \<open>%\<close> truncates, so a negative cursor gives a negative start and
  indexing panics. The loop looks at \<open>total\<close> keys at most and stops at \<open>count\<close>
  results.
\<close>

definition go_mod :: "int \<Rightarrow> int \<Rightarrow> int" where
  "go_mod a b = (if a < 0 then - ((- a) mod \<bar>b\<bar>) else a mod \<bar>b\<bar>)"

fun scan_loop :: "string list \<Rightarrow> (string \<Rightarrow> bool) \<Rightarrow> int \<Rightarrow> int \<Rightarrow> nat \<Rightarrow> int \<Rightarrow> string list \<Rightarrow> string list go" where
  "scan_loop allKeys wanted cnt start 0 i result = Ret result"
| "scan_loop allKeys wanted cnt start (Suc n) i result =
     (if cnt \<le> int (length result) then Ret result
      else let idx = go_mod (start + i) (int (length allKeys)) in
        if idx < 0 then Panic ''index out of range''
        else let k = allKeys ! nat idx in
          scan_loop allKeys wanted cnt start n (i + 1) (if wanted k then result @ [k] else result))"

definition scan_wanted :: "string \<Rightarrow> string \<Rightarrow> db \<Rightarrow> string \<Rightarrow> bool" where
  "scan_wanted pattern typFilter d k \<longleftrightarrow>
     (pattern = [] \<or> matchGlob pattern k)
     \<and> (typFilter = [] \<or> (case map_of (dat d) k of None \<Rightarrow> False | Some o1 \<Rightarrow> type_String (oType o1) = typFilter))"

definition db_Scan :: "env \<Rightarrow> int \<Rightarrow> int \<Rightarrow> string \<Rightarrow> string \<Rightarrow> db \<Rightarrow> (int \<times> string list) go" where
  "db_Scan e cursor cnt pattern typFilter d =
     (let allKeys = live_keys e d;
          cnt = (if cnt \<le> 0 then 10 else cnt);
          total = int (length allKeys)
      in if allKeys = [] then Ret (0, [])
         else let start = go_mod cursor total in
           go_bind (scan_loop allKeys (scan_wanted pattern typFilter d) cnt start (length allKeys) 0 [])
             (\<lambda>result. Ret
               (if int (length result) = cnt then go_mod (wrap64 (start + cnt)) total else 0, result)))"

section \<open>The store\<close>

text \<open>\<open>New\<close> makes the databases; \<open>DB\<close> is nil out of range.\<close>

definition New :: "int \<Rightarrow> db list go" where
  "New numDBs = go_bind (make_slice 8 numDBs) (\<lambda>_. Ret (replicate (nat numDBs) newDB))"

definition DB :: "db list \<Rightarrow> int \<Rightarrow> db option" where
  "DB dbs idx = (if idx < 0 \<or> int (length dbs) \<le> idx then None else Some (dbs ! nat idx))"

definition NumDBs :: "db list \<Rightarrow> int" where "NumDBs dbs = int (length dbs)"

end
