(* ===== verification/Keyspace.thy ===== *)
theory Keyspace
  imports Store
begin

text \<open>
  What a database promises. \<open>keyspace\<close> is the abstract database: the live keys
  with their values and expiry times, without the access data, the expired
  entries not yet deleted and the pointers. Every operation of store/store.go is
  an operation on it. \<open>wf_db\<close> is the type invariant: the tag of an object agrees
  with what its value is, so that no type assertion of a command fails.
\<close>

section \<open>The abstract database\<close>

datatype lval =
    LStr string
  | LList "string list"
  | LHash "string \<rightharpoonup> string"
  | LSet "string set"
  | LZSet "string \<rightharpoonup> float64"

fun cell_view :: "cell \<Rightarrow> lval" where
  "cell_view (CList l) = LList (elems l)"
| "cell_view (CHash h) = LHash (map_of h)"
| "cell_view (CSet s) = LSet (set s)"
| "cell_view (CZSet z) = LZSet (map_of (zscores z))"

fun cell_type :: "cell \<Rightarrow> ValueType" where
  "cell_type (CList l) = TypeList"
| "cell_type (CHash h) = TypeHash"
| "cell_type (CSet s) = TypeSet"
| "cell_type (CZSet z) = TypeZSet"

definition val_view :: "(nat \<Rightarrow> cell option) \<Rightarrow> val \<Rightarrow> lval" where
  "val_view h v =
     (case v of VStr s \<Rightarrow> LStr s
      | VRef a \<Rightarrow> (case h a of Some c \<Rightarrow> cell_view c | None \<Rightarrow> LStr []))"

lemma val_view_str [simp]: "val_view h (VStr s) = LStr s"
  by (simp add: val_view_def)

definition obj_view :: "env \<Rightarrow> (nat \<Rightarrow> cell option) \<Rightarrow> object \<Rightarrow> (lval \<times> int option) option" where
  "obj_view e h o1 =
     (if IsExpired e o1 then None
      else Some (val_view h (oValue o1), if oHasExpiry o1 then Some (oExpiry o1) else None))"

definition keyspace :: "env \<Rightarrow> db \<Rightarrow> string \<rightharpoonup> lval \<times> int option" where
  "keyspace e d k = Option.bind (map_of (dat d) k) (obj_view e (heap d))"

section \<open>The invariant\<close>

definition val_type :: "(nat \<Rightarrow> cell option) \<Rightarrow> val \<Rightarrow> ValueType option" where
  "val_type h v = (case v of VStr s \<Rightarrow> Some TypeString | VRef a \<Rightarrow> map_option cell_type (h a))"

definition obj_ok :: "(nat \<Rightarrow> cell option) \<Rightarrow> object \<Rightarrow> bool" where
  "obj_ok h o1 \<longleftrightarrow> val_type h (oValue o1) = Some (oType o1) \<and> oAccessFreq o1 \<le> push_bit 24 1"

fun cell_ok :: "cell \<Rightarrow> bool" where
  "cell_ok (CList l) = list_wf l"
| "cell_ok (CHash h) = map_wf h"
| "cell_ok (CSet s) = distinct s"
| "cell_ok (CZSet z) = map_wf (zscores z)"

definition wf_db :: "db \<Rightarrow> bool" where
  "wf_db d \<longleftrightarrow> map_wf (dat d) \<and> (\<forall>k o1. map_of (dat d) k = Some o1 \<longrightarrow> obj_ok (heap d) o1)
     \<and> (\<forall>a c. heap d a = Some c \<longrightarrow> cell_ok c \<and> a < next_ref d)"

lemma wf_dbD:
  "wf_db d \<Longrightarrow> map_wf (dat d)"
  "wf_db d \<Longrightarrow> map_of (dat d) k = Some o1 \<Longrightarrow> obj_ok (heap d) o1"
  "wf_db d \<Longrightarrow> heap d a = Some c \<Longrightarrow> cell_ok c"
  "wf_db d \<Longrightarrow> heap d a = Some c \<Longrightarrow> a < next_ref d"
  by (auto simp: wf_db_def)

lemma wf_newDB [simp]: "wf_db newDB"
  by (simp add: wf_db_def newDB_def)

lemma wf_db_dat:
  assumes "wf_db d" and "map_wf m" and "\<And>k o1. map_of m k = Some o1 \<Longrightarrow> obj_ok (heap d) o1"
  shows "wf_db (d\<lparr>dat := m\<rparr>)"
  using assms by (auto simp: wf_db_def)

lemma obj_ok_fields [simp]:
  "obj_ok h (o1\<lparr>oLastAccess := t\<rparr>) = obj_ok h o1"
  "obj_ok h (o1\<lparr>oHasExpiry := b\<rparr>) = obj_ok h o1"
  "obj_ok h (o1\<lparr>oExpiry := t\<rparr>) = obj_ok h o1"
  by (simp_all add: obj_ok_def)

lemma freq_step: "(f::32 word) \<le> push_bit 24 1 \<Longrightarrow> (if f < push_bit 24 1 then f + 1 else f) \<le> push_bit 24 1"
  by (auto intro: inc_le)

lemma obj_ok_Touch [simp]: "obj_ok h o1 \<Longrightarrow> obj_ok h (Touch e o1)"
  using freq_step[of "oAccessFreq o1"] by (simp add: obj_ok_def Touch_def)

lemma Touch_fields [simp]:
  "oType (Touch e o1) = oType o1" "oValue (Touch e o1) = oValue o1"
  "oExpiry (Touch e o1) = oExpiry o1" "oHasExpiry (Touch e o1) = oHasExpiry o1"
  "IsExpired e' (Touch e o1) = IsExpired e' o1" "obj_view e' h (Touch e o1) = obj_view e' h o1"
  by (simp_all add: Touch_def IsExpired_def obj_view_def)

lemma obj_view_LastAccess [simp]: "obj_view e h (o1\<lparr>oLastAccess := t\<rparr>) = obj_view e h o1"
  by (simp add: obj_view_def IsExpired_def)

section \<open>The operations on the abstract database\<close>

lemma keyspace_live: "live e d k \<longleftrightarrow> keyspace e d k \<noteq> None"
  by (auto simp: live_def keyspace_def obj_view_def split: option.splits)

lemma db_Get_dat: "heap (snd (db_Get e k d)) = heap d" "next_ref (snd (db_Get e k d)) = next_ref d"
  by (auto simp: db_Get_def split: option.splits)

lemma db_Get_keyspace [keyspace_simps]: "keyspace e (snd (db_Get e k d)) = keyspace e d"
proof
  fix k'
  show "keyspace e (snd (db_Get e k d)) k' = keyspace e d k'"
    by (cases "map_of (dat d) k")
      (auto simp: db_Get_def keyspace_def obj_view_def split: option.splits)
qed

lemma db_Get_wf [keeps_inv]: "wf_db d \<Longrightarrow> wf_db (snd (db_Get e k d))"
  by (auto simp: db_Get_def wf_dbD intro!: wf_db_dat split: option.splits if_splits)

lemma db_Get_None: "fst (db_Get e k d) = None \<longleftrightarrow> keyspace e d k = None"
  by (auto simp: db_Get_def keyspace_def obj_view_def split: option.splits)

lemma db_Get_Some:
  "fst (db_Get e k d) = Some o1 \<Longrightarrow> map_of (dat (snd (db_Get e k d))) k = Some o1
    \<and> \<not> IsExpired e o1 \<and> keyspace e d k = obj_view e (heap d) o1"
  by (auto simp: db_Get_def keyspace_def split: option.splits if_splits)

lemma db_Set_keyspace [keyspace_simps]:
  "keyspace e' (db_Set e k o1 d) = (keyspace e' d)(k := obj_view e' (heap d) o1)"
  by (auto simp: db_Set_def keyspace_def)

lemma db_Set_wf [keeps_inv]: "wf_db d \<Longrightarrow> obj_ok (heap d) o1 \<Longrightarrow> wf_db (db_Set e k o1 d)"
  by (auto simp: db_Set_def wf_dbD intro!: wf_db_dat split: if_splits)

lemma db_Del_keyspace [keyspace_simps]: "keyspace e (snd (db_Del ks d)) = (keyspace e d) |` (- set ks)"
proof (induction ks d rule: db_Del.induct)
  case (2 k ks d)
  show ?case
  proof (cases "map_of (dat d) k = None")
    case True
    then have "(keyspace e d) |` (- insert k (set ks)) = (keyspace e d) |` (- set ks)"
      by (auto simp: restrict_map_def keyspace_def)
    with True 2 show ?thesis by simp
  next
    case False
    have "(keyspace e (d\<lparr>dat := AList.delete k (dat d)\<rparr>)) |` (- set ks) = (keyspace e d) |` (- insert k (set ks))"
      by (auto simp: restrict_map_def keyspace_def)
    with False 2 show ?thesis
      by (cases "db_Del ks (d\<lparr>dat := AList.delete k (dat d)\<rparr>)") simp
  qed
qed simp

lemma db_Del_wf [keeps_inv]: "wf_db d \<Longrightarrow> wf_db (snd (db_Del ks d))"
proof (induction ks d rule: db_Del.induct)
  case (2 k ks d)
  have "wf_db (d\<lparr>dat := AList.delete k (dat d)\<rparr>)"
    using 2(3) by (auto simp: wf_dbD intro!: wf_db_dat split: if_splits)
  with 2 show ?case by (auto split: prod.splits)
qed simp

lemma db_Del_heap [simp]: "heap (snd (db_Del ks d)) = heap d" "next_ref (snd (db_Del ks d)) = next_ref d"
  by (induction ks d rule: db_Del.induct) (auto split: prod.splits)

text \<open>The number returned counts each key once, expired entries included.\<close>

lemma db_Del_count: "fst (db_Del ks d) = int (card (set ks \<inter> dom (map_of (dat d))))"
proof (induction ks d rule: db_Del.induct)
  case (2 k ks d)
  show ?case
  proof (cases "map_of (dat d) k = None")
    case True
    then have "insert k (set ks) \<inter> dom (map_of (dat d)) = set ks \<inter> dom (map_of (dat d))" by auto
    with True 2 show ?thesis by simp
  next
    case False
    let ?d = "d\<lparr>dat := AList.delete k (dat d)\<rparr>"
    have "insert k (set ks) \<inter> dom (map_of (dat d)) = insert k (set ks \<inter> dom (map_of (dat ?d)))"
      using False by (auto split: if_splits)
    moreover have "k \<notin> set ks \<inter> dom (map_of (dat ?d))" by auto
    moreover have "finite (set ks \<inter> dom (map_of (dat ?d)))" by simp
    ultimately have "card (insert k (set ks) \<inter> dom (map_of (dat d))) = Suc (card (set ks \<inter> dom (map_of (dat ?d))))"
      by simp
    moreover have "fst (db_Del ks ?d) = int (card (set ks \<inter> dom (map_of (dat ?d))))"
      using False 2 by blast
    ultimately show ?thesis using False by (cases "db_Del ks ?d") simp
  qed
qed simp

lemma db_Exists_keyspace: "db_Exists e ks d = int (length (filter (\<lambda>k. k \<in> dom (keyspace e d)) ks))"
proof -
  have "live e d = (\<lambda>k. k \<in> dom (keyspace e d))" by (auto simp: keyspace_live)
  then show ?thesis by (simp add: db_Exists_def)
qed

lemma db_SetExpiry_keyspace [keyspace_simps]:
  "db_SetExpiry e k t d = (b, d') \<Longrightarrow>
    b = (keyspace e d k \<noteq> None) \<and>
    keyspace e d' = (case keyspace e d k of None \<Rightarrow> keyspace e d
      | Some (v, x) \<Rightarrow> (keyspace e d)(k := if t < now e then None else Some (v, Some t)))"
  by (fastforce simp: db_SetExpiry_def keyspace_def obj_view_def IsExpired_def split: option.splits if_splits)

lemma db_SetExpiry_wf [keeps_inv]: "wf_db d \<Longrightarrow> wf_db (snd (db_SetExpiry e k t d))"
  by (auto simp: db_SetExpiry_def wf_dbD intro!: wf_db_dat split: option.splits if_splits)

text \<open>
  \<open>RemoveExpiry\<close> does not look whether the key is still alive: on an entry that has
  expired but not been deleted yet it brings the key back.
\<close>

lemma db_RemoveExpiry_keyspace [keyspace_simps]:
  "keyspace e d k = Some (v, x) \<Longrightarrow>
    fst (db_RemoveExpiry k d) \<and> keyspace e (snd (db_RemoveExpiry k d)) = (keyspace e d)(k \<mapsto> (v, None))"
  by (cases "map_of (dat d) k")
    (auto simp: db_RemoveExpiry_def keyspace_def obj_view_def IsExpired_def fun_eq_iff split: if_splits)

lemma db_RemoveExpiry_wf [keeps_inv]: "wf_db d \<Longrightarrow> wf_db (snd (db_RemoveExpiry k d))"
  by (auto simp: db_RemoveExpiry_def wf_dbD intro!: wf_db_dat split: option.splits if_splits)

lemma db_TTL_keyspace:
  "db_TTL e k d =
    (case keyspace e d k of None \<Rightarrow> - 2
     | Some (v, None) \<Rightarrow> - 1
     | Some (v, Some t) \<Rightarrow> min max_int64 (t - now e))"
  by (auto simp: db_TTL_def keyspace_def obj_view_def IsExpired_def time_Sub_def Let_def int64_defs
      split: option.splits)

lemma db_Rename_keyspace [keyspace_simps]:
  "fst (db_Rename e src dst d) = (keyspace e d src \<noteq> None)"
  "keyspace e (snd (db_Rename e src dst d)) =
    (case keyspace e d src of None \<Rightarrow> keyspace e d
     | Some v \<Rightarrow> ((keyspace e d)(src := None))(dst \<mapsto> v))"
  by (auto simp: db_Rename_def keyspace_def obj_view_def fun_eq_iff split: option.splits)

lemma db_Rename_wf [keeps_inv]: "wf_db d \<Longrightarrow> wf_db (snd (db_Rename e src dst d))"
  by (auto simp: db_Rename_def wf_dbD intro!: wf_db_dat split: option.splits if_splits)

lemma db_Flush_keyspace [keyspace_simps]: "keyspace e (db_Flush d) = Map.empty"
  by (auto simp: db_Flush_def keyspace_def)

lemma db_Flush_wf [keeps_inv]: "wf_db d \<Longrightarrow> wf_db (db_Flush d)"
  by (auto simp: db_Flush_def intro!: wf_db_dat)

section \<open>Ranging over the keys\<close>

lemma iter_keys: "env_ok e \<Longrightarrow> set (iter e (map fst m)) = dom (map_of m)"
  by (simp add: env_ok_iter_set dom_map_of_conv_image_fst)

lemma live_keys_set: "env_ok e \<Longrightarrow> set (live_keys e d) = dom (keyspace e d)"
  by (auto simp: live_keys_def env_ok_iter_set keyspace_live)
    (auto simp: keyspace_def intro: rev_image_eqI dest!: map_of_SomeD split: bind_split_asm)

lemma live_keys_distinct: "env_ok e \<Longrightarrow> wf_db d \<Longrightarrow> distinct (live_keys e d)"
  by (simp add: live_keys_def env_ok_iter_distinct wf_db_def map_wf_def)

lemma db_Size_card: "env_ok e \<Longrightarrow> wf_db d \<Longrightarrow> db_Size e d = int (card (dom (keyspace e d)))"
  using distinct_card[OF live_keys_distinct] by (simp add: db_Size_def live_keys_set)

lemma db_Keys_set:
  "env_ok e \<Longrightarrow> set (db_Keys e p d) = {k. keyspace e d k \<noteq> None \<and> matchGlob p k}"
  by (auto simp: db_Keys_def live_keys_set)

lemma db_RandomKey_live:
  "env_ok e \<Longrightarrow> dom (keyspace e d) \<noteq> {} \<Longrightarrow> keyspace e d (db_RandomKey e d) \<noteq> None"
proof -
  assume e: "env_ok e" and d: "dom (keyspace e d) \<noteq> {}"
  have "live_keys e d \<noteq> []"
  proof
    assume "live_keys e d = []"
    then show False using live_keys_set[OF e, of d] d by simp
  qed
  then have "live_keys e d ! intn e 0 (length (live_keys e d)) \<in> set (live_keys e d)"
    by (intro nth_mem env_ok_intn[OF e]) simp
  with \<open>live_keys e d \<noteq> []\<close> show ?thesis
    using live_keys_set[OF e, of d] by (auto simp: db_RandomKey_def Let_def)
qed

end
