(* ===== verification/Sorted_Set.thy ===== *)
theory Sorted_Set
  imports Keyspace
begin

text \<open>
  The sorted set of store/store.go: the skip list and the map of scores stay in
  step, every member is there once, and each operation is the operation on the
  sequence of entries sorted by score and member. Scores are not NaN here; the
  command \<open>ZADD\<close> does not keep NaN out, and then nothing of this holds.
\<close>

definition zset_rel :: "zset \<Rightarrow> (string \<times> float64) list \<Rightarrow> bool" where
  "zset_rel z es \<longleftrightarrow> sl_view (zlist z) es \<and> map_wf (zscores z)
     \<and> (\<forall>m sc. (m, sc) \<in> set es \<longleftrightarrow> map_of (zscores z) m = Some sc)"

text \<open>Adding a member with a score: the old entry of the member goes.\<close>

definition z_without :: "string \<Rightarrow> (string \<times> float64) list \<Rightarrow> (string \<times> float64) list" where
  "z_without m es = filter (\<lambda>e. fst e \<noteq> m) es"

definition z_add :: "string \<Rightarrow> float64 \<Rightarrow> (string \<times> float64) list \<Rightarrow> (string \<times> float64) list" where
  "z_add m sc es = z_insert (m, sc) (z_without m es)"

lemma sorted_keys_distinct: "sorted_wrt (<) (map ekey es) \<Longrightarrow> distinct es"
  by (metis distinct_map strict_sorted_iff)

lemma zset_rel_distinct:
  assumes "zset_rel z es"
  shows "distinct (map fst es)"
proof -
  have "distinct es" using assms sl_view_sorted[of "zlist z" es] by (simp add: zset_rel_def sorted_keys_distinct)
  moreover have "inj_on fst (set es)"
    using assms by (auto simp: zset_rel_def inj_on_def)
  ultimately show ?thesis by (simp add: distinct_map)
qed

lemma zset_rel_New: "zset_rel NewZSet []"
  by (simp add: zset_rel_def NewZSet_def sl_view_New)

lemma z_delete_member:
  assumes "zset_rel z es" and "map_of (zscores z) m = Some old"
  shows "z_delete (m, old) es = z_without m es"
  unfolding z_delete_def z_without_def
proof (rule filter_cong)
  fix e assume e: "e \<in> set es"
  obtain n sc where n: "e = (n, sc)" by fastforce
  have "n = m \<Longrightarrow> sc = old" using e n assms by (auto simp: zset_rel_def)
  then show "(ekey e \<noteq> ekey (m, old)) = (fst e \<noteq> m)" by (auto simp: n ekey_def key_of_def)
qed simp

lemma z_insert_set: "set (z_insert e es) = insert e (set es)"
proof -
  have "set es = set (takeWhile (\<lambda>x. ekey x < ekey e) es) \<union> set (dropWhile (\<lambda>x. ekey x < ekey e) es)"
    by (metis set_append takeWhile_dropWhile_id)
  then show ?thesis by (auto simp: z_insert_def)
qed

lemma z_without_keys: "key_of sc m \<notin> ekey ` set (z_without m es)"
  by (auto simp: z_without_def ekey_def key_of_def)

lemma zset_entry_score:
  "zset_rel z es \<Longrightarrow> map_of (zscores z) m = Some sc \<Longrightarrow> (m, sc) \<in> set es \<and> \<not> f_nan sc"
  using sl_view_sorted[of "zlist z" es] by (fastforce simp: zset_rel_def list_all_iff)

text \<open>\<open>Add\<close>: the flag tells whether the member is new.\<close>

lemma ZSet_Add_rel:
  assumes R: "zset_rel z es" and sc: "\<not> f_nan sc" and lv: "1 \<le> lv" "lv \<le> skiplistMaxLevel"
  shows "zset_rel (snd (ZSet_Add lv sc m z)) (z_add m sc es)
    \<and> fst (ZSet_Add lv sc m z) = (m \<notin> fst ` set es)"
proof -
  have mem: "m \<in> fst ` set es \<longleftrightarrow> map_of (zscores z) m \<noteq> None"
    using R by (force simp: zset_rel_def)
  have keep: "(n, s) \<in> set (z_add m sc es) \<longleftrightarrow> map_of (AList.update m sc (zscores z)) n = Some s" for n s
    using R by (auto simp: z_add_def z_insert_set z_without_def zset_rel_def)
  have wf: "map_wf (AList.update m sc (zscores z))" using R by (simp add: zset_rel_def)
  show ?thesis
  proof (cases "map_of (zscores z) m")
    case None
    then have "z_without m es = es"
      using mem by (auto simp: z_without_def filter_id_conv)
    moreover have "sl_view (Insert lv sc m (zlist z)) (z_insert (m, sc) es)"
      using R None z_without_keys[of sc m es] calculation
      by (intro sl_view_Insert lv sc) (auto simp: zset_rel_def)
    ultimately show ?thesis using None mem keep wf
      by (simp add: ZSet_Add_def zset_rel_def z_add_def)
  next
    case (Some old)
    have "sl_view (snd (Delete old m (zlist z))) (z_without m es)"
      using sl_view_Delete[of "zlist z" es old m] R zset_entry_score[OF R Some] z_delete_member[OF R Some]
      by (simp add: zset_rel_def)
    then have "sl_view (Insert lv sc m (snd (Delete old m (zlist z)))) (z_add m sc es)"
      unfolding z_add_def using z_without_keys by (intro sl_view_Insert lv sc)
    with Some mem keep wf show ?thesis by (simp add: ZSet_Add_def zset_rel_def)
  qed
qed

lemma ZSet_Remove_rel:
  assumes R: "zset_rel z es"
  shows "zset_rel (snd (ZSet_Remove m z)) (z_without m es)
    \<and> fst (ZSet_Remove m z) = (m \<in> fst ` set es)"
proof -
  have mem: "m \<in> fst ` set es \<longleftrightarrow> map_of (zscores z) m \<noteq> None"
    using R by (force simp: zset_rel_def)
  show ?thesis
  proof (cases "map_of (zscores z) m")
    case None
    then have "z_without m es = es"
      using mem by (auto simp: z_without_def filter_id_conv)
    with None mem R show ?thesis by (simp add: ZSet_Remove_def)
  next
    case (Some old)
    have "sl_view (snd (Delete old m (zlist z))) (z_without m es)"
      using sl_view_Delete[of "zlist z" es old m] R zset_entry_score[OF R Some] z_delete_member[OF R Some]
      by (simp add: zset_rel_def)
    with Some mem R show ?thesis
      by (auto simp: ZSet_Remove_def zset_rel_def z_without_def)
  qed
qed

text \<open>The rank of a member is its position; the empty string is refused (the header
  of the skip list has it as its member).\<close>

lemma ZSet_Rank_rel:
  assumes R: "zset_rel z es" and i: "i < length es" "fst (es ! i) = m" and m: "m \<noteq> []"
  shows "ZSet_Rank m z = Some (int i)" and "ZSet_RevRank m z = Some (int (length es) - 1 - int i)"
proof -
  obtain ns where rel: "sl_rel (zlist z) ns" and es: "es = map (entry (zlist z)) ns"
    using R by (auto simp: zset_rel_def sl_view_def)
  obtain sc where e: "es ! i = (m, sc)" using i by (cases "es ! i") auto
  have "(m, sc) \<in> set es" using e i nth_mem by metis
  then have s: "map_of (zscores z) m = Some sc" using R by (simp add: zset_rel_def)
  have ns: "ns = take i ns @ ns ! i # drop (Suc i) ns" using i es by (simp add: id_take_nth_drop)
  have "distinct (map (\<lambda>a. member (snodes (zlist z) a)) ns)"
    using zset_rel_distinct[OF R] by (simp add: es comp_def)
  then have d: "distinct (map (\<lambda>a. member (snodes (zlist z) a)) (take i ns @ ns ! i # drop (Suc i) ns))"
    using ns by simp
  have "sl_rel (zlist z) (take i ns @ ns ! i # drop (Suc i) ns)" using rel ns by simp
  moreover have "entry (zlist z) (ns ! i) = (m, sc)" using e i es by simp
  ultimately have "GetRank sc m (zlist z) = int (length (take i ns)) + 1"
    using d m by (rule GetRank_rel)
  then have "GetRank sc m (zlist z) = int i + 1" using i es by simp
  with s show r: "ZSet_Rank m z = Some (int i)" by (simp add: ZSet_Rank_def)
  have "SLen (zlist z) = int (length es)"
    using sl_view_sorted[of "zlist z" es] R by (simp add: zset_rel_def SLen_def)
  with r show "ZSet_RevRank m z = Some (int (length es) - 1 - int i)" by (simp add: ZSet_RevRank_def)
qed

lemma ZSet_Score_rel: "zset_rel z es \<Longrightarrow> ZSet_Score m z = map_of es m"
proof -
  assume R: "zset_rel z es"
  have "map_of es m = Some sc \<longleftrightarrow> map_of (zscores z) m = Some sc" for sc
    using R zset_rel_distinct[OF R] by (simp add: zset_rel_def)
  then show ?thesis unfolding ZSet_Score_def by (intro option_eqI) blast
qed

lemma ZSet_Len_rel: "zset_rel z es \<Longrightarrow> ZSet_Len z = int (length es)"
  using sl_view_sorted[of "zlist z" es] by (simp add: zset_rel_def ZSet_Len_def SLen_def)

section \<open>The interface of a sorted set\<close>

text \<open>
  What a client of the sorted set may rely on: the entries are a function of the
  scores of the members (\<open>scores\<close>), ordered. From the laws of adding and removing
  alone follow the facts about sequences of updates.
\<close>

locale scored_set =
  fixes rel :: "'z \<Rightarrow> (string \<times> float64) list \<Rightarrow> bool"
    and add :: "float64 \<Rightarrow> string \<Rightarrow> 'z \<Rightarrow> bool \<times> 'z" and remove :: "string \<Rightarrow> 'z \<Rightarrow> bool \<times> 'z"
  assumes sorted: "rel z es \<Longrightarrow> sorted_wrt (<) (map ekey es) \<and> distinct (map fst es)"
    and add: "rel z es \<Longrightarrow> \<not> f_nan sc \<Longrightarrow> rel (snd (add sc m z)) (z_add m sc es) \<and> fst (add sc m z) = (m \<notin> fst ` set es)"
    and remove: "rel z es \<Longrightarrow> rel (snd (remove m z)) (z_without m es) \<and> fst (remove m z) = (m \<in> fst ` set es)"
begin

lemma z_add_set: "set (z_add m sc es) = insert (m, sc) {e \<in> set es. fst e \<noteq> m}"
  by (auto simp: z_add_def z_insert_set z_without_def)

lemma add_lookup:
  assumes "rel z es" and "\<not> f_nan sc"
  shows "\<exists>es'. rel (snd (add sc m z)) es' \<and> map_of es' = (map_of es)(m \<mapsto> sc)"
proof (intro exI conjI)
  show r: "rel (snd (add sc m z)) (z_add m sc es)" using add[OF assms] by blast
  show "map_of (z_add m sc es) = (map_of es)(m \<mapsto> sc)"
  proof
    fix n
    have "map_of (z_add m sc es) n = Some s \<longleftrightarrow> ((map_of es)(m \<mapsto> sc)) n = Some s" for s
      using sorted[OF r] sorted[OF assms(1)] z_add_set[of m sc es] by (auto simp: fun_upd_def)
    then show "map_of (z_add m sc es) n = ((map_of es)(m \<mapsto> sc)) n"
      by (rule option_eqI)
  qed
qed

lemma remove_lookup:
  assumes "rel z es"
  shows "\<exists>es'. rel (snd (remove m z)) es' \<and> map_of es' = (map_of es)(m := None)"
proof (intro exI conjI)
  show "rel (snd (remove m z)) (z_without m es)" using remove[OF assms] by blast
  show "map_of (z_without m es) = (map_of es)(m := None)"
    by (auto simp: z_without_def fun_eq_iff) (induction es; auto)+
qed

text \<open>Adding the same members again in any order changes nothing but the scores.\<close>

lemma add_all:
  assumes "rel z es" and "\<forall>(m, sc) \<in> set ps. \<not> f_nan sc"
  shows "\<exists>es'. rel (fold (\<lambda>(m, sc) z. snd (add sc m z)) ps z) es' \<and> map_of es' = map_of es ++ map_of (rev ps)"
  using assms
proof (induction ps arbitrary: z es)
  case (Cons p ps)
  obtain m sc where p: "p = (m, sc)" by fastforce
  then obtain es1 where es1: "rel (snd (add sc m z)) es1" "map_of es1 = (map_of es)(m \<mapsto> sc)"
    using add_lookup[of z es sc m] Cons.prems by auto
  obtain es' where es': "rel (fold (\<lambda>(m, sc) z. snd (add sc m z)) ps (snd (add sc m z))) es'"
    "map_of es' = map_of es1 ++ map_of (rev ps)"
    using Cons.IH[OF es1(1)] Cons.prems(2) by auto
  have "map_of es' = map_of es ++ map_of (rev (p # ps))"
    by (rule ext) (simp add: es'(2) es1(2) p map_add_def split: option.split)
  with es'(1) show ?case by (auto simp: p)
qed auto

end

interpretation zset_model: scored_set zset_rel "ZSet_Add (randomLevel coins)" ZSet_Remove for coins
proof unfold_locales
  fix z es assume "zset_rel z es"
  then show "sorted_wrt (<) (map ekey es) \<and> distinct (map fst es)"
    using sl_view_sorted[of "zlist z" es] zset_rel_distinct[of z es] by (simp add: zset_rel_def)
next
  fix z es and sc :: float64 and m assume "zset_rel z es" "\<not> f_nan sc"
  then show "zset_rel (snd (ZSet_Add (randomLevel coins) sc m z)) (z_add m sc es)
    \<and> fst (ZSet_Add (randomLevel coins) sc m z) = (m \<notin> fst ` set es)"
    using randomLevel_range[of coins] by (intro ZSet_Add_rel) auto
next
  fix z es m assume "zset_rel z es"
  then show "zset_rel (snd (ZSet_Remove m z)) (z_without m es) \<and> fst (ZSet_Remove m z) = (m \<in> fst ` set es)"
    by (rule ZSet_Remove_rel)
qed

end
