(* ===== verification/Data_Properties.thy ===== *)
theory Data_Properties
  imports Resp Sorted_Set
begin

text \<open>
  The properties of the protocol and of the data structures, each with an example
  to which it applies. The values of the examples are small, but every branch the
  property speaks of is taken.
\<close>

section \<open>The wire protocol\<close>

definition sample_command :: resp_value where
  "sample_command = array_value [bulk_value ''SET'', bulk_value ''k'', null_bulk_value, int_value (- 7)]"

lemma sample_command_ok: "wire_ok sample_command" "wire_ok (error_value ''ERR'')"
  by (simp_all add: sample_command_def value_defs type_defs int64_defs max_alloc_def NL_def)

text \<open>
  C11. The parser inverts the serializer: a value that can be sent is written
  without an error, and reading the bytes gives the value back and leaves what
  follows in the stream.
\<close>

theorem wire_roundtrip:
  "wire_ok v \<Longrightarrow> snd (WriteValue v) \<and> ReadValue (fst (WriteValue v) @ rest) = Ret (Inr (v, rest))"
  by (rule ReadValue_write)

theorem wire_roundtrip_witness:
  "ReadValue (fst (WriteValue sample_command) @ ''*1'') = Ret (Inr (sample_command, ''*1''))"
  using wire_roundtrip[OF sample_command_ok(1)] by blast

text \<open>
  Pipelining: reading a stream of written values until the stream ends gives
  all of them, in order.
\<close>

theorem pipelined_stream:
  "list_all wire_ok vs \<Longrightarrow> read_all (concat (map (\<lambda>v. fst (WriteValue v)) vs)) = vs"
  by (rule read_all_writes)

theorem pipelined_stream_witness:
  "read_all (fst (WriteValue sample_command) @ fst (WriteValue (error_value ''ERR''))) =
    [sample_command, error_value ''ERR'']"
  using pipelined_stream[of "[sample_command, error_value ''ERR'']"] sample_command_ok by simp

text \<open>
  C38. Reading a value terminates on every input, however arrays are nested; a value
  that was read has consumed input and does not depend on what follows it.
\<close>

theorem reader_terminates:
  "ReadValue s \<noteq> Panic out_of_fuel \<and> (\<forall>v rest. ReadValue s = Ret (Inr (v, rest)) \<longrightarrow>
    length rest < length s \<and> (\<forall>t. ReadValue (s @ t) = Ret (Inr (v, rest @ t))))"
  using ReadValue_consumes[of s] ReadValue_more[of s] by (simp add: consumes_def)

theorem reader_terminates_witness:
  "ReadValue ('':7'' @ crlf @ ''x'' @ ''yz'') = Ret (Inr (int_value 7, ''x'' @ ''yz''))"
proof -
  have "ReadValue ('':7'' @ crlf @ ''x'') = Ret (Inr (int_value 7, ''x''))"
    by (simp add: ReadValue_def type_defs readInteger_def readLine_def crlf_def CR_def NL_def ParseInt_def
        ParseUint_def parsed_def is_digit_def digit_val_def max_uint64_def)
  with reader_terminates[of "'':7'' @ crlf @ ''x''"] have "ReadValue (('':7'' @ crlf @ ''x'') @ ''yz'') =
      Ret (Inr (int_value 7, ''x'' @ ''yz''))" by blast
  then show ?thesis by (simp only: append_assoc)
qed

section \<open>The linked list\<close>

text \<open>The list a, b, c, a, b.\<close>

definition sample_list :: llist where
  "sample_list = LPush [''a''] (RPush [''b'', ''c'', ''a'', ''b''] NewList)"

lemma sample_list_wf: "list_wf sample_list" "elems sample_list = [''a'', ''b'', ''c'', ''a'', ''b'']"
  using RPush_wf[OF NewList_wf(1), of "[''b'', ''c'', ''a'', ''b'']"]
    LPush_wf[of "RPush [''b'', ''c'', ''a'', ''b''] NewList" "[''a'']"]
  by (simp_all add: sample_list_def del: LPush.simps RPush.simps)

text \<open>
  A list is a queue: what is pushed on the left comes out on the right in the
  order of pushing, behind what was there, and the list stays well formed.
\<close>

theorem list_queue:
  assumes "list_wf l"
  shows "fst (pop_loop RPop (length (elems l) + length vs) (LPush vs l)) = rev (elems l) @ vs
    \<and> list_wf (LPush vs l) \<and> elems (LPush vs l) = rev vs @ elems l"
  using list_deque.fifo[OF assms, of vs] LPush_wf[OF assms, of vs] by (simp_all add: LPush_fold)

theorem list_queue_witness:
  "fst (pop_loop RPop 7 (LPush [''x'', ''y''] sample_list)) =
    [''b'', ''a'', ''c'', ''b'', ''a'', ''x'', ''y'']"
  using list_queue[OF sample_list_wf(1), of "[''x'', ''y'']"] by (simp add: sample_list_wf(2) numeral_eq_Suc)

text \<open>
  \<open>Range\<close> returns, and \<open>Trim\<close> keeps, the slice between two indices, negative
  ones counted from the end and both clamped to the list; \<open>Trim\<close> relinks the nodes
  so that the list stays well formed from both sides.
\<close>

theorem list_slices:
  assumes "list_wf l"
  shows "Range start stop l = seq_slice start stop (elems l)
    \<and> list_wf (Trim start stop l) \<and> elems (Trim start stop l) = seq_slice start stop (elems l)"
  using Range_wf[OF assms] Trim_wf[OF assms] by blast

theorem list_slices_witness:
  "Range (- 4) 2 sample_list = [''b'', ''c''] \<and> elems (Trim (- 4) 2 sample_list) = [''b'', ''c'']"
  using list_slices[OF sample_list_wf(1), of "- 4" 2] by (simp add: sample_list_wf(2) seq_slice_def)

text \<open>
  \<open>Remove\<close> deletes the first occurrences of a value, counted from the head for a
  positive count and from the tail for a negative one, all of them for zero; it
  returns how many it deleted. (The count \<open>-2^63\<close> is left out: its negation
  overflows, and the code then deletes nothing.)
\<close>

theorem list_remove:
  assumes "list_wf l" and "min_int64 < cnt" and "cnt \<le> max_int64"
  shows "list_wf (snd (Remove cnt x l)) \<and> elems (snd (Remove cnt x l)) = seq_remove cnt x (elems l)
    \<and> fst (Remove cnt x l) = int (length (elems l)) - int (length (seq_remove cnt x (elems l)))"
  by (rule Remove_wf[OF assms])

theorem list_remove_witness:
  "elems (snd (Remove (- 1) ''a'' sample_list)) = [''a'', ''b'', ''c'', ''b'']
    \<and> fst (Remove (- 1) ''a'' sample_list) = 1"
  using list_remove[OF sample_list_wf(1), of "- 1" "''a''"]
  by (simp add: sample_list_wf(2) seq_remove_def int64_defs)

text \<open>
  \<open>InsertBefore\<close> and \<open>InsertAfter\<close> put the value next to the first occurrence of
  the pivot and return the new length, or leave the list and return -1.
\<close>

theorem list_insert:
  assumes "list_wf l"
  shows "list_wf (snd (InsertBefore p v l)) \<and> elems (snd (InsertBefore p v l)) = seq_insert_before p v (elems l)
    \<and> list_wf (snd (InsertAfter p v l)) \<and> elems (snd (InsertAfter p v l)) = seq_insert_after p v (elems l)
    \<and> fst (InsertBefore p v l) = (if p \<in> set (elems l) then int (length (elems l)) + 1 else - 1)
    \<and> fst (InsertAfter p v l) = (if p \<in> set (elems l) then int (length (elems l)) + 1 else - 1)"
  using InsertBefore_wf[OF assms, of p v] InsertAfter_wf[OF assms, of p v] by simp

theorem list_insert_witness:
  "elems (snd (InsertBefore ''b'' ''x'' sample_list)) = [''a'', ''x'', ''b'', ''c'', ''a'', ''b'']
    \<and> elems (snd (InsertAfter ''b'' ''x'' sample_list)) = [''a'', ''b'', ''x'', ''c'', ''a'', ''b'']
    \<and> fst (InsertAfter ''z'' ''x'' sample_list) = - 1"
  using list_insert[OF sample_list_wf(1), of "''b''" "''x''"] list_insert[OF sample_list_wf(1), of "''z''" "''x''"]
  by (simp add: sample_list_wf(2) seq_insert_before_def seq_insert_after_def)

section \<open>The skip list\<close>

text \<open>Scores of the examples: 1.0, 2.0 and 3.0.\<close>

definition f_one :: float64 where "f_one = 0x3FF0000000000000"
definition f_two :: float64 where "f_two = 0x4000000000000000"
definition f_three :: float64 where "f_three = 0x4008000000000000"

lemmas f_consts = f_one_def f_two_def f_three_def

lemma f_const_keys:
  "f_key f_one = 0x3FF0000000000000" "f_key f_two = 0x4000000000000000" "f_key f_three = 0x4008000000000000"
  "\<not> f_nan f_one" "\<not> f_nan f_two" "\<not> f_nan f_three"
  by (simp_all add: f_consts f_key_def f_sign_def f_mag_def f_nan_def)

text \<open>
  C15. \<open>Insert\<close> puts a new entry at its place in the order by score and member,
  whatever level the coins give: the chains of all levels, the spans, the backward
  pointers, the tail and the length agree with the longer sequence.
\<close>

theorem skiplist_insert:
  assumes "sl_view sl es" and "\<not> f_nan sc" and "key_of sc m \<notin> ekey ` set es"
  shows "sl_view (Insert (randomLevel coins) sc m sl) (z_insert (m, sc) es)"
  using assms randomLevel_range[of coins] by (intro sl_view_Insert) auto

theorem skiplist_insert_witness:
  "sl_view (Insert (randomLevel (\<lambda>i. i < 3)) f_two ''m'' NewSkiplist) [(''m'', f_two)]"
  using skiplist_insert[OF sl_view_New, of f_two "''m''" "\<lambda>i. i < 3"] by (simp add: f_const_keys z_insert_def)

lemma sample_skiplist:
  "sl_view (Insert 3 f_one ''b'' (Insert 1 f_three ''a'' (Insert 2 f_two ''c'' NewSkiplist)))
    [(''b'', f_one), (''c'', f_two), (''a'', f_three)]"
proof -
  have lv: "1 \<le> (1::nat)" "1 \<le> (2::nat)" "1 \<le> (3::nat)" "1 \<le> skiplistMaxLevel" "2 \<le> skiplistMaxLevel" "3 \<le> skiplistMaxLevel"
    by (simp_all add: skiplistMaxLevel_def)
  have 1: "sl_view (Insert 2 f_two ''c'' NewSkiplist) [(''c'', f_two)]"
    using sl_view_Insert[OF sl_view_New lv(2,5), of f_two "''c''"] by (simp add: f_const_keys z_insert_def)
  have 2: "sl_view (Insert 1 f_three ''a'' (Insert 2 f_two ''c'' NewSkiplist)) [(''c'', f_two), (''a'', f_three)]"
    using sl_view_Insert[OF 1 lv(1,4), of f_three "''a''"]
    by (simp add: f_const_keys z_insert_def ekey_def key_of_def less_zkey_def)
  show ?thesis
    using sl_view_Insert[OF 2 lv(3,6), of f_one "''b''"]
    by (simp add: f_const_keys z_insert_def ekey_def key_of_def less_zkey_def)
qed

text \<open>
  C16. \<open>Delete\<close> takes out exactly the entry with the given score and member, relinks
  every level it was on, and says whether it was there.
\<close>

theorem skiplist_delete:
  assumes "sl_view sl es" and "\<not> f_nan sc"
  shows "sl_view (snd (Delete sc m sl)) (z_delete (m, sc) es)
    \<and> fst (Delete sc m sl) = (key_of sc m \<in> ekey ` set es)"
  by (rule sl_view_Delete[OF assms])

theorem skiplist_delete_witness:
  "sl_view (snd (Delete f_two ''c'' (Insert 3 f_one ''b'' (Insert 1 f_three ''a'' (Insert 2 f_two ''c'' NewSkiplist)))))
    [(''b'', f_one), (''a'', f_three)]"
  using skiplist_delete[OF sample_skiplist f_const_keys(5), of "''c''"]
  by (simp add: z_delete_def ekey_def key_of_def f_const_keys)

text \<open>
  C34. A range by score, in either direction, is the page of the entries whose score
  lies within the bounds, and the count is their number.
\<close>

theorem skiplist_score_ranges:
  assumes "sl_view sl es" and "\<not> f_nan mn" and "\<not> f_nan mx"
  shows "RangeByScore mn mx offset cnt sl = paged offset cnt (z_in_scores mn mx es)
    \<and> RevRangeByScore mx mn offset cnt sl = paged offset cnt (rev (z_in_scores mn mx es))
    \<and> CountByScore mn mx sl = int (length (z_in_scores mn mx es))"
  using RangeByScore_rel[OF assms(1,2)] RevRangeByScore_rel[OF assms(1,3,2)] by blast

theorem skiplist_score_ranges_witness:
  "RevRangeByScore f_three f_two 1 1 (Insert 3 f_one ''b'' (Insert 1 f_three ''a'' (Insert 2 f_two ''c'' NewSkiplist)))
    = [(''c'', f_two)]"
  using skiplist_score_ranges[OF sample_skiplist f_const_keys(5,6), of 1 1]
  by (simp add: paged_def z_in_scores_def f_le_def f_const_keys)

text \<open>
  A range by rank is the slice of the sequence between two ranks, counted from 1
  and clamped to the list. It rests on the spans of all levels.
\<close>

theorem skiplist_rank_range:
  assumes "sl_view sl es"
  shows "RangeByRank start stop sl =
    (let start = max 1 start; stop = min stop (int (length es))
     in if stop < start then [] else take (nat (stop - start + 1)) (drop (nat (start - 1)) es))"
  by (rule RangeByRank_rel[OF assms])

theorem skiplist_rank_range_witness:
  "RangeByRank 2 5 (Insert 3 f_one ''b'' (Insert 1 f_three ''a'' (Insert 2 f_two ''c'' NewSkiplist)))
    = [(''c'', f_two), (''a'', f_three)]"
  using skiplist_rank_range[OF sample_skiplist, of 2 5] by simp

section \<open>The sorted set\<close>

text \<open>A history of a sorted set: each addition draws its own level.\<close>

datatype zset_op = ZAdd "nat \<Rightarrow> bool" float64 string | ZRem string

fun zset_apply :: "zset_op \<Rightarrow> zset \<Rightarrow> zset" where
  "zset_apply (ZAdd coins sc m) z = snd (ZSet_Add (randomLevel coins) sc m z)"
| "zset_apply (ZRem m) z = snd (ZSet_Remove m z)"

fun scores_apply :: "zset_op \<Rightarrow> (string \<rightharpoonup> float64) \<Rightarrow> string \<rightharpoonup> float64" where
  "scores_apply (ZAdd coins sc m) f = f(m \<mapsto> sc)"
| "scores_apply (ZRem m) f = f(m := None)"

fun op_ok :: "zset_op \<Rightarrow> bool" where
  "op_ok (ZAdd coins sc m) = (\<not> f_nan sc)"
| "op_ok (ZRem m) = True"

lemma zset_apply_rel:
  "zset_rel z es \<Longrightarrow> op_ok x \<Longrightarrow> \<exists>es'. zset_rel (zset_apply x z) es' \<and> map_of es' = scores_apply x (map_of es)"
  by (cases x) (auto dest: zset_model.add_lookup zset_model.remove_lookup)

lemma zset_history_rel:
  "zset_rel z es \<Longrightarrow> list_all op_ok ops \<Longrightarrow>
    \<exists>es'. zset_rel (fold zset_apply ops z) es' \<and> map_of es' = fold scores_apply ops (map_of es)"
proof (induction ops arbitrary: z es)
  case (Cons x ops)
  then obtain es' where "zset_rel (zset_apply x z) es'" "map_of es' = scores_apply x (map_of es)"
    using zset_apply_rel[of z es x] by auto
  with Cons.IH[of "zset_apply x z" es'] Cons.prems(2) show ?case by auto
qed auto

text \<open>
  C14. After any history of additions, updates and removals in which no score is a NaN
  (\<open>op_ok\<close>), the sorted set holds exactly the scores the history leaves, each member once, in
  the order of score and member: the skip list and the map of scores do not get out of step. A
  full range by rank shows it. The condition is needed, and \<open>ZADD\<close> does not check it: it
  takes \<open>nan\<close> for a score, and the skip list cannot find an entry with such a score again.
\<close>

theorem zset_history:
  assumes "list_all op_ok ops"
  shows "\<exists>es. zset_rel (fold zset_apply ops NewZSet) es \<and> map_of es = fold scores_apply ops Map.empty
    \<and> sorted_wrt (<) (map ekey es) \<and> distinct (map fst es)
    \<and> RangeByRank 1 (ZSet_Len (fold zset_apply ops NewZSet)) (zlist (fold zset_apply ops NewZSet)) = es"
proof -
  obtain es where es: "zset_rel (fold zset_apply ops NewZSet) es" "map_of es = fold scores_apply ops Map.empty"
    using zset_history_rel[OF zset_rel_New assms] by auto
  then have "sl_view (zlist (fold zset_apply ops NewZSet)) es" by (simp add: zset_rel_def)
  then show ?thesis
    using es zset_model.sorted[OF es(1)] by (intro exI[of _ es]) (simp add: RangeByRank_rel ZSet_Len_rel)
qed

theorem zset_history_witness:
  "\<exists>es. map_of es = [''a'' \<mapsto> f_three, ''b'' \<mapsto> f_two] \<and> sorted_wrt (<) (map ekey es)
    \<and> (let z = fold zset_apply [ZAdd (\<lambda>i. False) f_one ''a'', ZAdd (\<lambda>i. i < 2) f_two ''b'',
         ZAdd (\<lambda>i. False) f_two ''c'', ZAdd (\<lambda>i. i < 1) f_three ''a'', ZRem ''c''] NewZSet
       in RangeByRank 1 (ZSet_Len z) (zlist z) = es)"
proof -
  have "fold scores_apply [ZAdd (\<lambda>i. False) f_one ''a'', ZAdd (\<lambda>i. i < 2) f_two ''b'',
      ZAdd (\<lambda>i. False) f_two ''c'', ZAdd (\<lambda>i. i < 1) f_three ''a'', ZRem ''c''] Map.empty
    = [''a'' \<mapsto> f_three, ''b'' \<mapsto> f_two]" by auto
  with zset_history[of "[ZAdd (\<lambda>i. False) f_one ''a'', ZAdd (\<lambda>i. i < 2) f_two ''b'',
      ZAdd (\<lambda>i. False) f_two ''c'', ZAdd (\<lambda>i. i < 1) f_three ''a'', ZRem ''c'']"]
  show ?thesis unfolding Let_def by (auto simp: f_const_keys simp del: fold_simps)
qed

text \<open>
  C35. The rank of a member is its position in the order by score and member, the
  reverse rank its position from the end; the score is the one it was given. (The
  empty member is left out: the header of the skip list carries it.)
\<close>

theorem zset_rank:
  assumes "zset_rel z es" and "i < length es" and "fst (es ! i) = m" and "m \<noteq> []"
  shows "ZSet_Rank m z = Some (int i) \<and> ZSet_RevRank m z = Some (int (length es) - 1 - int i)
    \<and> ZSet_Score m z = Some (snd (es ! i))"
proof -
  have "(m, snd (es ! i)) \<in> set es" using assms(2,3) by (metis nth_mem prod.collapse)
  then have "map_of es m = Some (snd (es ! i))" using zset_rel_distinct[OF assms(1)] by simp
  then show ?thesis using ZSet_Rank_rel[OF assms] ZSet_Score_rel[OF assms(1)] by simp
qed

lemma sample_zset:
  "zset_rel (snd (ZSet_Add (randomLevel (\<lambda>i. False)) f_one ''b'' (snd (ZSet_Add (randomLevel (\<lambda>i. i < 4)) f_two ''a'' NewZSet))))
    [(''b'', f_one), (''a'', f_two)]"
proof -
  have 1: "zset_rel (snd (ZSet_Add (randomLevel (\<lambda>i. i < 4)) f_two ''a'' NewZSet)) [(''a'', f_two)]"
    using zset_model.add[OF zset_rel_New f_const_keys(5), of "\<lambda>i. i < 4" "''a''"]
    by (simp add: z_add_def z_without_def z_insert_def)
  show ?thesis
    using zset_model.add[OF 1 f_const_keys(4), of "\<lambda>i. False" "''b''"]
    by (simp add: z_add_def z_without_def z_insert_def ekey_def key_of_def less_zkey_def f_const_keys)
qed

theorem zset_rank_witness:
  "ZSet_Rank ''a'' (snd (ZSet_Add (randomLevel (\<lambda>i. False)) f_one ''b'' (snd (ZSet_Add (randomLevel (\<lambda>i. i < 4)) f_two ''a'' NewZSet))))
    = Some 1"
  using zset_rank[OF sample_zset, of 1 "''a''"] by simp

end
