(* ===== verification/Scan.thy ===== *)
theory Scan
  imports Keyspace
begin

text \<open>
  \<open>SCAN\<close> over a database that does not change. Go ranges over the map in an order of its own
  in each call. A full iteration comes to an end all the same, and returns only keys that are asked
  for. It returns all of them when they fit in one page, or when the orders happen to be the same;
  the pages wrap around the end of the key list, so a key can come twice.
\<close>

lemma go_mod_nonneg: "0 \<le> a \<Longrightarrow> 0 < b \<Longrightarrow> go_mod a b = a mod b"
  by (simp add: go_mod_def)

lemma scan_loop_pages:
  assumes K: "K \<noteq> []"
  shows "0 \<le> cnt \<Longrightarrow> int (length result) \<le> cnt \<Longrightarrow>
    scan_loop K w cnt (int s) n (int i) result =
      Ret (result @ take (nat cnt - length result) (filter w (map (\<lambda>j. K ! ((s + j) mod length K)) [i..<i + n])))"
proof (induction n arbitrary: i result)
  case (Suc n)
  have idx: "go_mod (int s + int i) (int (length K)) = int ((s + i) mod length K)"
    using K by (simp add: go_mod_nonneg zmod_int)
  have si: "int i + 1 = int (Suc i)" by simp
  let ?k = "K ! ((s + i) mod length K)"
  have up: "[i..<i + Suc n] = i # [Suc i..<Suc i + n]" by (simp add: upt_conv_Cons)
  show ?case
  proof (cases "cnt \<le> int (length result)")
    case True
    with Suc.prems show ?thesis by simp
  next
    case False
    define result' where "result' = (if w ?k then result @ [?k] else result)"
    have "scan_loop K w cnt (int s) (Suc n) (int i) result = scan_loop K w cnt (int s) n (int (Suc i)) result'"
      using False by (simp add: Let_def idx result'_def si[symmetric] del: of_nat_Suc of_nat_add)
    also have "\<dots> = Ret (result' @ take (nat cnt - length result')
        (filter w (map (\<lambda>j. K ! ((s + j) mod length K)) [Suc i..<Suc i + n])))"
      using Suc.prems False by (intro Suc.IH) (auto simp: result'_def)
    also have "result' @ take (nat cnt - length result') (filter w (map (\<lambda>j. K ! ((s + j) mod length K)) [Suc i..<Suc i + n]))
      = result @ take (nat cnt - length result) (filter w (map (\<lambda>j. K ! ((s + j) mod length K)) [i..<i + Suc n]))"
    proof -
      have "nat cnt - length result = Suc (nat cnt - Suc (length result))" using False by linarith
      then show ?thesis unfolding up by (simp add: result'_def)
    qed
    finally show ?thesis .
  qed
qed simp

lemma rotate_conv: "map (\<lambda>j. K ! ((s + j) mod length K)) [0..<length K] = rotate s K"
  by (rule nth_equalityI) (auto simp: nth_rotate)

text \<open>One page: what a call returns and where the next one starts.\<close>

definition page :: "string list \<Rightarrow> (string \<Rightarrow> bool) \<Rightarrow> nat \<Rightarrow> nat \<Rightarrow> string list" where
  "page K w cnt s = take cnt (filter w (rotate s K))"

lemma db_Scan_page:
  assumes K: "live_keys e d = K" "K \<noteq> []" and s: "s < length K" and small: "2 * int (length K) \<le> max_int64"
  shows "db_Scan e (int s) want pattern tfilter d =
    (let cnt = nat (if want \<le> 0 then 10 else want); r = page K (scan_wanted pattern tfilter d) cnt s
     in Ret (if length r = cnt then int ((s + cnt) mod length K) else 0, r))"
proof -
  let ?cnt = "if want \<le> 0 then 10 else want"
  have m: "go_mod (int s) (int (length K)) = int s" using s by (simp add: go_mod_def flip: zmod_int)
  have l: "scan_loop K (scan_wanted pattern tfilter d) ?cnt (int s) (length K) 0 []
      = Ret (page K (scan_wanted pattern tfilter d) (nat ?cnt) s)"
    using scan_loop_pages[OF K(2), of ?cnt "[]" "scan_wanted pattern tfilter d" s "length K" 0]
    by (simp add: page_def rotate_conv)
  have n: "(if int (length r) = ?cnt then go_mod (wrap64 (int s + ?cnt)) (int (length K)) else 0) =
      (if length r = nat ?cnt then int ((s + nat ?cnt) mod length K) else 0)" if "length r \<le> length K" for r :: "string list"
  proof (cases "int (length r) = ?cnt")
    case True
    then have "int64_range (int s + ?cnt)" using that s small by (simp add: int64_defs)
    then show ?thesis using True K(2) by (simp add: wrap64_id go_mod_nonneg zmod_int)
  next
    case False
    then have "length r \<noteq> nat ?cnt" by auto
    with False show ?thesis by simp
  qed
  have "length (page K (scan_wanted pattern tfilter d) (nat ?cnt) s) \<le> length K"
    using length_filter_le[of "scan_wanted pattern tfilter d" "rotate s K"] by (simp add: page_def)
  from n[OF this] show ?thesis
    by (simp only: db_Scan_def Let_def K if_not_P[OF K(2)] m l go_bind.simps if_False)
qed

section \<open>A full iteration\<close>

text \<open>The calls of an iteration: \<open>f i\<close> is the call number \<open>i\<close>, at most \<open>n\<close> calls are made.\<close>

fun scan_iter :: "(nat \<Rightarrow> int \<Rightarrow> (int \<times> string list) go) \<Rightarrow> nat \<Rightarrow> nat \<Rightarrow> int \<Rightarrow> string list option" where
  "scan_iter f 0 i cursor = None"
| "scan_iter f (Suc n) i cursor =
     (case f i cursor of
        Panic m \<Rightarrow> None
      | Ret (next_cursor, ks) \<Rightarrow>
          if next_cursor = 0 then Some ks else map_option (\<lambda>ks'. ks @ ks') (scan_iter f n (Suc i) next_cursor))"

lemma scan_iter_more: "scan_iter f n i c = Some ks \<Longrightarrow> n \<le> n' \<Longrightarrow> scan_iter f n' i c = Some ks"
proof (induction f n i c arbitrary: n' ks rule: scan_iter.induct)
  case (2 f n i cursor)
  obtain n'' where n': "n' = Suc n''" using "2.prems"(2) by (cases n') auto
  show ?case
  proof (cases "f i cursor")
    case (Ret p)
    obtain nc kl where p: "p = (nc, kl)" by fastforce
    show ?thesis
    proof (cases "nc = 0")
      case True
      with "2.prems" Ret p n' show ?thesis by simp
    next
      case False
      with "2.prems" Ret p obtain ks' where ks': "scan_iter f n (Suc i) nc = Some ks'" "ks = kl @ ks'" by auto
      from "2.IH"[OF Ret p[symmetric] False ks'(1), of n''] "2.prems"(2) n' Ret p False ks' show ?thesis by simp
    qed
  qed (use "2.prems" in simp)
qed simp

lemma page_window:
  assumes "K \<noteq> []" and "i \<le> q" and "q < i + cnt" and "w (K ! (q mod length K))"
  shows "K ! (q mod length K) \<in> set (page K w cnt (i mod length K))"
proof -
  let ?t = "(q - i) mod length K" and ?L = "rotate (i mod length K) K"
  have t: "?t < length ?L" "?t < cnt" using assms(1-3) le_less_trans[OF mod_less_eq_dividend, of "q - i" cnt] by auto
  have "(i mod length K + ?t) mod length K = q mod length K"
    using assms(2) by (metis le_add_diff_inverse mod_add_eq)
  then have x: "?L ! ?t = K ! (q mod length K)" using t by (simp add: nth_rotate)
  have "?L = take ?t ?L @ ?L ! ?t # drop (Suc ?t) ?L" using t(1) by (simp add: id_take_nth_drop)
  then have "filter w ?L = filter w (take ?t ?L) @ ?L ! ?t # filter w (drop (Suc ?t) ?L)"
    using assms(4) x by (metis filter.simps(2) filter_append)
  moreover have "length (filter w (take ?t ?L)) < cnt"
    using length_filter_le[of w "take ?t ?L"] t by simp
  ultimately show ?thesis unfolding page_def x[symmetric]
    by (simp add: take_Cons' not_le)
qed

lemma page_short: "length (page K w cnt s) \<noteq> cnt \<Longrightarrow> set (page K w cnt s) = {k \<in> set K. w k}"
  by (auto simp: page_def min_def split: if_splits)

lemma page_subset: "set (page K w cnt s) \<subseteq> {k \<in> set K. w k}"
  by (auto simp: page_def dest: in_set_takeD)

lemma page_all:
  assumes "distinct K" and "card {k \<in> set K. w k} \<le> cnt"
  shows "set (page K w cnt s) = {k \<in> set K. w k}"
proof -
  have "length (filter w (rotate s K)) = card {k \<in> set K. w k}"
    using assms(1) distinct_card[of "filter w (rotate s K)"] by simp
  with assms(2) show ?thesis by (simp add: page_def)
qed

text \<open>The calls start at \<open>i * cnt\<close> for \<open>i = 0, 1, ...\<close>, whatever the orders \<open>K i\<close> of the \<open>L\<close> keys; at the latest
  the call number \<open>L\<close> is back at the beginning. When the orders are the same, the pages cover the keys.\<close>

lemma scan_iter_covers:
  assumes L: "0 < L" "\<And>i. length (K i) = L" "\<And>i. set (K i) = S" and cnt: "0 < cnt"
    and f: "\<And>i s. s < L \<Longrightarrow> f i (int s) = Ret (if length (page (K i) w cnt s) = cnt then int ((s + cnt) mod L) else 0, page (K i) w cnt s)"
    and m: "L dvd m * cnt"
  shows "i < m \<Longrightarrow> \<exists>ks. scan_iter f (m - i) i (int ((i * cnt) mod L)) = Some ks \<and> set ks \<subseteq> {k \<in> S. w k}
    \<and> set (page (K i) w cnt ((i * cnt) mod L)) \<subseteq> set ks
    \<and> ((\<forall>j. K j = K 0) \<longrightarrow> set ks = {k \<in> S. w k} \<or> (\<exists>m'. i < m' \<and> L dvd m' * cnt
        \<and> (\<forall>q. i * cnt \<le> q \<longrightarrow> q < m' * cnt \<longrightarrow> w (K 0 ! (q mod L)) \<longrightarrow> K 0 ! (q mod L) \<in> set ks)))"
proof (induction "m - i" arbitrary: i)
  case (Suc n)
  let ?s = "(i * cnt) mod L" and ?p = "page (K i) w cnt ((i * cnt) mod L)"
  let ?W = "{k \<in> S. w k}"
  have K: "K i \<noteq> []" using L(1) L(2)[of i] by auto
  have fs: "f i (int ?s) = Ret (if length ?p = cnt then int ((Suc i * cnt) mod L) else 0, ?p)"
    using f[of ?s] L(1) by (simp add: mod_simps add.commute)
  have win: "i * cnt \<le> q \<Longrightarrow> q < Suc i * cnt \<Longrightarrow> w (K 0 ! (q mod L)) \<Longrightarrow> K 0 ! (q mod L) \<in> set ?p" if "\<forall>j. K j = K 0" for q
    using page_window[OF K, of "i * cnt" q cnt w] spec[OF that, of i] L(2)[of i] by simp
  have sub: "set ?p \<subseteq> ?W" using page_subset[of "K i" w cnt ?s] L(3) by simp
  have n: "m - i = Suc n" using Suc.hyps(2) by simp
  show ?case
  proof (cases "length ?p = cnt")
    case False
    with page_short[OF False] fs n L(3) show ?thesis by simp
  next
    case full: True
    show ?thesis
    proof (cases "(Suc i * cnt) mod L = 0")
      case True
      then have "L dvd Suc i * cnt" by (simp add: mod_eq_0_iff_dvd)
      with True full fs n win sub show ?thesis
        by (intro exI[of _ ?p]) (auto intro!: exI[of _ "Suc i"])
    next
      case False
      have n': "n = m - Suc i" using n by simp
      have "Suc i < m"
      proof (rule ccontr)
        assume "\<not> Suc i < m"
        then have "Suc i = m" using Suc.prems by simp
        with False m show False by simp
      qed
      with n' obtain ks where ks: "scan_iter f (m - Suc i) (Suc i) (int ((Suc i * cnt) mod L)) = Some ks" "set ks \<subseteq> ?W"
        and c: "(\<forall>j. K j = K 0) \<longrightarrow> set ks = ?W \<or> (\<exists>m'. Suc i < m' \<and> L dvd m' * cnt
          \<and> (\<forall>q. Suc i * cnt \<le> q \<longrightarrow> q < m' * cnt \<longrightarrow> w (K 0 ! (q mod L)) \<longrightarrow> K 0 ! (q mod L) \<in> set ks))"
        using Suc.hyps(1)[of "Suc i"] n' by blast
      have "scan_iter f (m - i) i (int ?s) = Some (?p @ ks)"
        unfolding n using fs full False ks(1) by (simp add: n'[symmetric])
      moreover have "set (?p @ ks) \<subseteq> ?W" using ks(2) sub by simp
      moreover have "(\<forall>j. K j = K 0) \<longrightarrow> set (?p @ ks) = ?W \<or> (\<exists>m'. i < m' \<and> L dvd m' * cnt
          \<and> (\<forall>q. i * cnt \<le> q \<longrightarrow> q < m' * cnt \<longrightarrow> w (K 0 ! (q mod L)) \<longrightarrow> K 0 ! (q mod L) \<in> set (?p @ ks)))"
      proof
        assume same: "\<forall>j. K j = K 0"
        from mp[OF c same] show "set (?p @ ks) = ?W \<or> (\<exists>m'. i < m' \<and> L dvd m' * cnt
          \<and> (\<forall>q. i * cnt \<le> q \<longrightarrow> q < m' * cnt \<longrightarrow> w (K 0 ! (q mod L)) \<longrightarrow> K 0 ! (q mod L) \<in> set (?p @ ks)))"
        proof (elim disjE exE conjE)
          assume "set ks = ?W"
          then show ?thesis using sub by auto
        next
          fix m' assume m': "Suc i < m'" "L dvd m' * cnt"
            "\<forall>q. Suc i * cnt \<le> q \<longrightarrow> q < m' * cnt \<longrightarrow> w (K 0 ! (q mod L)) \<longrightarrow> K 0 ! (q mod L) \<in> set ks"
          have "K 0 ! (q mod L) \<in> set (?p @ ks)"
            if "i * cnt \<le> q" "q < m' * cnt" "w (K 0 ! (q mod L))" for q
            using m'(3) win[OF same, of q] that by (cases "Suc i * cnt \<le> q") auto
          then show ?thesis using m' by (intro disjI2 exI[of _ m']) auto
        qed
      qed
      ultimately show ?thesis by (intro exI[of _ "?p @ ks"]) simp
    qed
  qed
qed simp

lemma scan_ends:
  assumes e: "\<And>i. env_ok (es i)" and wf: "wf_db d" and small: "2 * int (length (dat d)) \<le> max_int64"
    and S: "\<And>i. dom (keyspace (es i) d) = S"
  shows "\<exists>ks. scan_iter (\<lambda>i c. db_Scan (es i) c want pattern tfilter d) (Suc (length (dat d))) 0 0 = Some ks
    \<and> set ks \<subseteq> {k \<in> S. scan_wanted pattern tfilter d k}
    \<and> (int (card {k \<in> S. scan_wanted pattern tfilter d k}) \<le> (if want \<le> 0 then 10 else want) \<or> (\<forall>i. live_keys (es i) d = live_keys (es 0) d)
       \<longrightarrow> set ks = {k \<in> S. scan_wanted pattern tfilter d k})"
proof (cases "S = {}")
  case True
  then have "live_keys (es 0) d = []" using live_keys_set[OF e, of 0 d] S[of 0] by auto
  with True show ?thesis by (simp add: db_Scan_def Let_def)
next
  case False
  let ?K = "\<lambda>i. live_keys (es i) d" and ?w = "scan_wanted pattern tfilter d" and ?L = "card S"
    and ?f = "\<lambda>i c. db_Scan (es i) c want pattern tfilter d" and ?cnt = "nat (if want \<le> 0 then 10 else want)"
  let ?W = "{k \<in> S. ?w k}"
  have set_K: "set (?K i) = S" and dist: "distinct (?K i)" for i
    using live_keys_set[OF e, of i d] S[of i] live_keys_distinct[OF e wf, of i] by simp_all
  have len_K: "length (?K i) = ?L" for i using distinct_card[OF dist[of i]] set_K[of i] by simp
  have ne: "?K i \<noteq> []" for i using False set_K[of i] by auto
  have pos: "0 < ?L" using ne[of 0] len_K[of 0] by (cases "?K 0") auto
  have len: "?L \<le> length (dat d)"
    using env_ok_iter_length[OF e, of 0 "map fst (dat d)"] length_filter_le[of "live (es 0) d" "iter (es 0) (map fst (dat d))"]
      len_K[of 0] by (simp add: live_keys_def)
  have small': "2 * int (length (?K i)) \<le> max_int64" for i using small len len_K[of i] by linarith
  have f: "?f i (int s) = Ret (if length (page (?K i) ?w ?cnt s) = ?cnt then int ((s + ?cnt) mod ?L) else 0, page (?K i) ?w ?cnt s)"
    if "s < ?L" for i s
    using db_Scan_page[OF refl ne _ small', of s i want pattern tfilter] that by (simp only: Let_def len_K)
  have cnt: "0 < ?cnt" by simp
  obtain ks where ks: "scan_iter ?f (?L - 0) 0 (int ((0 * ?cnt) mod ?L)) = Some ks" "set ks \<subseteq> ?W"
    and p: "set (page (?K 0) ?w ?cnt ((0 * ?cnt) mod ?L)) \<subseteq> set ks"
    and c: "(\<forall>j. ?K j = ?K 0) \<longrightarrow> set ks = ?W \<or> (\<exists>m'. 0 < m' \<and> ?L dvd m' * ?cnt
        \<and> (\<forall>q. 0 * ?cnt \<le> q \<longrightarrow> q < m' * ?cnt \<longrightarrow> ?w (?K 0 ! (q mod ?L)) \<longrightarrow> ?K 0 ! (q mod ?L) \<in> set ks))"
    using scan_iter_covers[where K = ?K and f = ?f and m = ?L and i = 0, OF pos len_K set_K cnt f _ pos] by auto
  have "set ks = ?W" if "int (card ?W) \<le> (if want \<le> 0 then 10 else want)"
    using page_all[OF dist[of 0], of ?w ?cnt "(0 * ?cnt) mod ?L"] p ks(2) that set_K[of 0] by auto
  moreover have "set ks = ?W" if same: "\<forall>j. ?K j = ?K 0"
    using mp[OF c same]
  proof (elim disjE exE conjE)
    fix m' assume m': "0 < m'" "?L dvd m' * ?cnt"
      "\<forall>q. 0 * ?cnt \<le> q \<longrightarrow> q < m' * ?cnt \<longrightarrow> ?w (?K 0 ! (q mod ?L)) \<longrightarrow> ?K 0 ! (q mod ?L) \<in> set ks"
    have "?L \<le> m' * ?cnt" using m'(1,2) cnt by (intro dvd_imp_le) auto
    then have "?K 0 ! j \<in> set ks" if "j < ?L" "?w (?K 0 ! j)" for j
      using m'(3)[rule_format, of j] that by simp
    then have "?W \<subseteq> set ks" using set_K[of 0] len_K[of 0] by (auto simp: in_set_conv_nth)
    with ks(2) show ?thesis by blast
  qed
  moreover have "scan_iter ?f (Suc (length (dat d))) 0 0 = Some ks"
    by (rule scan_iter_more[of _ ?L]) (use ks(1) len in auto)
  ultimately show ?thesis using ks(2) by blast
qed

end
