(* ===== verification/Eviction.thy ===== *)
theory Eviction
  imports Keyspace
begin

text \<open>
  Eviction (store/eviction.go) and the policies and defaults of config/config.go.
  Each policy looks at up to sixteen keys, in the order in which Go ranges over
  the map, and deletes one of them. The lemmas show which one.
\<close>

section \<open>Configuration\<close>

text \<open>The two options are strings of which the code knows some; the last constructor stands for the others.\<close>

datatype AOFSync = AOFSyncAlways | AOFSyncEverySec | AOFSyncNo | AOFSyncOther string

datatype EvictionPolicy =
    EvictNoEviction | EvictAllKeysLRU | EvictVolatileLRU | EvictAllKeysLFU | EvictVolatileLFU
  | EvictAllKeysRandom | EvictVolatileRandom | EvictVolatileTTL | EvictOther string

record config =
  Host :: string
  Port :: int
  MaxMemory :: int
  Policy :: EvictionPolicy
  AOFEnabled :: bool
  AOFFilename :: string
  AOFSyncPolicy :: AOFSync
  Databases :: int
  MaxClients :: int

definition Default :: config where
  "Default =
     \<lparr>Host = ''127.0.0.1'', Port = 6379, MaxMemory = 0, Policy = EvictNoEviction, AOFEnabled = False,
      AOFFilename = ''appendonly.aof'', AOFSyncPolicy = AOFSyncEverySec, Databases = 16, MaxClients = 10000\<rparr>"

section \<open>The policies\<close>

definition evictionSampleSize :: nat where "evictionSampleSize = 16"

definition object_at :: "db \<Rightarrow> string \<Rightarrow> object" where
  "object_at d k = the (map_of (dat d) k)"

definition skipped :: "bool \<Rightarrow> db \<Rightarrow> string \<Rightarrow> bool" where
  "skipped volatileOnly d k \<longleftrightarrow> volatileOnly \<and> \<not> oHasExpiry (object_at d k)"

fun sample_loop :: "db \<Rightarrow> bool \<Rightarrow> (object \<Rightarrow> object \<Rightarrow> bool) \<Rightarrow> string option \<Rightarrow> nat \<Rightarrow> string list \<Rightarrow> string option" where
  "sample_loop d volatileOnly worse best sampled [] = best"
| "sample_loop d volatileOnly worse best sampled (k # ks) =
     (if skipped volatileOnly d k then sample_loop d volatileOnly worse best sampled ks
      else let best = (case best of
                 None \<Rightarrow> Some k
               | Some b \<Rightarrow> if worse (object_at d k) (object_at d b) then Some k else Some b)
           in if evictionSampleSize \<le> Suc sampled then best
              else sample_loop d volatileOnly worse best (Suc sampled) ks)"

definition sampleCandidate :: "env \<Rightarrow> db \<Rightarrow> bool \<Rightarrow> (object \<Rightarrow> object \<Rightarrow> bool) \<Rightarrow> string option" where
  "sampleCandidate e d volatileOnly worse =
     sample_loop d volatileOnly worse None 0 (iter e (map fst (dat d)))"

definition evict_key :: "string option \<Rightarrow> db \<Rightarrow> bool \<times> db" where
  "evict_key r d =
     (case r of None \<Rightarrow> (False, d) | Some k \<Rightarrow> (True, d\<lparr>dat := AList.delete k (dat d)\<rparr>))"

definition evictLRU :: "env \<Rightarrow> bool \<Rightarrow> db \<Rightarrow> bool \<times> db" where
  "evictLRU e volatileOnly d =
     evict_key (sampleCandidate e d volatileOnly (\<lambda>a b. oLastAccess a < oLastAccess b)) d"

definition evictLFU :: "env \<Rightarrow> bool \<Rightarrow> db \<Rightarrow> bool \<times> db" where
  "evictLFU e volatileOnly d =
     evict_key (sampleCandidate e d volatileOnly (\<lambda>a b. oAccessFreq a < oAccessFreq b)) d"

fun random_loop :: "db \<Rightarrow> bool \<Rightarrow> string list \<Rightarrow> string list \<Rightarrow> string list" where
  "random_loop d volatileOnly candidates [] = candidates"
| "random_loop d volatileOnly candidates (k # ks) =
     (if skipped volatileOnly d k then random_loop d volatileOnly candidates ks
      else let candidates = candidates @ [k]
           in if evictionSampleSize \<le> length candidates then candidates
              else random_loop d volatileOnly candidates ks)"

definition evictRandom :: "env \<Rightarrow> bool \<Rightarrow> db \<Rightarrow> bool \<times> db" where
  "evictRandom e volatileOnly d =
     (let candidates = random_loop d volatileOnly [] (iter e (map fst (dat d))) in
      if candidates = [] then (False, d)
      else evict_key (Some (candidates ! intn e 0 (length candidates))) d)"

text \<open>\<open>evictByTTL\<close> marks "nothing found" by the empty key.\<close>

fun ttl_loop :: "env \<Rightarrow> db \<Rightarrow> string \<Rightarrow> int \<Rightarrow> nat \<Rightarrow> string list \<Rightarrow> string" where
  "ttl_loop e d bestKey bestTTL sampled [] = bestKey"
| "ttl_loop e d bestKey bestTTL sampled (k # ks) =
     (if skipped True d k then ttl_loop e d bestKey bestTTL sampled ks
      else let ttl = time_Sub (oExpiry (object_at d k)) (now e);
               (bestKey, bestTTL) = (if ttl < bestTTL then (k, ttl) else (bestKey, bestTTL))
           in if evictionSampleSize \<le> Suc sampled then bestKey
              else ttl_loop e d bestKey bestTTL (Suc sampled) ks)"

definition evictByTTL :: "env \<Rightarrow> db \<Rightarrow> bool \<times> db" where
  "evictByTTL e d =
     (let bestKey = ttl_loop e d [] max_int64 0 (iter e (map fst (dat d))) in
      if bestKey = [] then (False, d) else evict_key (Some bestKey) d)"

definition Evict :: "env \<Rightarrow> EvictionPolicy \<Rightarrow> db \<Rightarrow> bool \<times> db" where
  "Evict e policy d =
     (case policy of
        EvictAllKeysLRU \<Rightarrow> evictLRU e False d
      | EvictVolatileLRU \<Rightarrow> evictLRU e True d
      | EvictAllKeysLFU \<Rightarrow> evictLFU e False d
      | EvictVolatileLFU \<Rightarrow> evictLFU e True d
      | EvictAllKeysRandom \<Rightarrow> evictRandom e False d
      | EvictVolatileRandom \<Rightarrow> evictRandom e True d
      | EvictVolatileTTL \<Rightarrow> evictByTTL e d
      | _ \<Rightarrow> (False, d))"

section \<open>What is evicted\<close>

text \<open>The keys a policy looks at.\<close>

definition sample :: "env \<Rightarrow> bool \<Rightarrow> db \<Rightarrow> string list" where
  "sample e volatileOnly d =
     take evictionSampleSize (filter (\<lambda>k. \<not> skipped volatileOnly d k) (iter e (map fst (dat d))))"

text \<open>The best of a list under a strict order given by a number.\<close>

fun best_of :: "(string \<Rightarrow> 'a::linorder) \<Rightarrow> string option \<Rightarrow> string list \<Rightarrow> string option" where
  "best_of f best [] = best"
| "best_of f best (k # ks) =
     best_of f (case best of None \<Rightarrow> Some k | Some b \<Rightarrow> if f k < f b then Some k else Some b) ks"

lemma best_of_min:
  "best_of f best ks = (case best of
     None \<Rightarrow> (case ks of [] \<Rightarrow> None | k # ks \<Rightarrow> best_of f (Some k) ks)
   | Some b \<Rightarrow> best_of f (Some b) ks)"
  by (cases ks; cases best) auto

lemma best_of_Some:
  "\<exists>b'. best_of f (Some b) ks = Some b' \<and> b' \<in> insert b (set ks) \<and> (\<forall>k \<in> insert b (set ks). f b' \<le> f k)"
proof (induction ks arbitrary: b)
  case (Cons k ks)
  show ?case
  proof (cases "f k < f b")
    case True
    then show ?thesis using Cons[of k] by (auto intro: order.trans less_imp_le)
  next
    case False
    then show ?thesis using Cons[of b] by (auto intro: order.trans)
  qed
qed simp

lemma best_of_None:
  "best_of f None ks = None \<longleftrightarrow> ks = []"
  "best_of f None ks = Some b \<Longrightarrow> b \<in> set ks \<and> (\<forall>k \<in> set ks. f b \<le> f k)"
proof -
  show "best_of f None ks = None \<longleftrightarrow> ks = []"
    using best_of_Some[of f "hd ks" "tl ks"] by (cases ks) auto
  show "best_of f None ks = Some b \<Longrightarrow> b \<in> set ks \<and> (\<forall>k \<in> set ks. f b \<le> f k)"
    using best_of_Some[of f "hd ks" "tl ks"] by (cases ks) auto
qed

lemma sample_loop_best_of:
  assumes "\<And>a b. worse (object_at d a) (object_at d b) = (f a < f b)"
  shows "sampled < evictionSampleSize \<Longrightarrow> sample_loop d v worse best sampled ks =
    best_of f best (take (evictionSampleSize - sampled) (filter (\<lambda>k. \<not> skipped v d k) ks))"
proof (induction ks arbitrary: best sampled)
  case (Cons k ks)
  show ?case
  proof (cases "skipped v d k")
    case True
    with Cons show ?thesis by simp
  next
    case False
    have "evictionSampleSize - sampled = Suc (evictionSampleSize - Suc sampled)" using Cons.prems by simp
    then show ?thesis
      using False Cons.IH[of "Suc sampled"]
      by (auto simp: Let_def assms split: option.split)
  qed
qed simp

lemma sampleCandidate_best_of:
  assumes "\<And>a b. worse (object_at d a) (object_at d b) = (f a < f b)"
  shows "sampleCandidate e d v worse = best_of f None (sample e v d)"
  using sample_loop_best_of[of worse d f 0 v None, OF assms]
  by (simp add: sampleCandidate_def sample_def evictionSampleSize_def)

lemma sample_candidates:
  "env_ok e \<Longrightarrow> k \<in> set (sample e v d) \<Longrightarrow> map_of (dat d) k \<noteq> None \<and> (v \<longrightarrow> oHasExpiry (object_at d k))"
  using iter_keys[of e "dat d"] by (auto simp: sample_def skipped_def dest!: in_set_takeD)

text \<open>The sample is the whole map when it is small.\<close>

lemma sample_all:
  "env_ok e \<Longrightarrow> length (dat d) \<le> evictionSampleSize \<Longrightarrow>
    set (sample e v d) = {k. map_of (dat d) k \<noteq> None \<and> (v \<longrightarrow> oHasExpiry (object_at d k))}"
  using iter_keys[of e "dat d"] env_ok_iter_length[of e "map fst (dat d)"]
    length_filter_le[of "\<lambda>k. \<not> skipped v d k" "iter e (map fst (dat d))"]
  by (auto simp: sample_def skipped_def)

definition evicts :: "(db \<Rightarrow> bool \<times> db) \<Rightarrow> db \<Rightarrow> string list \<Rightarrow> (string \<Rightarrow> 'a::linorder) \<Rightarrow> bool" where
  "evicts ev d ks f \<longleftrightarrow>
     (if ks = [] then ev d = (False, d)
      else \<exists>k \<in> set ks. (\<forall>k' \<in> set ks. f k \<le> f k') \<and> ev d = (True, d\<lparr>dat := AList.delete k (dat d)\<rparr>))"

lemma evict_best_of: "(\<And>d'. ev d = evict_key (best_of f None ks) d) \<Longrightarrow> evicts ev d ks f"
  using best_of_None[of f ks] by (cases "best_of f None ks") (auto simp: evicts_def evict_key_def)

lemma evictLRU_evicts: "evicts (evictLRU e v) d (sample e v d) (\<lambda>k. oLastAccess (object_at d k))"
  by (rule evict_best_of) (simp add: evictLRU_def sampleCandidate_best_of[where f = "\<lambda>k. oLastAccess (object_at d k)"])

lemma evictLFU_evicts: "evicts (evictLFU e v) d (sample e v d) (\<lambda>k. oAccessFreq (object_at d k))"
  by (rule evict_best_of) (simp add: evictLFU_def sampleCandidate_best_of[where f = "\<lambda>k. oAccessFreq (object_at d k)"])

lemma random_loop_sample:
  "length cs < evictionSampleSize \<Longrightarrow>
    random_loop d v cs ks = cs @ take (evictionSampleSize - length cs) (filter (\<lambda>k. \<not> skipped v d k) ks)"
proof (induction ks arbitrary: cs)
  case (Cons k ks)
  show ?case
  proof (cases "skipped v d k")
    case True
    with Cons show ?thesis by simp
  next
    case False
    have "evictionSampleSize - length cs = Suc (evictionSampleSize - Suc (length cs))" using Cons.prems by simp
    then show ?thesis using False Cons.IH[of "cs @ [k]"] by (auto simp: Let_def)
  qed
qed simp

lemma evictRandom_evicts: "env_ok e \<Longrightarrow> evicts (evictRandom e v) d (sample e v d) (\<lambda>k. 0::int)"
proof -
  assume e: "env_ok e"
  have r: "random_loop d v [] (iter e (map fst (dat d))) = sample e v d"
    using random_loop_sample[of "[]" d v] by (simp add: sample_def evictionSampleSize_def)
  show ?thesis
    unfolding evicts_def evictRandom_def r Let_def
    using nth_mem[OF env_ok_intn[OF e, of "length (sample e v d)" 0]]
    by (auto simp: evict_key_def)
qed

text \<open>Eviction by remaining time, for keys that are not empty and expire within the
  292 years a duration can hold.\<close>

definition remaining :: "env \<Rightarrow> db \<Rightarrow> string \<Rightarrow> int" where
  "remaining e d k = time_Sub (oExpiry (object_at d k)) (now e)"

lemma ttl_loop_best_of:
  "sampled < evictionSampleSize \<Longrightarrow> (\<And>k. k \<in> set ks \<Longrightarrow> \<not> skipped True d k \<Longrightarrow> remaining e d k < max_int64) \<Longrightarrow>
    b = [] \<and> t = max_int64 \<and> ob = None \<or> ob = Some b \<and> t = remaining e d b \<Longrightarrow>
    ttl_loop e d b t sampled ks = (case best_of (remaining e d) ob
      (take (evictionSampleSize - sampled) (filter (\<lambda>k. \<not> skipped True d k) ks)) of None \<Rightarrow> [] | Some k \<Rightarrow> k)"
proof (induction ks arbitrary: b t ob sampled)
  case Nil
  then show ?case by auto
next
  case (Cons k ks)
  show ?case
  proof (cases "skipped True d k")
    case True
    with Cons show ?thesis by simp
  next
    case False
    have r: "remaining e d k < max_int64" using Cons.prems(2)[of k] False by simp
    define b' t' ob' where "b' = (if remaining e d k < t then k else b)"
      and "t' = (if remaining e d k < t then remaining e d k else t)"
      and "ob' = (case ob of None \<Rightarrow> Some k | Some b \<Rightarrow> if remaining e d k < remaining e d b then Some k else Some b)"
    have inv: "ob' = Some b' \<and> t' = remaining e d b'"
      using Cons.prems(3) r by (auto simp: b'_def t'_def ob'_def)
    have s: "evictionSampleSize - sampled = Suc (evictionSampleSize - Suc sampled)" using Cons.prems(1) by simp
    have "ttl_loop e d b t sampled (k # ks) =
        (if evictionSampleSize \<le> Suc sampled then b' else ttl_loop e d b' t' (Suc sampled) ks)"
      using False by (simp add: Let_def b'_def t'_def remaining_def)
    also have "\<dots> = (case best_of (remaining e d) ob' (take (evictionSampleSize - Suc sampled)
        (filter (\<lambda>k. \<not> skipped True d k) ks)) of None \<Rightarrow> [] | Some k \<Rightarrow> k)"
      using Cons.IH[of "Suc sampled" b' t' ob'] Cons.prems(2) inv by auto
    finally show ?thesis using False s by (simp add: ob'_def)
  qed
qed

lemma evictByTTL_evicts:
  assumes e: "env_ok e" and ne: "map_of (dat d) [] = None"
    and r: "\<And>k o1. map_of (dat d) k = Some o1 \<Longrightarrow> oHasExpiry o1 \<Longrightarrow> oExpiry o1 < now e + max_int64"
  shows "evicts (evictByTTL e) d (sample e True d) (remaining e d)"
proof -
  have rem: "remaining e d k < max_int64" if k: "k \<in> set (iter e (map fst (dat d)))" "\<not> skipped True d k" for k
  proof -
    obtain o1 where "map_of (dat d) k = Some o1"
      using k(1) unfolding iter_keys[OF e] by auto
    with r[OF this] k(2) show ?thesis
      by (simp add: skipped_def object_at_def remaining_def time_Sub_def int64_defs)
  qed
  have "ttl_loop e d [] max_int64 0 (iter e (map fst (dat d))) =
      (case best_of (remaining e d) None (sample e True d) of None \<Rightarrow> [] | Some k \<Rightarrow> k)"
    using ttl_loop_best_of[of 0 "iter e (map fst (dat d))" d e "[]" max_int64 None] rem
    by (simp add: sample_def evictionSampleSize_def)
  moreover have "best_of (remaining e d) None (sample e True d) \<noteq> Some []"
    using best_of_None(2)[of "remaining e d" "sample e True d" "[]"] sample_candidates[OF e, of "[]" True d] ne by auto
  ultimately show ?thesis
    by (intro evict_best_of) (auto simp: evictByTTL_def Let_def evict_key_def split: option.splits)
qed

lemma evict_key_wf [keeps_inv]: "wf_db d \<Longrightarrow> wf_db (snd (evict_key r d))"
  by (auto simp: evict_key_def wf_dbD intro!: wf_db_dat split: option.splits if_splits)

lemma Evict_wf [keeps_inv]: "wf_db d \<Longrightarrow> wf_db (snd (Evict e policy d))"
  by (cases policy) (simp_all add: Evict_def evictLRU_def evictLFU_def evictRandom_def evictByTTL_def Let_def evict_key_wf)

end
