(* ===== verification/Store_Properties.thy ===== *)
theory Store_Properties
  imports Scan Eviction
begin

text \<open>
  The properties of the keyspace, of \<open>Scan\<close> and of eviction, each with an example
  to which it applies.
\<close>

section \<open>The keyspace\<close>

text \<open>A database with three entries: one without expiry, one that expires at 100, one
  that expired at 5.\<close>

definition str_object :: "string \<Rightarrow> int option \<Rightarrow> object" where
  "str_object s x = (new_object TypeString (VStr s))\<lparr>oHasExpiry := (x \<noteq> None), oExpiry := (case x of Some t \<Rightarrow> t | None \<Rightarrow> 0)\<rparr>"

definition sample_db :: db where
  "sample_db = newDB\<lparr>dat := [(''a'', str_object ''1'' None), (''b'', str_object ''2'' (Some 100)), (''c'', str_object ''3'' (Some 5))]\<rparr>"

lemma str_object_simps [simp]:
  "IsExpired e (str_object s x) = (\<exists>t. x = Some t \<and> t < now e)"
  "obj_view e h (str_object s x) = (if \<exists>t. x = Some t \<and> t < now e then None else Some (LStr s, x))"
  "oType (str_object s x) = TypeString"
  "obj_ok h (str_object s x)" "oHasExpiry (str_object s x) = (x \<noteq> None)"
  by (auto simp: str_object_def new_object_def IsExpired_def obj_view_def obj_ok_def val_type_def split: option.splits)

lemma sample_db_wf: "wf_db sample_db"
  by (auto simp: sample_db_def wf_db_def newDB_def map_wf_def split: if_splits)

lemma sample_db_keyspace:
  "keyspace (plain_env 10) sample_db = [''a'' \<mapsto> (LStr ''1'', None), ''b'' \<mapsto> (LStr ''2'', Some 100)]"
  by (auto simp: sample_db_def keyspace_def newDB_def fun_eq_iff)

lemma sample_db_dat:
  "dat sample_db = [(''a'', str_object ''1'' None), (''b'', str_object ''2'' (Some 100)), (''c'', str_object ''3'' (Some 5))]"
  by (simp add: sample_db_def)

text \<open>
  A lookup is invisible: it deletes the key when it has expired and updates the
  access data, and the live keys, values and expiry times stay what they are. It
  finds exactly the live keys, with their value.
\<close>

theorem lookup_invisible:
  "keyspace e (snd (db_Get e k d)) = keyspace e d
    \<and> keyspace e d k = Option.bind (fst (db_Get e k d)) (obj_view e (heap d))
    \<and> (fst (db_Get e k d) = None) = (keyspace e d k = None)"
  using db_Get_keyspace[of e k d] db_Get_None[of e k d] db_Get_Some[of e k d]
  by (cases "fst (db_Get e k d)") auto

text \<open>
  An expiry set on a live key is kept: at every later time the key is there with
  its value until the expiry has passed and gone after it, and \<open>TTL\<close> tells the time
  that is left.
\<close>

theorem expiry_kept:
  assumes "keyspace e d k = Some (v, x)" and "now e \<le> now e'"
  shows "fst (db_SetExpiry e k t d)
    \<and> keyspace e' (snd (db_SetExpiry e k t d)) k = (if t < now e' then None else Some (v, Some t))
    \<and> db_TTL e' k (snd (db_SetExpiry e k t d)) = (if t < now e' then - 2 else min max_int64 (t - now e'))"
proof -
  obtain o1 where o1: "map_of (dat d) k = Some o1" "\<not> IsExpired e o1" "v = val_view (heap d) (oValue o1)"
    using assms(1) by (auto simp: keyspace_def obj_view_def split: bind_split_asm if_splits)
  then have ks: "keyspace e' (snd (db_SetExpiry e k t d)) k = (if t < now e' then None else Some (v, Some t))"
    by (auto simp: db_SetExpiry_def keyspace_def obj_view_def IsExpired_def)
  with o1 show ?thesis unfolding db_TTL_keyspace by (simp add: db_SetExpiry_def)
qed

theorem expiry_kept_witness:
  "keyspace (plain_env 50) (snd (db_SetExpiry (plain_env 10) ''a'' 50 sample_db)) ''a'' = Some (LStr ''1'', Some 50)
    \<and> keyspace (plain_env 51) (snd (db_SetExpiry (plain_env 10) ''a'' 50 sample_db)) ''a'' = None"
  using expiry_kept[of "plain_env 10" sample_db "''a''" "LStr ''1''" None "plain_env 50" 50]
    expiry_kept[of "plain_env 10" sample_db "''a''" "LStr ''1''" None "plain_env 51" 50]
  by (simp add: sample_db_keyspace)

text \<open>
  Deletion removes exactly the named keys; the number it returns counts each
  stored key once, however often it is named (and counts expired keys that are still
  stored).
\<close>

theorem deletion:
  "keyspace e (snd (db_Del ks d)) = (keyspace e d) |` (- set ks)
    \<and> fst (db_Del ks d) = int (card (set ks \<inter> dom (map_of (dat d))))"
  using db_Del_keyspace[of e ks d] db_Del_count[of ks d] by blast

text \<open>
  \<open>Rename\<close> moves the value of a live key with its expiry to the new name, also
  when both names are the same, and does nothing when the key is not there.
\<close>

theorem rename_moves:
  "fst (db_Rename e src dst d) = (keyspace e d src \<noteq> None)
    \<and> keyspace e (snd (db_Rename e src dst d)) =
      (case keyspace e d src of None \<Rightarrow> keyspace e d
       | Some v \<Rightarrow> ((keyspace e d)(src := None))(dst \<mapsto> v))"
  using db_Rename_keyspace[of e src dst d] by blast

text \<open>
  C39. The operations that range over the keys see each live key and no other: \<open>Size\<close>
  counts them, \<open>Keys\<close> returns those that match, each once, and \<open>RandomKey\<close> returns one
  of them when there is one.
\<close>

theorem key_ranges:
  assumes "env_ok e" and "wf_db d"
  shows "db_Size e d = int (card (dom (keyspace e d)))
    \<and> set (db_Keys e p d) = {k. keyspace e d k \<noteq> None \<and> matchGlob p k} \<and> distinct (db_Keys e p d)
    \<and> (dom (keyspace e d) \<noteq> {} \<longrightarrow> keyspace e d (db_RandomKey e d) \<noteq> None)"
  using assms db_Size_card[OF assms] db_Keys_set[OF assms(1), of p d] live_keys_distinct[OF assms]
    db_RandomKey_live[OF assms(1), of d]
  by (simp add: db_Keys_def)

theorem key_ranges_witness:
  "db_Size (plain_env 10) sample_db = 2 \<and> db_RandomKey (plain_env 10) sample_db \<in> {''a'', ''b''}"
  using key_ranges[OF plain_env_ok sample_db_wf, of 10 "''*''"] by (auto simp: sample_db_keyspace split: if_splits)

text \<open>
  Every operation of a database keeps its invariant: one entry per key, the tag of
  an object agrees with its value, the access counter stays at or below \<open>2^24\<close>, and
  every value behind a pointer is well formed.
\<close>

theorem operations_keep_invariant:
  assumes "wf_db d" and "obj_ok (heap d) o1"
  shows "wf_db (snd (db_Get e k d)) \<and> wf_db (db_Set e k o1 d) \<and> wf_db (snd (db_Del ks d))
    \<and> wf_db (snd (db_SetExpiry e k t d)) \<and> wf_db (snd (db_RemoveExpiry k d))
    \<and> wf_db (snd (db_Rename e k dst d)) \<and> wf_db (db_Flush d) \<and> wf_db (snd (Evict e policy d))"
  using assms by (simp add: keeps_inv)

theorem operations_keep_invariant_witness:
  "wf_db (snd (db_Rename (plain_env 10) ''a'' ''b'' sample_db))"
  using operations_keep_invariant[OF sample_db_wf str_object_simps(4)] by blast

section \<open>Scan\<close>

text \<open>An environment that ranges over maps backwards.\<close>

definition reversed_env :: "int \<Rightarrow> env" where "reversed_env t = (plain_env t)\<lparr>iter := rev\<rparr>"

lemma reversed_env_ok: "env_ok (reversed_env t)"
  using plain_env_ok[of t] by (simp add: env_ok_def reversed_env_def)

lemma reversed_env_keyspace: "keyspace (reversed_env t) d = keyspace (plain_env t) d"
proof -
  have "obj_view (reversed_env t) = obj_view (plain_env t)"
    by (intro ext) (simp add: obj_view_def reversed_env_def IsExpired_def)
  then show ?thesis by (intro ext) (simp only: keyspace_def)
qed

definition two_db :: db where
  "two_db = db_Set (plain_env 1) ''y'' (str_object ''2'' None) (db_Set (plain_env 1) ''x'' (str_object ''1'' None) newDB)"

lemma scan_misses:
  "\<exists>d es ks k. (\<forall>i. env_ok (es i)) \<and> wf_db d \<and> length (dat d) = 2 \<and> (\<forall>i. keyspace (es i) d k \<noteq> None)
      \<and> (\<forall>i. keyspace (es i) d = keyspace (es 0) d)
      \<and> scan_iter (\<lambda>i c. db_Scan (es i) c 1 [] [] d) (Suc (length (dat d))) 0 0 = Some ks \<and> k \<notin> set ks"
proof -
  let ?es = "\<lambda>i::nat. if i = 0 then plain_env 10 else reversed_env 10"
  have d: "dat two_db = [(''x'', (str_object ''1'' None)\<lparr>oLastAccess := UnixNano 1\<rparr>), (''y'', (str_object ''2'' None)\<lparr>oLastAccess := UnixNano 1\<rparr>)]"
    by (simp add: two_db_def db_Set_def newDB_def)
  have wf: "wf_db two_db"
    unfolding two_db_def by (intro db_Set_wf) (simp_all add: obj_ok_def str_object_def val_type_def new_object_def)
  have ks: "keyspace (?es i) two_db = keyspace (plain_env 10) two_db" for i by (simp add: reversed_env_keyspace)
  have k: "keyspace (plain_env 10) two_db ''y'' \<noteq> None" by (simp add: keyspace_def d IsExpired_def)
  have "scan_iter (\<lambda>i c. db_Scan (?es i) c 1 [] [] two_db) (Suc (length (dat two_db))) 0 0 = Some [''x'', ''x'']"
    by (simp add: d db_Scan_def live_keys_def live_def IsExpired_def Let_def go_mod_def scan_wanted_def wrap64_def reversed_env_def)
  then show ?thesis
    using ks k wf d plain_env_ok reversed_env_ok
    by (intro exI[of _ two_db] exI[of _ ?es] exI[of _ "[''x'', ''x'']"] exI[of _ "''y''"]) simp
qed

text \<open>
  C23. A full \<open>SCAN\<close> of a database that does not change, and of which no key expires meanwhile, from
  cursor 0 until the cursor is 0 again, for every page size and whatever the orders in which the single calls
  range over the map: it comes to an end, after no more calls than there are keys and one, and
  returns only live keys that match the pattern and the type. It returns all of them when no more match than
  fit in a page, or when every call ranges in the same order. Go draws the order of every call anew, and
  then a key can be missed: there are two keys and two orders with which a scan of one key per call misses one.
\<close>

theorem scan_iteration:
  assumes "\<And>i. env_ok (es i)" and "wf_db d" and "2 * int (length (dat d)) \<le> max_int64"
    and "\<And>i. dom (keyspace (es i) d) = S"
  shows "(\<exists>ks. scan_iter (\<lambda>i c. db_Scan (es i) c want pattern tfilter d) (Suc (length (dat d))) 0 0 = Some ks
      \<and> set ks \<subseteq> {k \<in> S. scan_wanted pattern tfilter d k}
      \<and> (int (card {k \<in> S. scan_wanted pattern tfilter d k}) \<le> (if want \<le> 0 then 10 else want) \<or> (\<forall>i. live_keys (es i) d = live_keys (es 0) d)
         \<longrightarrow> set ks = {k \<in> S. scan_wanted pattern tfilter d k}))
    \<and> (\<exists>d es ks k. (\<forall>i. env_ok (es i)) \<and> wf_db d \<and> length (dat d) = 2 \<and> (\<forall>i. keyspace (es i) d k \<noteq> None)
      \<and> (\<forall>i. keyspace (es i) d = keyspace (es 0) d)
      \<and> scan_iter (\<lambda>i c. db_Scan (es i) c 1 [] [] d) (Suc (length (dat d))) 0 0 = Some ks \<and> k \<notin> set ks)"
  by (rule conjI[OF scan_ends[OF assms] scan_misses])

theorem scan_iteration_witness:
  "\<exists>ks. scan_iter (\<lambda>i c. db_Scan (if i = 0 then plain_env 10 else reversed_env 10) c 2 [] ''string'' sample_db) 4 0 0 = Some ks
    \<and> set ks = {''a'', ''b''}"
proof -
  let ?es = "\<lambda>i::nat. if i = 0 then plain_env 10 else reversed_env 10"
  have w: "scan_wanted [] ''string'' sample_db k" if "keyspace (plain_env 10) sample_db k \<noteq> None" for k
    using that by (auto simp: sample_db_keyspace scan_wanted_def sample_db_dat type_String_def split: if_splits)
  have S: "dom (keyspace (?es i) sample_db) = {''a'', ''b''}" for i
    by (cases "i = 0") (auto simp: reversed_env_keyspace sample_db_keyspace dom_def)
  have "{k \<in> {''a'', ''b''}. scan_wanted [] ''string'' sample_db k} = {''a'', ''b''}"
    using w by (auto simp: sample_db_keyspace)
  moreover have "length (dat sample_db) = 3" by (simp add: sample_db_dat)
  then have "Suc (length (dat sample_db)) = 4" "2 * int (length (dat sample_db)) \<le> max_int64"
    by (simp_all add: max_int64_def)
  moreover have "env_ok (?es i)" for i by (simp add: plain_env_ok reversed_env_ok)
  ultimately show ?thesis
    using conjunct1[OF scan_iteration[where es = ?es, OF _ sample_db_wf _ S, where want = 2 and pattern = "[]" and tfilter = "''string''"]] by simp (elim exE conjE, intro exI conjI, assumption+)
qed

section \<open>Eviction\<close>

text \<open>
  C40. The LRU and the LFU policy evict the least recently, or least often, used of the
  keys they sample, and do nothing only when there is nothing to sample; the volatile
  variants sample only keys with an expiry. A database of at most sixteen keys is
  sampled completely.
\<close>

theorem eviction_lru_lfu:
  assumes "env_ok e"
  shows "evicts (Evict e (if v then EvictVolatileLRU else EvictAllKeysLRU)) d (sample e v d) (\<lambda>k. oLastAccess (object_at d k))
    \<and> evicts (Evict e (if v then EvictVolatileLFU else EvictAllKeysLFU)) d (sample e v d) (\<lambda>k. oAccessFreq (object_at d k))
    \<and> set (sample e v d) \<subseteq> {k. map_of (dat d) k \<noteq> None \<and> (v \<longrightarrow> oHasExpiry (object_at d k))}
    \<and> (length (dat d) \<le> evictionSampleSize \<longrightarrow>
        set (sample e v d) = {k. map_of (dat d) k \<noteq> None \<and> (v \<longrightarrow> oHasExpiry (object_at d k))})"
proof -
  have "Evict e (if v then EvictVolatileLRU else EvictAllKeysLRU) = evictLRU e v"
    "Evict e (if v then EvictVolatileLFU else EvictAllKeysLFU) = evictLFU e v"
    by (rule ext, simp add: Evict_def)+
  moreover have "set (sample e v d) \<subseteq> {k. map_of (dat d) k \<noteq> None \<and> (v \<longrightarrow> oHasExpiry (object_at d k))}"
    using sample_candidates[OF assms, of _ v d] by blast
  ultimately show ?thesis
    using evictLRU_evicts[of e v d] evictLFU_evicts[of e v d] sample_all[OF assms, of d v] by (intro conjI impI) simp_all
qed

definition lru_db :: db where
  "lru_db = db_Set (plain_env 3) ''x'' (str_object ''1'' None) (db_Set (plain_env 2) ''y'' (str_object ''2'' None)
     (db_Set (plain_env 9) ''z'' (str_object ''3'' None) newDB))"

theorem eviction_lru_lfu_witness:
  "\<exists>k. Evict (plain_env 10) EvictAllKeysLRU lru_db = (True, lru_db\<lparr>dat := AList.delete k (dat lru_db)\<rparr>) \<and> k = ''y''"
proof -
  have d: "dat lru_db = [(''z'', (str_object ''3'' None)\<lparr>oLastAccess := UnixNano 9\<rparr>),
      (''y'', (str_object ''2'' None)\<lparr>oLastAccess := UnixNano 2\<rparr>), (''x'', (str_object ''1'' None)\<lparr>oLastAccess := UnixNano 3\<rparr>)]"
    by (simp add: lru_db_def db_Set_def newDB_def)
  have u: "UnixNano 2 < UnixNano 9" "UnixNano 2 < UnixNano 3"
    by (simp_all add: UnixNano_def unix_to_internal_def wrap64_def)
  have s: "set (sample (plain_env 10) False lru_db) = {''x'', ''y'', ''z''}"
  proof -
    have "length (dat lru_db) \<le> evictionSampleSize" by (simp add: d evictionSampleSize_def)
    then have "set (sample (plain_env 10) False lru_db) =
        {k. map_of (dat lru_db) k \<noteq> None \<and> (False \<longrightarrow> oHasExpiry (object_at lru_db k))}"
      using eviction_lru_lfu[OF plain_env_ok, of 10 False lru_db] by blast
    then show ?thesis by (auto simp: d)
  qed
  have ne: "sample (plain_env 10) False lru_db \<noteq> []"
  proof
    assume "sample (plain_env 10) False lru_db = []"
    then have "set (sample (plain_env 10) False lru_db) = {}" by (simp only: list.set)
    with s show False by simp
  qed
  obtain k where k: "k \<in> set (sample (plain_env 10) False lru_db)"
    "\<forall>k' \<in> set (sample (plain_env 10) False lru_db). oLastAccess (object_at lru_db k) \<le> oLastAccess (object_at lru_db k')"
    "Evict (plain_env 10) EvictAllKeysLRU lru_db = (True, lru_db\<lparr>dat := AList.delete k (dat lru_db)\<rparr>)"
    using eviction_lru_lfu[OF plain_env_ok, of 10 False lru_db, THEN conjunct1] ne
    by (simp only: evicts_def if_False) blast
  have "k = ''y''" using k(1,2) u unfolding s by (auto simp: object_at_def d)
  with k(3) show ?thesis by blast
qed

text \<open>
  The TTL policy evicts, of the keys with an expiry that it samples, the one that
  expires first. It needs that no key is the empty string, which the code takes for
  "no key found", and that the expiry lies within 292 years.
\<close>

theorem eviction_ttl:
  assumes "env_ok e" and "map_of (dat d) [] = None"
    and "\<forall>k o1. map_of (dat d) k = Some o1 \<longrightarrow> oHasExpiry o1 \<longrightarrow> oExpiry o1 < now e + max_int64"
  shows "evicts (Evict e EvictVolatileTTL) d (sample e True d) (remaining e d)"
proof -
  have "Evict e EvictVolatileTTL = evictByTTL e" by (rule ext) (simp add: Evict_def)
  with evictByTTL_evicts[OF assms(1,2)] assms(3) show ?thesis by auto
qed

theorem eviction_ttl_witness:
  "Evict (plain_env 1) EvictVolatileTTL sample_db = (True, sample_db\<lparr>dat := AList.delete ''c'' (dat sample_db)\<rparr>)"
proof -
  have m: "oExpiry (str_object ''2'' (Some 100)) = 100" "oExpiry (str_object ''3'' (Some 5)) = 5"
    by (simp_all add: str_object_def)
  have "sample (plain_env 1) True sample_db = [''b'', ''c'']"
    by (simp add: sample_def skipped_def object_at_def sample_db_dat evictionSampleSize_def)
  moreover have "evicts (Evict (plain_env 1) EvictVolatileTTL) sample_db (sample (plain_env 1) True sample_db) (remaining (plain_env 1) sample_db)"
    by (rule eviction_ttl[OF plain_env_ok]) (auto simp: sample_db_dat m max_int64_def split: if_splits)
  ultimately show ?thesis
    by (auto simp: evicts_def remaining_def object_at_def sample_db_dat m time_Sub_def int64_defs)
qed

end
