(* ===== verification/Cmd_Base.thy ===== *)
theory Cmd_Base
  imports Keyspace Resp
begin

text \<open>
  What the command handlers share (commands/registry.go and the helpers at the
  top of list.go, hash.go, set.go and zset.go): the arguments, the replies, and
  the access to the value of a key with its type check.

  A handler takes the environment, the arguments (the code reads only the string
  of an argument) and the database, and gives the reply and the new database, or
  panics. The locale \<open>container\<close> is the contract of the four types whose values
  are behind a pointer; it is interpreted for lists, hashes, sets and sorted sets.
\<close>

section \<open>Arguments and replies\<close>

type_synonym handler = "env \<Rightarrow> string list \<Rightarrow> db \<Rightarrow> (resp_value \<times> db) go"

definition ArgStr :: "string list \<Rightarrow> nat \<Rightarrow> string" where
  "ArgStr args i = (if length args \<le> i then [] else args ! i)"

definition okResp :: resp_value where "okResp = simple_value ''OK''"
definition errResp :: "string \<Rightarrow> resp_value" where "errResp msg = error_value msg"
definition intResp :: "int \<Rightarrow> resp_value" where "intResp n = int_value n"
definition bulkResp :: "string \<Rightarrow> resp_value" where "bulkResp s = bulk_value s"
definition nullBulkResp :: resp_value where "nullBulkResp = null_bulk_value"
definition nullArrayResp :: resp_value where "nullArrayResp = null_array_value"
definition arrayResp :: "resp_value list \<Rightarrow> resp_value" where "arrayResp items = array_value items"
definition stringsToArray :: "string list \<Rightarrow> resp_value" where
  "stringsToArray strs = array_value (map bulkResp strs)"

definition quote :: char where "quote = CHR 0x27"

definition wrongArgCount :: "string \<Rightarrow> resp_value" where
  "wrongArgCount cmd =
     errResp (''ERR wrong number of arguments for '' @ [quote] @ ToLower cmd @ [quote] @ '' command'')"

definition wrongTypeErr :: resp_value where
  "wrongTypeErr = errResp ''WRONGTYPE Operation against a key holding the wrong kind of value''"

definition notIntErr :: resp_value where
  "notIntErr = errResp ''ERR value is not an integer or out of range''"

definition syntaxErr :: resp_value where "syntaxErr = errResp ''ERR syntax error''"

lemmas reply_defs = okResp_def errResp_def intResp_def bulkResp_def nullBulkResp_def
  nullArrayResp_def arrayResp_def stringsToArray_def

section \<open>Type assertions\<close>

text \<open>\<open>obj.Value.(T)\<close> panics when the value is not a \<open>T\<close>.\<close>

definition conversion_panic :: string where "conversion_panic = ''interface conversion''"

definition assert_string :: "val \<Rightarrow> string go" where
  "assert_string v = (case v of VStr s \<Rightarrow> Ret s | VRef a \<Rightarrow> Panic conversion_panic)"

definition assert_cell :: "ValueType \<Rightarrow> db \<Rightarrow> val \<Rightarrow> nat go" where
  "assert_cell t d v =
     (case v of VStr s \<Rightarrow> Panic conversion_panic
      | VRef a \<Rightarrow> if map_option cell_type (heap d a) = Some t then Ret a else Panic conversion_panic)"

text \<open>
  The value of a key of type \<open>t\<close> for reading (\<open>None\<close> when there is no such key) and
  for writing (an empty one is stored when there is no such key); \<open>Inl\<close> is the
  reply to a key of another type.
\<close>

definition get_value :: "ValueType \<Rightarrow> env \<Rightarrow> string \<Rightarrow> db \<Rightarrow> ((resp_value + nat option) \<times> db) go" where
  "get_value t e key d =
     (case db_Get e key d of
        (None, d) \<Rightarrow> Ret (Inr None, d)
      | (Some o1, d) \<Rightarrow>
          if oType o1 \<noteq> t then Ret (Inl wrongTypeErr, d)
          else go_bind (assert_cell t d (oValue o1)) (\<lambda>a. Ret (Inr (Some a), d)))"

definition get_or_create :: "ValueType \<Rightarrow> cell \<Rightarrow> env \<Rightarrow> string \<Rightarrow> db \<Rightarrow> ((resp_value + nat) \<times> db) go" where
  "get_or_create t init e key d =
     (case db_Get e key d of
        (None, d) \<Rightarrow>
          (case new_cell init d of
             (a, d) \<Rightarrow> Ret (Inr a, db_Set e key (new_object t (VRef a)) d))
      | (Some o1, d) \<Rightarrow>
          if oType o1 \<noteq> t then Ret (Inl wrongTypeErr, d)
          else go_bind (assert_cell t d (oValue o1)) (\<lambda>a. Ret (Inr a, d)))"

definition getOrCreateList where "getOrCreateList = get_or_create TypeList (CList NewList)"
definition getList where "getList = get_value TypeList"
definition getOrCreateHash where "getOrCreateHash = get_or_create TypeHash (CHash [])"
definition getHash where "getHash = get_value TypeHash"
definition getOrCreateSet where "getOrCreateSet = get_or_create TypeSet (CSet [])"
definition getSet where "getSet = get_value TypeSet"
definition getOrCreateZSet where "getOrCreateZSet = get_or_create TypeZSet (CZSet NewZSet)"
definition getZSet where "getZSet = get_value TypeZSet"

text \<open>Reads and writes through the pointer a type assertion gave.\<close>

definition put_cell :: "nat \<Rightarrow> cell \<Rightarrow> db \<Rightarrow> db" where
  "put_cell a c d = d\<lparr>heap := (heap d)(a \<mapsto> c)\<rparr>"

definition list_at :: "db \<Rightarrow> nat \<Rightarrow> llist" where
  "list_at d a = (case heap d a of Some (CList l) \<Rightarrow> l | _ \<Rightarrow> NewList)"
definition hash_at :: "db \<Rightarrow> nat \<Rightarrow> (string \<times> string) list" where
  "hash_at d a = (case heap d a of Some (CHash h) \<Rightarrow> h | _ \<Rightarrow> [])"
definition set_at :: "db \<Rightarrow> nat \<Rightarrow> string list" where
  "set_at d a = (case heap d a of Some (CSet s) \<Rightarrow> s | _ \<Rightarrow> [])"
definition zset_at :: "db \<Rightarrow> nat \<Rightarrow> zset" where
  "zset_at d a = (case heap d a of Some (CZSet z) \<Rightarrow> z | _ \<Rightarrow> NewZSet)"

lemmas at_defs = list_at_def hash_at_def set_at_def zset_at_def

section \<open>Early returns\<close>

text \<open>A helper gave a reply to return at once, or a value to go on with. The second
  combinator is for steps that leave the database alone.\<close>

definition or_reply :: "((resp_value + 'a) \<times> db) go \<Rightarrow> ('a \<Rightarrow> db \<Rightarrow> (resp_value \<times> db) go) \<Rightarrow> (resp_value \<times> db) go" where
  "or_reply m f = go_bind m (\<lambda>(r, d). case r of Inl err \<Rightarrow> Ret (err, d) | Inr x \<Rightarrow> f x d)"

definition need_int :: "string \<Rightarrow> db \<Rightarrow> (int \<Rightarrow> (resp_value \<times> db) go) \<Rightarrow> (resp_value \<times> db) go" where
  "need_int s d f = (case parsed (ParseInt s) of None \<Rightarrow> Ret (notIntErr, d) | Some n \<Rightarrow> f n)"

definition drop_empty :: "string \<Rightarrow> bool \<Rightarrow> db \<Rightarrow> db" where
  "drop_empty key is_empty d = (if is_empty then snd (db_Del [key] d) else d)"

section \<open>Reasoning about handlers\<close>

text \<open>
  \<open>guards m Q\<close>: \<open>m\<close> does not fail a type assertion, and if it returns, the result
  satisfies \<open>Q\<close>. \<open>keeps h\<close>: handler \<open>h\<close> keeps the invariant of the database and
  fails no type assertion.
\<close>

definition guards :: "'a go \<Rightarrow> ('a \<Rightarrow> bool) \<Rightarrow> bool" where
  "guards m Q = (case m of Ret x \<Rightarrow> Q x | Panic msg \<Rightarrow> msg \<noteq> conversion_panic)"

lemma guards_simps [simp]:
  "guards (Ret x) Q = Q x"
  "guards (Panic msg) Q = (msg \<noteq> conversion_panic)"
  "guards (go_bind m f) Q = guards m (\<lambda>x. guards (f x) Q)"
  by (cases m; simp add: guards_def)+

lemma guards_if [simp]: "guards (if b then m else n) Q = (if b then guards m Q else guards n Q)"
  by simp

lemma make_slice_guards: "Q () \<Longrightarrow> guards (make_slice k n) Q"
  by (simp add: make_slice_def conversion_panic_def)

lemma guards_mono: "guards m P \<Longrightarrow> (\<And>x. P x \<Longrightarrow> Q x) \<Longrightarrow> guards m Q"
  by (cases m) auto

definition keeps :: "handler \<Rightarrow> bool" where
  "keeps h \<longleftrightarrow> (\<forall>e args d. env_ok e \<longrightarrow> wf_db d \<longrightarrow> guards (h e args d) (\<lambda>p. wf_db (snd p)))"

text \<open>\<open>reads h\<close>: handler \<open>h\<close> moreover changes nothing that can be seen.\<close>

definition reads :: "handler \<Rightarrow> bool" where
  "reads h \<longleftrightarrow> (\<forall>e args d. env_ok e \<longrightarrow> wf_db d \<longrightarrow>
     guards (h e args d) (\<lambda>p. wf_db (snd p) \<and> keyspace e (snd p) = keyspace e d))"

lemma readsI:
  "(\<And>e args d. env_ok e \<Longrightarrow> wf_db d \<Longrightarrow>
    guards (h e args d) (\<lambda>p. wf_db (snd p) \<and> keyspace e (snd p) = keyspace e d)) \<Longrightarrow> reads h"
  by (simp add: reads_def)

lemma reads_keeps:
  assumes "reads h"
  shows "keeps h"
  unfolding keeps_def
proof (intro allI impI)
  fix e args d assume "env_ok e" "wf_db d"
  with assms have "guards (h e args d) (\<lambda>p. wf_db (snd p) \<and> keyspace e (snd p) = keyspace e d)"
    unfolding reads_def by blast
  then show "guards (h e args d) (\<lambda>p. wf_db (snd p))" by (rule guards_mono) simp
qed

lemma guards_returns: "returns m Q \<Longrightarrow> guards m Q"
  by (cases m) simp_all

lemma keepsI: "(\<And>e args d. env_ok e \<Longrightarrow> wf_db d \<Longrightarrow> guards (h e args d) (\<lambda>p. wf_db (snd p))) \<Longrightarrow> keeps h"
  by (simp add: keeps_def)

lemma cell_type_iff:
  "cell_type c = TypeList \<longleftrightarrow> (\<exists>l. c = CList l)" "cell_type c = TypeHash \<longleftrightarrow> (\<exists>h. c = CHash h)"
  "cell_type c = TypeSet \<longleftrightarrow> (\<exists>s. c = CSet s)" "cell_type c = TypeZSet \<longleftrightarrow> (\<exists>z. c = CZSet z)"
  "cell_type c \<noteq> TypeString"
  by (cases c; simp)+

lemma assert_string_ok:
  "obj_ok h o1 \<Longrightarrow> oType o1 = TypeString \<Longrightarrow> \<exists>s. oValue o1 = VStr s \<and> assert_string (oValue o1) = Ret s"
  by (cases "oValue o1") (auto simp: obj_ok_def val_type_def assert_string_def cell_type_iff split: option.splits)

lemma obj_ok_cell:
  "obj_ok (heap d) o1 \<Longrightarrow> oType o1 = t \<Longrightarrow> t \<noteq> TypeString \<Longrightarrow>
    \<exists>a c. oValue o1 = VRef a \<and> heap d a = Some c \<and> cell_type c = t \<and> assert_cell t d (oValue o1) = Ret a"
  by (cases "oValue o1") (auto simp: obj_ok_def val_type_def assert_cell_def split: option.splits)

text \<open>The type of an abstract value, which for a sound object is its tag.\<close>

fun lval_tag :: "lval \<Rightarrow> ValueType" where
  "lval_tag (LStr s) = TypeString"
| "lval_tag (LList xs) = TypeList"
| "lval_tag (LHash h) = TypeHash"
| "lval_tag (LSet s) = TypeSet"
| "lval_tag (LZSet z) = TypeZSet"

lemma lval_tag_cell [simp]: "lval_tag (cell_view c) = cell_type c"
  by (cases c) simp_all

lemma lval_tag_obj: "obj_ok h o1 \<Longrightarrow> lval_tag (val_view h (oValue o1)) = oType o1"
  by (auto simp: obj_ok_def val_type_def val_view_def split: val.splits option.splits)

lemma new_object_ok: "val_type h v = Some t \<Longrightarrow> obj_ok h (new_object t v)"
  by (simp add: obj_ok_def new_object_def)

lemma new_object_view [simp]: "obj_view e h (new_object t v) = Some (val_view h v, None)"
  by (simp add: obj_view_def new_object_def IsExpired_def)

lemma wf_new_cell:
  assumes "wf_db d" and "cell_ok c"
  shows "wf_db (d\<lparr>heap := (heap d)(next_ref d \<mapsto> c), next_ref := Suc (next_ref d)\<rparr>)"
proof -
  have "heap d (next_ref d) = None" using wf_dbD(4)[OF assms(1)] by (cases "heap d (next_ref d)") auto
  then have "obj_ok ((heap d)(next_ref d \<mapsto> c)) o1" if "obj_ok (heap d) o1" for o1
    using that by (auto simp: obj_ok_def val_type_def split: val.splits)
  then show ?thesis using assms by (auto simp: wf_db_def less_Suc_eq)
qed

text \<open>A fresh cell is seen by no key.\<close>

lemma new_cell_keyspace:
  assumes "wf_db d"
  shows "keyspace e (d\<lparr>heap := (heap d)(next_ref d \<mapsto> c), next_ref := Suc (next_ref d)\<rparr>) = keyspace e d"
    (is "keyspace e ?d = _")
proof
  fix k
  have "heap d (next_ref d) = None" using wf_dbD(4)[OF assms] by (cases "heap d (next_ref d)") auto
  then have "obj_view e (heap ?d) o1 = obj_view e (heap d) o1" if "obj_ok (heap d) o1" for o1
    using that by (auto simp: obj_view_def val_view_def obj_ok_def val_type_def split: val.splits)
  then show "keyspace e ?d k = keyspace e d k"
    using wf_dbD(2)[OF assms] by (cases "map_of (dat d) k") (auto simp: keyspace_def)
qed

lemma put_cell_wf [keeps_inv]:
  assumes "wf_db d" and "map_option cell_type (heap d a) = Some (cell_type c)" and "cell_ok c"
  shows "wf_db (put_cell a c d)"
proof -
  have "obj_ok ((heap d)(a \<mapsto> c)) o1" if "obj_ok (heap d) o1" for o1
    using that assms(2) by (auto simp: obj_ok_def val_type_def split: val.splits)
  then show ?thesis using assms by (auto simp: wf_db_def put_cell_def)
qed

lemma put_cell_simps [simp]:
  "heap (put_cell a c d) = (heap d)(a \<mapsto> c)" "dat (put_cell a c d) = dat d"
  "next_ref (put_cell a c d) = next_ref d"
  by (simp_all add: put_cell_def)

text \<open>A value behind a pointer that no other key shares.\<close>

definition refs :: "db \<Rightarrow> string \<Rightarrow> nat option" where
  "refs d k = (case map_of (dat d) k of Some o1 \<Rightarrow> (case oValue o1 of VRef a \<Rightarrow> Some a | VStr s \<Rightarrow> None)
     | None \<Rightarrow> None)"

lemma put_cell_keyspace:
  assumes "\<And>k'. refs d k' = Some a \<Longrightarrow> k' = k" and "map_of (dat d) k = Some o1" and "oValue o1 = VRef a"
    and "\<not> IsExpired e o1" and "heap d a \<noteq> None"
  shows "keyspace e (put_cell a c d) =
    (keyspace e d)(k \<mapsto> (cell_view c, if oHasExpiry o1 then Some (oExpiry o1) else None))"
proof
  fix k'
  show "keyspace e (put_cell a c d) k' =
    ((keyspace e d)(k \<mapsto> (cell_view c, if oHasExpiry o1 then Some (oExpiry o1) else None))) k'"
  proof (cases "k' = k")
    case True
    then show ?thesis using assms by (simp add: keyspace_def obj_view_def val_view_def)
  next
    case False
    then have "refs d k' \<noteq> Some a" using assms(1) by blast
    with False show ?thesis
      by (cases "map_of (dat d) k'") (auto simp: keyspace_def obj_view_def val_view_def refs_def split: val.splits)
  qed
qed

lemma db_Get_facts:
  "wf_db d \<Longrightarrow> db_Get e k d = (r, d') \<Longrightarrow>
    wf_db d' \<and> keyspace e d' = keyspace e d \<and> (r = None \<longleftrightarrow> keyspace e d k = None)
    \<and> (\<forall>o1. r = Some o1 \<longrightarrow> obj_ok (heap d') o1 \<and> map_of (dat d') k = Some o1
         \<and> keyspace e d k = obj_view e (heap d') o1 \<and> \<not> IsExpired e o1)"
  using db_Get_wf[of d e k] db_Get_keyspace[of e k d] db_Get_None[of e k d] db_Get_Some[of e k d]
    db_Get_dat[of e k d] wf_dbD(2)[of d' k]
  by auto

lemma guards_get:
  assumes "wf_db d"
    and "\<And>d'. wf_db d' \<Longrightarrow> keyspace e d' = keyspace e d \<Longrightarrow> guards (f None d') Q"
    and "\<And>o1 d'. wf_db d' \<Longrightarrow> keyspace e d' = keyspace e d \<Longrightarrow> obj_ok (heap d') o1 \<Longrightarrow> guards (f (Some o1) d') Q"
  shows "guards (case_prod f (db_Get e k d)) Q"
proof (cases "db_Get e k d")
  case (Pair r d')
  from db_Get_facts[OF assms(1) Pair] assms(2,3) show ?thesis unfolding Pair by (cases r) auto
qed

lemma guards_or_reply [simp]:
  "guards (or_reply m f) Q = guards m (\<lambda>(r, d). case r of Inl err \<Rightarrow> Q (err, d) | Inr x \<Rightarrow> guards (f x d) Q)"
  by (cases m) (auto simp: or_reply_def split: sum.split)

lemma returns_or_reply [simp]:
  "returns (or_reply m f) Q = returns m (\<lambda>(r, d). case r of Inl err \<Rightarrow> Q (err, d) | Inr x \<Rightarrow> returns (f x d) Q)"
  by (cases m) (auto simp: or_reply_def split: sum.split)

lemma guards_need_int: "Q (notIntErr, d) \<Longrightarrow> (\<And>n. int64_range n \<Longrightarrow> guards (f n) Q) \<Longrightarrow> guards (need_int s d f) Q"
  using parsed_range[of s] by (cases "parsed (ParseInt s)") (simp_all add: need_int_def)

lemma drop_empty_wf: "wf_db d \<Longrightarrow> wf_db (drop_empty k b d)"
  by (simp add: drop_empty_def db_Del_wf del: db_Del.simps)

lemma drop_empty_keyspace:
  "keyspace e (drop_empty k b d) = (if b then (keyspace e d)(k := None) else keyspace e d)"
  by (auto simp: drop_empty_def db_Del_keyspace restrict_map_def fun_eq_iff simp del: db_Del.simps)

text \<open>
  \<open>alone d k\<close>: no other key shares the value of \<open>k\<close>. \<open>COPY\<close> of a list or a sorted set
  makes two keys share one; all other commands keep values apart.
\<close>

definition alone :: "db \<Rightarrow> string \<Rightarrow> bool" where
  "alone d k \<longleftrightarrow> (\<forall>k' a. refs d k = Some a \<longrightarrow> refs d k' = Some a \<longrightarrow> k' = k)"

lemma refs_Get: "refs (snd (db_Get e k d)) k' = Some a \<Longrightarrow> refs d k' = Some a"
  by (auto simp: refs_def db_Get_def split: option.splits if_splits)

lemma alone_Get: "alone d k' \<Longrightarrow> alone (snd (db_Get e k d)) k'"
  unfolding alone_def using refs_Get by blast

lemma refs_allocated: "wf_db d \<Longrightarrow> refs d k = Some a \<Longrightarrow> a < next_ref d"
  using wf_dbD(2)[of d k] wf_dbD(4)[of d a]
  by (fastforce simp: refs_def obj_ok_def val_type_def split: option.splits val.splits)

lemma alone_put [simp]: "alone (put_cell a c d) k = alone d k"
  by (simp add: alone_def refs_def)

lemma refs_Del: "refs (snd (db_Del ks d)) k = Some a \<Longrightarrow> refs d k = Some a"
proof (induction ks d rule: db_Del.induct)
  case (2 k0 ks d)
  then show ?case by (auto simp: refs_def split: prod.splits if_splits option.splits)
qed simp

lemma alone_drop: "alone d k \<Longrightarrow> alone (drop_empty k' b d) k"
  unfolding alone_def drop_empty_def using refs_Del by (metis (full_types))

text \<open>The entry of \<open>k\<close> is live and its value is behind the pointer \<open>a\<close>.\<close>

definition live_entry :: "env \<Rightarrow> db \<Rightarrow> string \<Rightarrow> nat \<Rightarrow> bool" where
  "live_entry e d k a \<longleftrightarrow>
     (case map_of (dat d) k of None \<Rightarrow> False | Some o1 \<Rightarrow> oValue o1 = VRef a \<and> \<not> IsExpired e o1)"

text \<open>The expiry of a key.\<close>

definition expiry_of :: "(string \<rightharpoonup> lval \<times> int option) \<Rightarrow> string \<Rightarrow> int option" where
  "expiry_of ks k = (case ks k of None \<Rightarrow> None | Some (v, x) \<Rightarrow> x)"

section \<open>The contract of the container types\<close>

text \<open>
  A container type: its tag, the constructor of its cells, the empty value, and
  what holds of every value of the type.
\<close>

locale container =
  fixes tag :: ValueType and wrap :: "'c \<Rightarrow> cell" and init :: 'c and ok :: "'c \<Rightarrow> bool"
    and value_at :: "db \<Rightarrow> nat \<Rightarrow> 'c"
  assumes tag: "cell_type c = tag \<longleftrightarrow> (\<exists>x. c = wrap x)" and not_string: "tag \<noteq> TypeString"
    and cell_ok_wrap: "cell_ok (wrap x) = ok x" and ok_empty: "ok init"
    and value_at: "heap d a = Some (wrap x) \<Longrightarrow> value_at d a = x"
begin

lemma type_wrap [simp]: "cell_type (wrap x) = tag"
  using tag by blast

text \<open>
  A lookup leaves the abstract database alone; it gives the type error, nothing, or a
  pointer to the value of the key.
\<close>

lemma get_value_cases:
  assumes "wf_db d"
  obtains (wrong) d' v t where "get_value tag e k d = Ret (Inl wrongTypeErr, d')" "wf_db d'"
      "keyspace e d' = keyspace e d" "keyspace e d k = Some (v, t)" "lval_tag v \<noteq> tag"
  | (missing) d' where "get_value tag e k d = Ret (Inr None, d')" "wf_db d'"
      "keyspace e d' = keyspace e d" "keyspace e d k = None"
  | (found) d' a x t where "get_value tag e k d = Ret (Inr (Some a), d')" "wf_db d'"
      "keyspace e d' = keyspace e d" "heap d' a = Some (wrap x)" "ok x" "value_at d' a = x" "refs d' k = Some a"
      "live_entry e d' k a" "\<forall>k'. alone d k' \<longrightarrow> alone d' k'" "keyspace e d k = Some (cell_view (wrap x), t)"
proof (cases "db_Get e k d")
  case (Pair r d')
  have wf: "wf_db d'" and ks: "keyspace e d' = keyspace e d" and h: "heap d' = heap d"
    and al: "\<forall>k'. alone d k' \<longrightarrow> alone d' k'"
    using db_Get_wf[OF assms, of e k] db_Get_keyspace[of e k d] db_Get_dat[of e k d] alone_Get[of d _ e k] Pair by auto
  show ?thesis
  proof (cases r)
    case None
    with db_Get_None[of e k d] Pair show ?thesis by (intro missing[OF _ wf ks]) (simp_all add: get_value_def)
  next
    case (Some o1)
    with Pair have m: "map_of (dat d') k = Some o1" "\<not> IsExpired e o1" "keyspace e d k = obj_view e (heap d) o1"
      using db_Get_Some[of e k d o1] by auto
    show ?thesis
    proof (cases "oType o1 = tag")
      case False
      have "lval_tag (val_view (heap d) (oValue o1)) = oType o1"
        using lval_tag_obj[OF wf_dbD(2)[OF wf m(1)]] h by simp
      with m Pair Some False show ?thesis by (intro wrong[OF _ wf ks, of "val_view (heap d) (oValue o1)"]) (simp_all add: get_value_def obj_view_def)
    next
      case True
      obtain a c where c: "oValue o1 = VRef a" "heap d' a = Some c" "cell_type c = tag"
        "assert_cell tag d' (oValue o1) = Ret a"
        using obj_ok_cell[OF wf_dbD(2)[OF wf m(1)] True not_string] by blast
      then obtain x where x: "c = wrap x" using tag by blast
      then have "value_at d' a = x" "ok x" using value_at c(2) wf_dbD(3)[OF wf c(2)] cell_ok_wrap by auto
      with m h Pair Some True c x al show ?thesis
        by (intro found[OF _ wf ks, of a x]) (simp_all add: get_value_def obj_view_def val_view_def refs_def live_entry_def)
    qed
  qed
qed

text \<open>The lookup for writing stores an empty value when the key is not there.\<close>

lemma create_new:
  assumes "wf_db d" and "db_Get e k d = (None, d1)"
  obtains d' a where "get_or_create tag (wrap init) e k d = Ret (Inr a, d')" "wf_db d'"
    "keyspace e d' = (keyspace e d)(k \<mapsto> (cell_view (wrap init), None))" "heap d' a = Some (wrap init)"
    "refs d' k = Some a" "live_entry e d' k a" "alone d' k" "\<forall>k'. alone d k' \<longrightarrow> alone d' k'" "keyspace e d k = None"
proof -
  have wf: "wf_db d1" and ks: "keyspace e d1 = keyspace e d" and h: "heap d1 = heap d"
    using db_Get_wf[OF assms(1), of e k] db_Get_keyspace[of e k d] db_Get_dat[of e k d] assms(2) by auto
  let ?a = "next_ref d1"
  let ?d = "d1\<lparr>heap := (heap d1)(?a \<mapsto> wrap init), next_ref := Suc ?a\<rparr>"
  have nw: "new_cell (wrap init) d1 = (?a, ?d)" by (simp add: new_cell_def)
  have wd: "wf_db ?d" using wf_new_cell[OF wf] cell_ok_wrap ok_empty by simp
  have hd: "heap ?d = (heap d1)(?a \<mapsto> wrap init)" "dat ?d = dat d1" by simp_all
  have kd: "keyspace e ?d = keyspace e d1" by (rule new_cell_keyspace[OF wf])
  have "obj_ok (heap ?d) (new_object tag (VRef ?a))"
    by (rule new_object_ok) (simp add: hd val_type_def)
  define D where "D = db_Set e k (new_object tag (VRef ?a)) ?d"
  have r: "refs D k = Some ?a" by (simp add: D_def refs_def db_Set_def new_object_def)
  show ?thesis
  proof (rule that[of ?a D])
    show "wf_db D" unfolding D_def by (rule db_Set_wf[OF wd]) fact
    show "heap D ?a = Some (wrap init)" by (simp add: D_def db_Set_def hd)
    show "keyspace e D = (keyspace e d)(k \<mapsto> (cell_view (wrap init), None))"
      by (simp add: D_def db_Set_keyspace kd ks val_view_def hd)
    show "live_entry e D k ?a" by (simp add: D_def live_entry_def db_Set_def new_object_def IsExpired_def)
    have "refs D k' \<noteq> Some ?a" if "k' \<noteq> k" for k'
      using refs_allocated[OF wf, of k' ?a] that by (auto simp: D_def refs_def db_Set_def)
    with r show "alone D k" unfolding alone_def by force
    show "\<forall>k'. alone d k' \<longrightarrow> alone D k'"
    proof (intro allI impI)
      fix k' assume k': "alone d k'"
      have al: "alone d1 k'" using alone_Get[OF k', of e k] assms(2) by simp
      have eq: "refs D k'' = refs d1 k''" if "k'' \<noteq> k" for k''
        using that by (simp add: D_def refs_def db_Set_def)
      show "alone D k'"
        unfolding alone_def
      proof (intro allI impI)
        fix k'' a assume a: "refs D k' = Some a" "refs D k'' = Some a"
        show "k'' = k'"
        proof (cases "k' = k \<or> k'' = k")
          case True
          with \<open>alone D k\<close> a r show ?thesis unfolding alone_def by metis
        next
          case False
          with al a eq show ?thesis unfolding alone_def by metis
        qed
      qed
    qed
    show "get_or_create tag (wrap init) e k d = Ret (Inr ?a, D)"
      using assms(2) by (simp add: get_or_create_def nw D_def)
    show "keyspace e d k = None" using db_Get_None[of e k d] assms(2) by simp
  qed (rule r)
qed

lemma get_or_create_value:
  "db_Get e k d = (Some o1, d1) \<Longrightarrow> get_value tag e k d = Ret (Inr (Some a), d') \<Longrightarrow>
    get_or_create tag (wrap init) e k d = Ret (Inr a, d')"
  "db_Get e k d = (Some o1, d1) \<Longrightarrow> get_value tag e k d = Ret (Inl err, d') \<Longrightarrow>
    get_or_create tag (wrap init) e k d = Ret (Inl err, d')"
  by (auto simp: get_value_def get_or_create_def go_bind_eq_Ret split: if_splits)

lemma get_or_create_cases:
  assumes "wf_db d"
  obtains (wrong) d' v t where "get_or_create tag (wrap init) e k d = Ret (Inl wrongTypeErr, d')" "wf_db d'"
      "keyspace e d' = keyspace e d" "keyspace e d k = Some (v, t)" "lval_tag v \<noteq> tag"
  | (made) d' a where "get_or_create tag (wrap init) e k d = Ret (Inr a, d')" "wf_db d'"
      "keyspace e d' = (keyspace e d)(k \<mapsto> (cell_view (wrap init), None))" "heap d' a = Some (wrap init)"
      "value_at d' a = init" "refs d' k = Some a" "live_entry e d' k a" "alone d' k" "\<forall>k'. alone d k' \<longrightarrow> alone d' k'" "keyspace e d k = None"
  | (found) d' a x t where "get_or_create tag (wrap init) e k d = Ret (Inr a, d')" "wf_db d'"
      "keyspace e d' = keyspace e d" "heap d' a = Some (wrap x)" "ok x" "value_at d' a = x" "refs d' k = Some a"
      "live_entry e d' k a" "\<forall>k'. alone d k' \<longrightarrow> alone d' k'" "keyspace e d k = Some (cell_view (wrap x), t)"
proof (cases "db_Get e k d")
  case (Pair r d1)
  show ?thesis
  proof (cases r)
    case None
    with Pair have "db_Get e k d = (None, d1)" by simp
    from assms this show ?thesis
    proof (rule create_new)
      fix d' a
      assume *: "get_or_create tag (wrap init) e k d = Ret (Inr a, d')" "wf_db d'"
        "keyspace e d' = (keyspace e d)(k \<mapsto> (cell_view (wrap init), None))" "heap d' a = Some (wrap init)"
        "refs d' k = Some a" "live_entry e d' k a" "alone d' k" "\<forall>k'. alone d k' \<longrightarrow> alone d' k'" "keyspace e d k = None"
      show ?thesis by (rule made[OF *(1-4) value_at[OF *(4)] *(5-9)])
    qed
  next
    case (Some o1)
    note g = get_or_create_value[OF Pair[unfolded Some]]
    have ne: "keyspace e d k \<noteq> None" using db_Get_None[of e k d] Pair Some by simp
    from assms show ?thesis
    proof (cases rule: get_value_cases[of d e k])
      case (wrong d' v t)
      show ?thesis by (rule that(1)[OF g(2)[OF wrong(1)] wrong(2-5)])
    next
      case (found d' a x t)
      show ?thesis by (rule that(3)[OF g(1)[OF found(1)] found(2-10)])
    qed (use ne in simp)
  qed
qed

text \<open>A lookup does not touch the heap.\<close>

lemma get_value_heap:
  assumes "wf_db d"
  shows "returns (get_value tag e k d) (\<lambda>(r, d'). heap d' = heap d)"
proof (cases "db_Get e k d")
  case (Pair r d')
  then have h: "heap d' = heap d" using db_Get_dat[of e k d] by simp
  from assms obtain x where "get_value tag e k d = Ret x"
    by (cases rule: get_value_cases[of d e k]) auto
  with Pair h show ?thesis
    by (cases r) (auto simp: get_value_def go_bind_eq_Ret split: if_splits)
qed

lemma get_or_create_heap:
  assumes "wf_db d"
  shows "returns (get_or_create tag (wrap init) e k d) (\<lambda>(r, d'). heap d' = heap d \<or> (\<exists>b. heap d' = (heap d)(b \<mapsto> wrap init)))"
proof (cases "db_Get e k d")
  case (Pair r d')
  then have h: "heap d' = heap d" using db_Get_dat[of e k d] by simp
  from assms obtain x where x: "get_or_create tag (wrap init) e k d = Ret x"
    by (cases rule: get_or_create_cases[of d e k]) auto
  show ?thesis
  proof (cases r)
    case None
    with Pair h show ?thesis by (auto simp: get_or_create_def new_cell_def db_Set_def)
  next
    case (Some o1)
    with Pair h x show ?thesis by (auto simp: get_or_create_def go_bind_eq_Ret split: if_splits)
  qed
qed

text \<open>The rules with which the handlers are verified.\<close>

lemma guards_get_value:
  assumes "wf_db d"
    and "\<And>d'. wf_db d' \<Longrightarrow> keyspace e d' = keyspace e d \<Longrightarrow> Q (Inl wrongTypeErr, d')"
    and "\<And>d'. wf_db d' \<Longrightarrow> keyspace e d' = keyspace e d \<Longrightarrow> Q (Inr None, d')"
    and "\<And>d' a x. wf_db d' \<Longrightarrow> keyspace e d' = keyspace e d \<Longrightarrow> heap d' a = Some (wrap x) \<Longrightarrow> ok x \<Longrightarrow>
      value_at d' a = x \<Longrightarrow> Q (Inr (Some a), d')"
  shows "guards (get_value tag e k d) Q"
  using assms by (cases rule: get_value_cases[of d e k]) auto

lemma guards_get_or_create:
  assumes "wf_db d"
    and "\<And>d'. wf_db d' \<Longrightarrow> Q (Inl wrongTypeErr, d')"
    and "\<And>d' a x. wf_db d' \<Longrightarrow> heap d' a = Some (wrap x) \<Longrightarrow> ok x \<Longrightarrow> value_at d' a = x \<Longrightarrow> Q (Inr a, d')"
  shows "guards (get_or_create tag (wrap init) e k d) Q"
  using assms ok_empty by (cases rule: get_or_create_cases[of d e k]) auto

text \<open>Storing a value through the pointer.\<close>

lemma put_wf: "wf_db d \<Longrightarrow> heap d a = Some (wrap x) \<Longrightarrow> ok x' \<Longrightarrow> wf_db (put_cell a (wrap x') d)"
  by (rule put_cell_wf) (simp_all add: cell_ok_wrap)

lemma put_keyspace:
  assumes "alone d k" and "refs d k = Some a" and "live_entry e d k a" and "heap d a = Some (wrap x)"
  shows "keyspace e (put_cell a (wrap x') d) = (keyspace e d)(k \<mapsto> (cell_view (wrap x'), expiry_of (keyspace e d) k))"
proof -
  obtain o1 where o1: "map_of (dat d) k = Some o1" "oValue o1 = VRef a" "\<not> IsExpired e o1"
    using assms(3) by (auto simp: live_entry_def split: option.splits)
  then have "expiry_of (keyspace e d) k = (if oHasExpiry o1 then Some (oExpiry o1) else None)"
    by (simp add: expiry_of_def keyspace_def obj_view_def)
  moreover have "\<And>k'. refs d k' = Some a \<Longrightarrow> k' = k" using assms(1,2) by (simp add: alone_def)
  ultimately show ?thesis using put_cell_keyspace[of d a k o1 e "wrap x'"] o1 assms(4) by simp
qed

text \<open>What a handler sees that reads a value of a key no other key shares, and what
  storing a new value does to the abstract database.\<close>

lemma modify:
  assumes "wf_db d" and "alone d k"
    and "\<And>d' v t. wf_db d' \<Longrightarrow> keyspace e d' = keyspace e d \<Longrightarrow> keyspace e d k = Some (v, t) \<Longrightarrow> lval_tag v \<noteq> tag \<Longrightarrow> Q (Inl wrongTypeErr, d')"
    and "\<And>d'. wf_db d' \<Longrightarrow> keyspace e d' = keyspace e d \<Longrightarrow> keyspace e d k = None \<Longrightarrow> Q (Inr None, d')"
    and "\<And>d' a x t. wf_db d' \<Longrightarrow> keyspace e d' = keyspace e d \<Longrightarrow> heap d' a = Some (wrap x) \<Longrightarrow> ok x \<Longrightarrow>
      value_at d' a = x \<Longrightarrow> keyspace e d k = Some (cell_view (wrap x), t) \<Longrightarrow>
      (\<And>x'. keyspace e (put_cell a (wrap x') d') = (keyspace e d)(k \<mapsto> (cell_view (wrap x'), t))) \<Longrightarrow>
      (\<And>k'. alone d k' \<Longrightarrow> alone d' k') \<Longrightarrow>
      Q (Inr (Some a), d')"
  shows "returns (get_value tag e k d) Q"
  using assms(1)
proof (cases rule: get_value_cases[of d e k])
  case (found d' a x t)
  then have "keyspace e (put_cell a (wrap x') d') = (keyspace e d)(k \<mapsto> (cell_view (wrap x'), t))" for x'
    using put_keyspace[of d' k a e x x'] assms(2) by (simp add: expiry_of_def)
  with assms(5)[OF found(2-6,10)] found(1,9) show ?thesis by simp
qed (use assms(3,4) in auto)

lemma create_modify:
  assumes "wf_db d" and "alone d k"
    and "\<And>d' v t. wf_db d' \<Longrightarrow> keyspace e d' = keyspace e d \<Longrightarrow> keyspace e d k = Some (v, t) \<Longrightarrow> lval_tag v \<noteq> tag \<Longrightarrow> Q (Inl wrongTypeErr, d')"
    and "\<And>d' a x t. wf_db d' \<Longrightarrow> heap d' a = Some (wrap x) \<Longrightarrow> ok x \<Longrightarrow> value_at d' a = x \<Longrightarrow>
      (keyspace e d k = None \<and> x = init \<and> t = None \<or> keyspace e d k = Some (cell_view (wrap x), t)) \<Longrightarrow>
      (\<And>x'. keyspace e (put_cell a (wrap x') d') = (keyspace e d)(k \<mapsto> (cell_view (wrap x'), t))) \<Longrightarrow>
      (\<And>k'. alone d k' \<Longrightarrow> alone d' k') \<Longrightarrow>
      Q (Inr a, d')"
  shows "returns (get_or_create tag (wrap init) e k d) Q"
  using assms(1)
proof (cases rule: get_or_create_cases[of d e k])
  case (made d' a)
  then have "keyspace e (put_cell a (wrap x') d') = (keyspace e d)(k \<mapsto> (cell_view (wrap x'), None))" for x'
    using put_keyspace[of d' k a e init x'] by (simp add: expiry_of_def)
  with assms(4)[OF made(2,4) ok_empty made(5), of None] made(1,9,10) show ?thesis by simp
next
  case (found d' a x t)
  then have "keyspace e (put_cell a (wrap x') d') = (keyspace e d)(k \<mapsto> (cell_view (wrap x'), t))" for x'
    using put_keyspace[of d' k a e x x'] assms(2) by (simp add: expiry_of_def)
  with assms(4)[OF found(2,4-6), of t] found(1,9,10) show ?thesis by simp
qed (use assms(3) in auto)

end

section \<open>The contract of their contents\<close>

text \<open>
  A container type with what its values stand for: \<open>content ks k\<close> is what the
  commands of the type see of key \<open>k\<close> in the abstract database \<open>ks\<close> (nothing is
  seen of a key of another type), and \<open>store ks k v\<close> puts \<open>v\<close> there, an empty one by
  deleting the key.
\<close>

locale collection = container +
  fixes content :: "(string \<Rightarrow> (lval \<times> int option) option) \<Rightarrow> string \<Rightarrow> 'v option"
    and store :: "(string \<Rightarrow> (lval \<times> int option) option) \<Rightarrow> string \<Rightarrow> 'v \<Rightarrow> string \<Rightarrow> (lval \<times> int option) option"
    and abs :: "'a \<Rightarrow> 'v" and nil :: 'v and is_empty :: "'a \<Rightarrow> bool"
  assumes content_None: "ks k = None \<Longrightarrow> content ks k = Some nil"
    and content_cell: "ks k = Some (cell_view (wrap x), t) \<Longrightarrow> content ks k = Some (abs x)"
    and content_wrong: "ks k = Some (v, t) \<Longrightarrow> lval_tag v \<noteq> tag \<Longrightarrow> content ks k = None"
    and store_nil: "store ks k nil = ks(k := None)"
    and store_cell: "abs x \<noteq> nil \<Longrightarrow> store ks k (abs x) = ks(k \<mapsto> (cell_view (wrap x), expiry_of ks k))"
    and is_empty: "ok x \<Longrightarrow> is_empty x \<longleftrightarrow> abs x = nil"
    and init_empty: "is_empty init"
begin

lemma store_missing: "ks k = None \<Longrightarrow> store ks k nil = ks"
  by (auto simp: store_nil)

lemma read_content:
  assumes "wf_db d"
    and "\<And>d'. wf_db d' \<Longrightarrow> keyspace e d' = keyspace e d \<Longrightarrow> content (keyspace e d) k = None \<Longrightarrow> Q (Inl wrongTypeErr, d')"
    and "\<And>d'. wf_db d' \<Longrightarrow> keyspace e d' = keyspace e d \<Longrightarrow> content (keyspace e d) k = Some nil \<Longrightarrow> Q (Inr None, d')"
    and "\<And>d' a x. wf_db d' \<Longrightarrow> keyspace e d' = keyspace e d \<Longrightarrow> heap d' a = Some (wrap x) \<Longrightarrow> ok x \<Longrightarrow> value_at d' a = x \<Longrightarrow>
      content (keyspace e d) k = Some (abs x) \<Longrightarrow> Q (Inr (Some a), d')"
  shows "returns (get_value tag e k d) Q"
  using assms(1)
proof (cases rule: get_value_cases[of d e k])
  case (wrong d' v t)
  with assms(2)[of d'] content_wrong[of "keyspace e d" k v t] show ?thesis by simp
next
  case (missing d')
  with assms(3)[of d'] show ?thesis by (simp add: content_None)
next
  case (found d' a x t)
  with assms(4)[of d' a x] content_cell[of "keyspace e d" k x t] show ?thesis by simp
qed

text \<open>What storing a value through the pointer does, with and without the test for emptiness.\<close>

lemma store_through:
  assumes "wf_db d'" and "heap d' a = Some (wrap x)" and "ok x'"
    and "keyspace e (put_cell a (wrap x') d') = ks(k \<mapsto> (cell_view (wrap x'), expiry_of ks k))"
  shows "keyspace e (drop_empty k (is_empty x') (put_cell a (wrap x') d')) = store ks k (abs x')
      \<and> wf_db (drop_empty k (is_empty x') (put_cell a (wrap x') d'))"
    and "abs x' \<noteq> nil \<Longrightarrow> keyspace e (put_cell a (wrap x') d') = store ks k (abs x') \<and> wf_db (put_cell a (wrap x') d')"
proof -
  have w: "wf_db (put_cell a (wrap x') d')" by (rule put_wf[OF assms(1-3)])
  show "keyspace e (drop_empty k (is_empty x') (put_cell a (wrap x') d')) = store ks k (abs x')
      \<and> wf_db (drop_empty k (is_empty x') (put_cell a (wrap x') d'))"
    using assms(4) drop_empty_wf[OF w] is_empty[OF assms(3)]
    by (auto simp: drop_empty_keyspace store_nil store_cell)
  show "abs x' \<noteq> nil \<Longrightarrow> keyspace e (put_cell a (wrap x') d') = store ks k (abs x') \<and> wf_db (put_cell a (wrap x') d')"
    using assms(4) w by (simp add: store_cell)
qed

lemma modify_content:
  assumes "wf_db d" and "alone d k"
    and "\<And>d'. wf_db d' \<Longrightarrow> keyspace e d' = keyspace e d \<Longrightarrow> content (keyspace e d) k = None \<Longrightarrow> Q (Inl wrongTypeErr, d')"
    and "\<And>d'. wf_db d' \<Longrightarrow> keyspace e d' = keyspace e d \<Longrightarrow> store (keyspace e d) k nil = keyspace e d \<Longrightarrow>
      content (keyspace e d) k = Some nil \<Longrightarrow> Q (Inr None, d')"
    and "\<And>d' a x. wf_db d' \<Longrightarrow> keyspace e d' = keyspace e d \<Longrightarrow> heap d' a = Some (wrap x) \<Longrightarrow> ok x \<Longrightarrow>
      value_at d' a = x \<Longrightarrow> content (keyspace e d) k = Some (abs x) \<Longrightarrow>
      (\<And>x'. ok x' \<Longrightarrow> keyspace e (drop_empty k (is_empty x') (put_cell a (wrap x') d')) = store (keyspace e d) k (abs x')
        \<and> wf_db (drop_empty k (is_empty x') (put_cell a (wrap x') d'))) \<Longrightarrow>
      (\<And>x'. ok x' \<Longrightarrow> abs x' \<noteq> nil \<Longrightarrow> keyspace e (put_cell a (wrap x') d') = store (keyspace e d) k (abs x')
        \<and> wf_db (put_cell a (wrap x') d')) \<Longrightarrow>
      (\<And>k'. alone d k' \<Longrightarrow> alone d' k') \<Longrightarrow> Q (Inr (Some a), d')"
  shows "returns (get_value tag e k d) Q"
proof (rule modify[OF assms(1,2)])
  fix d' v t assume "wf_db d'" "keyspace e d' = keyspace e d" "keyspace e d k = Some (v, t)" "lval_tag v \<noteq> tag"
  then show "Q (Inl wrongTypeErr, d')" using content_wrong by (intro assms(3))
next
  fix d' assume "wf_db d'" "keyspace e d' = keyspace e d" "keyspace e d k = None"
  then show "Q (Inr None, d')" by (intro assms(4)) (simp_all add: content_None store_missing)
next
  fix d' a x t
  assume *: "wf_db d'" "keyspace e d' = keyspace e d" "heap d' a = Some (wrap x)" "ok x" "value_at d' a = x"
    "keyspace e d k = Some (cell_view (wrap x), t)"
    "\<And>x'. keyspace e (put_cell a (wrap x') d') = (keyspace e d)(k \<mapsto> (cell_view (wrap x'), t))"
    "\<And>k'. alone d k' \<Longrightarrow> alone d' k'"
  then have t: "expiry_of (keyspace e d) k = t" by (simp add: expiry_of_def)
  note st = store_through[OF *(1,3), where ks = "keyspace e d" and k = k and e = e, unfolded t, OF _ *(7)]
  show "Q (Inr (Some a), d')"
    using content_cell[of "keyspace e d" k x t, OF *(6)] by (rule assms(5)[OF *(1-5) _ st *(8)])
qed

lemma create_content:
  assumes "wf_db d" and "alone d k"
    and "\<And>d'. wf_db d' \<Longrightarrow> keyspace e d' = keyspace e d \<Longrightarrow> content (keyspace e d) k = None \<Longrightarrow> Q (Inl wrongTypeErr, d')"
    and "\<And>d' a x. wf_db d' \<Longrightarrow> heap d' a = Some (wrap x) \<Longrightarrow> ok x \<Longrightarrow> value_at d' a = x \<Longrightarrow> content (keyspace e d) k = Some (abs x) \<Longrightarrow>
      (\<And>x'. ok x' \<Longrightarrow> abs x' \<noteq> nil \<Longrightarrow> keyspace e (put_cell a (wrap x') d') = store (keyspace e d) k (abs x')
        \<and> wf_db (put_cell a (wrap x') d')) \<Longrightarrow>
      (abs x \<noteq> nil \<Longrightarrow> keyspace e d' = keyspace e d) \<Longrightarrow> Q (Inr a, d')"
  shows "returns (get_or_create tag (wrap init) e k d) Q"
proof (rule create_modify[OF assms(1,2)])
  fix d' v t assume "wf_db d'" "keyspace e d' = keyspace e d" "keyspace e d k = Some (v, t)" "lval_tag v \<noteq> tag"
  then show "Q (Inl wrongTypeErr, d')" using content_wrong by (intro assms(3))
next
  fix d' a x t
  assume *: "wf_db d'" "heap d' a = Some (wrap x)" "ok x" "value_at d' a = x"
    "keyspace e d k = None \<and> x = init \<and> t = None \<or> keyspace e d k = Some (cell_view (wrap x), t)"
    "\<And>x'. keyspace e (put_cell a (wrap x') d') = (keyspace e d)(k \<mapsto> (cell_view (wrap x'), t))"
  have t: "expiry_of (keyspace e d) k = t" using *(5) by (auto simp: expiry_of_def)
  have n: "abs init = nil" using is_empty[OF ok_empty] init_empty by simp
  have c: "content (keyspace e d) k = Some (abs x)" using *(5) content_None[of "keyspace e d" k] content_cell[of "keyspace e d" k x t] n by auto
  have same: "keyspace e d' = keyspace e d" if "abs x \<noteq> nil"
  proof -
    have "put_cell a (wrap x) d' = d'" using *(2) by (simp add: put_cell_def fun_upd_idem)
    with *(5) *(6)[of x] that n show ?thesis by (auto simp: fun_upd_idem)
  qed
  note st = store_through(2)[OF *(1,2), where ks = "keyspace e d" and k = k and e = e, unfolded t, OF _ *(6)]
  show "Q (Inr a, d')" by (rule assms(4)[OF *(1-4) c st same])
qed

end

section \<open>The four types\<close>

interpretation list_value: container TypeList CList NewList list_wf list_at
  by unfold_locales (auto simp: list_at_def cell_type_iff)

interpretation hash_value: container TypeHash CHash "[]" map_wf hash_at
  by unfold_locales (auto simp: hash_at_def cell_type_iff)

interpretation set_value: container TypeSet CSet "[]" distinct set_at
  by unfold_locales (auto simp: set_at_def cell_type_iff)

interpretation zset_value: container TypeZSet CZSet NewZSet "\<lambda>z. map_wf (zscores z)" zset_at
  by unfold_locales (auto simp: zset_at_def NewZSet_def cell_type_iff)

lemmas getList_guards = list_value.guards_get_value[folded getList_def]
lemmas getHash_guards = hash_value.guards_get_value[folded getHash_def]
lemmas getSet_guards = set_value.guards_get_value[folded getSet_def]
lemmas getZSet_guards = zset_value.guards_get_value[folded getZSet_def]
lemmas getOrCreateList_guards = list_value.guards_get_or_create[folded getOrCreateList_def]
lemmas getOrCreateHash_guards = hash_value.guards_get_or_create[folded getOrCreateHash_def]
lemmas getOrCreateSet_guards = set_value.guards_get_or_create[folded getOrCreateSet_def]
lemmas getOrCreateZSet_guards = zset_value.guards_get_or_create[folded getOrCreateZSet_def]

lemmas container_guards = getList_guards getHash_guards getSet_guards getZSet_guards
  getOrCreateList_guards getOrCreateHash_guards getOrCreateSet_guards getOrCreateZSet_guards

lemmas container_put = list_value.put_wf hash_value.put_wf set_value.put_wf zset_value.put_wf

lemmas getList_modify = list_value.modify[folded getList_def]
lemmas getHash_modify = hash_value.modify[folded getHash_def]
lemmas getSet_modify = set_value.modify[folded getSet_def]
lemmas getZSet_modify = zset_value.modify[folded getZSet_def]
lemmas getOrCreateList_modify = list_value.create_modify[folded getOrCreateList_def]
lemmas getOrCreateHash_modify = hash_value.create_modify[folded getOrCreateHash_def]
lemmas getOrCreateSet_modify = set_value.create_modify[folded getOrCreateSet_def]
lemmas getOrCreateZSet_modify = zset_value.create_modify[folded getOrCreateZSet_def]

end
