(* ===== verification/Go_Float_Text.thy ===== *)
theory Go_Float_Text
  imports Go_Float Go_Strconv
begin

text \<open>
  Arithmetic and text of doubles, as the commands use them: \<open>strconv.ParseFloat\<close>
  (decimal and hexadecimal, with underscores), \<open>strconv.FormatFloat(x, 'f', -1, 64)\<close>
  (the shortest decimal that lies in the rounding interval), addition, and
  \<open>time.Duration.Seconds\<close>. Everything is computed exactly with integers and rounded
  once, to the nearest double, ties to even. All NaNs are one NaN here; no command
  tells them apart.
\<close>

section \<open>Rounding\<close>

fun bit_len :: "nat \<Rightarrow> nat" where
  "bit_len n = (if n = 0 then 0 else Suc (bit_len (n div 2)))"

declare bit_len.simps [simp del]

definition round_quot :: "nat \<Rightarrow> nat \<Rightarrow> nat" where
  "round_quot p q =
     (let m = p div q; r = p mod q in if q < 2 * r \<or> q = 2 * r \<and> odd m then m + 1 else m)"

text \<open>\<open>p/q\<close> in units of \<open>2^e\<close>.\<close>

definition scale :: "nat \<Rightarrow> nat \<Rightarrow> int \<Rightarrow> nat \<times> nat" where
  "scale p q e = (if 0 \<le> e then (p, q * 2 ^ nat e) else (p * 2 ^ nat (- e), q))"

definition inf_mag :: nat where "inf_mag = 0x7FF0000000000000"

text \<open>The magnitude bits of the double next to \<open>p/q\<close>, those of infinity on overflow.\<close>

definition round_mag :: "nat \<Rightarrow> nat \<Rightarrow> nat" where
  "round_mag p q =
     (if p = 0 then 0
      else let e = int (bit_len p) - int (bit_len q) - 53;
               e = (case scale p q e of (p', q') \<Rightarrow> if 2 ^ 53 \<le> p' div q' then e + 1 else e);
               e = max e (- 1074)
           in case scale p q e of (p', q') \<Rightarrow> min inf_mag (nat (e + 1074) * 2 ^ 52 + round_quot p' q'))"

definition f_pack :: "bool \<Rightarrow> nat \<Rightarrow> float64" where
  "f_pack neg mag = word_of_int (int mag + (if neg then 2 ^ 63 else 0))"

definition f_quiet_nan :: float64 where "f_quiet_nan = 0x7FF8000000000001"

text \<open>Mantissa and exponent of a finite double.\<close>

definition f_parts :: "float64 \<Rightarrow> nat \<times> int" where
  "f_parts x =
     (let mag = nat (f_mag x); b = mag div 2 ^ 52; f = mag mod 2 ^ 52
      in if b = 0 then (f, - 1074) else (f + 2 ^ 52, int b - 1075))"

definition f_infinite :: "float64 \<Rightarrow> bool" where "f_infinite x \<longleftrightarrow> f_mag x = int inf_mag"

lemma round_mag_le: "round_mag p q \<le> inf_mag"
  by (auto simp: round_mag_def Let_def split: prod.split)

lemma f_pack_mag: "mag < 2 ^ 63 \<Longrightarrow> f_mag (f_pack neg mag) = int mag"
proof -
  assume m: "mag < 2 ^ 63"
  have "(int mag + (if neg then 2 ^ 63 else 0)) mod 2 ^ 64 mod 2 ^ 63 = int mag"
    using m by (cases neg) (simp_all add: mod_mod_cancel)
  then show ?thesis unfolding f_mag_def f_pack_def uint_word_of_int by simp
qed

lemma f_pack_not_nan: "mag \<le> inf_mag \<Longrightarrow> \<not> f_nan (f_pack neg mag)"
  by (simp add: f_nan_def f_pack_mag inf_mag_def)

section \<open>Addition\<close>

definition f_signed :: "float64 \<Rightarrow> int \<Rightarrow> int" where
  "f_signed x e = (case f_parts x of (m, ex) \<Rightarrow> (if f_sign x then - 1 else 1) * int m * 2 ^ nat (ex - e))"

definition f_add :: "float64 \<Rightarrow> float64 \<Rightarrow> float64" where
  "f_add x y =
     (if f_nan x \<or> f_nan y then f_quiet_nan
      else if f_infinite x then (if f_infinite y \<and> f_sign x \<noteq> f_sign y then f_quiet_nan else x)
      else if f_infinite y then y
      else let e = min (snd (f_parts x)) (snd (f_parts y)); s = f_signed x e + f_signed y e in
        if s = 0 then f_pack (f_sign x \<and> f_sign y) 0
        else f_pack (s < 0)
          (if 0 \<le> e then round_mag (nat \<bar>s\<bar> * 2 ^ nat e) 1 else round_mag (nat \<bar>s\<bar>) (2 ^ nat (- e))))"

text \<open>\<open>n/q\<close> as a double, and a double cut to an integer.\<close>

definition f_of_quot :: "int \<Rightarrow> nat \<Rightarrow> float64" where
  "f_of_quot n q = f_pack (n < 0) (round_mag (nat \<bar>n\<bar>) q)"

definition f_trunc :: "float64 \<Rightarrow> int" where
  "f_trunc x = (case f_parts x of (m, e) \<Rightarrow>
     (if f_sign x then - 1 else 1) * int (if 0 \<le> e then m * 2 ^ nat e else m div 2 ^ nat (- e)))"

text \<open>\<open>int64(d.Seconds())\<close>: whole seconds and the fraction, added as doubles and cut.\<close>

definition go_quot :: "int \<Rightarrow> int \<Rightarrow> int" where
  "go_quot a b = (if a < 0 then - ((- a) div b) else a div b)"

definition to_seconds :: "int \<Rightarrow> int" where
  "to_seconds d =
     (let sec = go_quot d (10 ^ 9); nsec = d - sec * 10 ^ 9
      in f_trunc (f_add (f_of_quot sec 1) (f_of_quot nsec (10 ^ 9))))"

section \<open>ParseFloat\<close>

definition hex_val :: "char \<Rightarrow> nat option" where
  "hex_val c =
     (let n = of_char (lower_char c) :: nat in
      if is_digit c then Some (digit_val c)
      else if 97 \<le> n \<and> n \<le> 102 then Some (n - 87) else None)"

definition digit_in :: "bool \<Rightarrow> char \<Rightarrow> nat option" where
  "digit_in hex c = (if hex then hex_val c else if is_digit c then Some (digit_val c) else None)"

text \<open>The digits in front of the exponent: were there any, their number, how many
  stand behind the point, and the rest.\<close>

fun float_digits :: "bool \<Rightarrow> bool \<Rightarrow> bool \<Rightarrow> nat \<Rightarrow> nat \<Rightarrow> string \<Rightarrow> bool \<times> nat \<times> nat \<times> string" where
  "float_digits hex sawdot sawdigits mant fracs [] = (sawdigits, mant, fracs, [])"
| "float_digits hex sawdot sawdigits mant fracs (c # cs) =
     (if c = CHR ''_'' then float_digits hex sawdot sawdigits mant fracs cs
      else if c = CHR ''.'' then
        (if sawdot then (sawdigits, mant, fracs, c # cs) else float_digits hex True sawdigits mant fracs cs)
      else case digit_in hex c of
        Some v \<Rightarrow> float_digits hex sawdot True (mant * (if hex then 16 else 10) + v) (if sawdot then fracs + 1 else fracs) cs
      | None \<Rightarrow> (sawdigits, mant, fracs, c # cs))"

text \<open>The digits of the exponent; from five on they are read but not used.\<close>

fun exp_digits :: "nat \<Rightarrow> string \<Rightarrow> nat \<times> string" where
  "exp_digits n [] = (n, [])"
| "exp_digits n (c # cs) =
     (if c = CHR ''_'' then exp_digits n cs
      else if is_digit c then exp_digits (if n < 10000 then n * 10 + digit_val c else n) cs
      else (n, c # cs))"

definition float_exp :: "char \<Rightarrow> bool \<Rightarrow> string \<Rightarrow> (int \<times> string) option" where
  "float_exp marker required s =
     (case s of
        c # cs \<Rightarrow>
          if lower_char c = marker then
            (let neg = (cs \<noteq> [] \<and> hd cs = CHR ''-'');
                 ds = (if cs \<noteq> [] \<and> (hd cs = CHR ''+'' \<or> hd cs = CHR ''-'') then tl cs else cs)
             in if ds = [] \<or> \<not> is_digit (hd ds) then None
                else case exp_digits 0 ds of (n, rest) \<Rightarrow> Some (if neg then - int n else int n, rest))
          else if required then None else Some (0, s)
      | [] \<Rightarrow> if required then None else Some (0, s))"

text \<open>\<open>underscoreOK\<close>: underscores stand between digits, or behind the base prefix.
  The state is the class of the last character.\<close>

datatype last_saw = SawStart | SawDigit | SawUnderscore | SawOther

fun underscore_loop :: "bool \<Rightarrow> last_saw \<Rightarrow> string \<Rightarrow> bool" where
  "underscore_loop hex saw [] = (saw \<noteq> SawUnderscore)"
| "underscore_loop hex saw (c # cs) =
     (if digit_in hex c \<noteq> None then underscore_loop hex SawDigit cs
      else if c = CHR ''_'' then saw = SawDigit \<and> underscore_loop hex SawUnderscore cs
      else saw \<noteq> SawUnderscore \<and> underscore_loop hex SawOther cs)"

definition hex_prefix :: "string \<Rightarrow> bool" where
  "hex_prefix s \<longleftrightarrow> 2 \<le> length s \<and> s ! 0 = CHR ''0'' \<and> lower_char (s ! 1) = CHR ''x''"

definition unsigned_part :: "string \<Rightarrow> string" where
  "unsigned_part s = (if s \<noteq> [] \<and> (hd s = CHR ''+'' \<or> hd s = CHR ''-'') then tl s else s)"

definition underscoreOK :: "string \<Rightarrow> bool" where
  "underscoreOK s =
     (let t = unsigned_part s; other = 2 \<le> length t \<and> t ! 0 = CHR ''0'' \<and> lower_char (t ! 1) \<in> {CHR ''b'', CHR ''o''}
      in if hex_prefix t then underscore_loop True SawDigit (drop 2 t)
         else if other then underscore_loop False SawDigit (drop 2 t)
         else underscore_loop False SawStart t)"

definition readFloat :: "string \<Rightarrow> float64 option" where
  "readFloat s =
     (let neg = (s \<noteq> [] \<and> hd s = CHR ''-'');
          t = unsigned_part s;
          hex = (hex_prefix t \<and> 2 < length t)
      in case float_digits hex False False 0 0 (if hex then drop 2 t else t) of
           (sawdigits, mant, fracs, rest) \<Rightarrow>
             if \<not> sawdigits then None
             else case float_exp (if hex then CHR ''p'' else CHR ''e'') hex rest of
               None \<Rightarrow> None
             | Some (ex, rest) \<Rightarrow>
                 if rest \<noteq> [] \<or> CHR ''_'' \<in> set s \<and> \<not> underscoreOK s then None
                 else let base = (if hex then 2 else 10 :: nat);
                          ex = ex - int (if hex then 4 * fracs else fracs);
                          mag = (if 0 \<le> ex then round_mag (mant * base ^ nat ex) 1
                                 else round_mag mant (base ^ nat (- ex)))
                      in if mag = inf_mag then None else Some (f_pack neg mag))"

definition ParseFloat :: "string \<Rightarrow> float64 option" where
  "ParseFloat s =
     (let t = ToLower s in
      if t \<in> {''inf'', ''+inf'', ''infinity'', ''+infinity''} then Some f_inf
      else if t \<in> {''-inf'', ''-infinity''} then Some f_neg_inf
      else if t = ''nan'' then Some f_quiet_nan
      else readFloat s)"

text \<open>The only text that parses to a NaN is \<open>nan\<close>.\<close>

lemma readFloat_not_nan: "readFloat s = Some x \<Longrightarrow> \<not> f_nan x"
  by (auto simp: readFloat_def Let_def f_pack_not_nan round_mag_le split: prod.splits option.splits if_splits)

lemma ParseFloat_nan: "ParseFloat s = Some x \<Longrightarrow> f_nan x \<longleftrightarrow> ToLower s = ''nan''"
proof -
  assume p: "ParseFloat s = Some x"
  have "\<not> f_nan f_inf" "\<not> f_nan f_neg_inf" "f_nan f_quiet_nan"
    by (simp_all add: f_nan_def f_mag_def f_inf_def f_neg_inf_def f_quiet_nan_def)
  with p readFloat_not_nan[of s x] show ?thesis
    by (auto simp: ParseFloat_def Let_def split: if_splits)
qed

section \<open>FormatFloat\<close>

text \<open>
  The number and the bounds of its rounding interval, times a common denominator:
  (lower, value, upper, denominator, whether the bounds belong to the interval).
\<close>

definition interval_of :: "nat \<Rightarrow> int \<Rightarrow> nat \<times> nat \<times> nat \<times> nat \<times> bool" where
  "interval_of m e =
     (let s = (if 2 \<le> e then 2 ^ nat (e - 2) else 1); den = (if 2 \<le> e then 1 else 2 ^ nat (2 - e));
          lower = (if 2 ^ 52 < m \<or> e = - 1074 then 4 * m - 2 else 4 * m - 1)
      in (lower * s, 4 * m * s, (4 * m + 2) * s, den, even m))"

text \<open>The exponent of the first digit of \<open>n/den\<close>.\<close>

fun first_below :: "nat \<Rightarrow> nat \<Rightarrow> nat \<Rightarrow> nat \<Rightarrow> nat" where
  "first_below 0 n den j = j"
| "first_below (Suc fuel) n den j = (if den \<le> n * 10 ^ j then j else first_below fuel n den (Suc j))"

definition first_digit :: "nat \<Rightarrow> nat \<Rightarrow> int" where
  "first_digit n den =
     (if den \<le> n then int (length (digits_of (n div den))) - 1 else - int (first_below 400 n den 1))"

text \<open>
  One digit after the other, until the number cut at this digit, or rounded up there,
  lies in the interval. \<open>weighed k n den\<close> is \<open>n/den\<close> in units of \<open>10^k\<close>.
\<close>

definition weighed :: "int \<Rightarrow> nat \<Rightarrow> nat \<Rightarrow> nat \<times> nat" where
  "weighed k n den = (if 0 \<le> k then (n, den * 10 ^ nat k) else (n * 10 ^ nat (- k), den))"

fun shortest_loop :: "nat \<Rightarrow> nat \<times> nat \<times> nat \<times> nat \<times> bool \<Rightarrow> int \<Rightarrow> nat \<times> int" where
  "shortest_loop 0 iv k = (0, k)"
| "shortest_loop (Suc fuel) iv k =
     (let (lower, val, upper, den, incl) = iv; (v, d) = weighed k val den; l = fst (weighed k lower den); u = fst (weighed k upper den);
          q = v div d; r = v mod d;
          okdown = (l < q * d \<or> incl \<and> l = q * d);
          okup = ((q + 1) * d < u \<or> incl \<and> (q + 1) * d = u)
      in if okdown \<and> okup then (if d < 2 * r \<or> d = 2 * r \<and> odd q then q + 1 else q, k)
         else if okdown then (q, k)
         else if okup then (q + 1, k)
         else shortest_loop fuel iv (k - 1))"

text \<open>The fuel: a cut at \<open>10^k\<close> is in the interval once \<open>10^k\<close> is no more than \<open>2^-1076\<close>,
  which \<open>k = -324\<close> gives, and the first digit is at \<open>10^308\<close> or below.\<close>

definition shortest :: "nat \<Rightarrow> int \<Rightarrow> nat \<times> int" where
  "shortest m e =
     (let iv = interval_of m e in
      case iv of (lower, val, upper, den, incl) \<Rightarrow> shortest_loop 700 iv (first_digit upper den))"

fun strip_zeros :: "nat \<Rightarrow> nat \<Rightarrow> nat \<times> nat" where
  "strip_zeros n 0 = (n, 0)"
| "strip_zeros n (Suc k) = (if n mod 10 = 0 then strip_zeros (n div 10) k else (n, Suc k))"

definition fixed_text :: "nat \<Rightarrow> int \<Rightarrow> string" where
  "fixed_text n k =
     (if 0 \<le> k then digits_of (n * 10 ^ nat k)
      else case strip_zeros n (nat (- k)) of (n, k) \<Rightarrow>
        if k = 0 then digits_of n
        else let f = digits_of (n mod 10 ^ k) in
          digits_of (n div 10 ^ k) @ ''.'' @ replicate (k - length f) CHR ''0'' @ f)"

definition FormatFloat :: "float64 \<Rightarrow> string" where
  "FormatFloat x =
     (if f_nan x then ''NaN''
      else if f_infinite x then (if f_sign x then ''-Inf'' else ''+Inf'')
      else (if f_sign x then ''-'' else []) @
        (case f_parts x of (m, e) \<Rightarrow>
           if m = 0 then ''0'' else case shortest m e of (n, k) \<Rightarrow> fixed_text n k))"

end
