(* ===== verification/Cmd_String.thy ===== *)
theory Cmd_String
  imports Cmd_Base Go_Float_Text
begin

text \<open>
  The string commands (commands/string.go): one definition per handler, with
  the loops and the string operations they use. Cmd_String_Correct has what they do
  to the abstract database.
\<close>

section \<open>SET\<close>

record set_opts =
  soExpiry :: int
  soHasExpiry :: bool
  soNX :: bool
  soXX :: bool

definition badExpireErr :: "string \<Rightarrow> resp_value" where
  "badExpireErr cmd = errResp (''ERR invalid expire time in '' @ [quote] @ cmd @ [quote] @ '' command'')"

definition set_option_time :: "env \<Rightarrow> string \<Rightarrow> int \<Rightarrow> int option" where
  "set_option_time e opt n =
     (if opt = ''EX'' then Some (now e + Seconds n)
      else if opt = ''PX'' then Some (now e + Milliseconds n)
      else if opt = ''EXAT'' then Some (time_Unix n)
      else if opt = ''PXAT'' then Some (time_UnixMilli n)
      else None)"

text \<open>The loop over the options of \<open>SET\<close>.\<close>

fun set_options :: "env \<Rightarrow> string list \<Rightarrow> set_opts \<Rightarrow> resp_value + set_opts" where
  "set_options e [] o1 = Inr o1"
| "set_options e (a # rest) o1 =
     (let opt = ToUpper a in
      if opt \<in> {''EX'', ''PX'', ''EXAT'', ''PXAT''} then
        (case rest of
           [] \<Rightarrow> Inl syntaxErr
         | v # rest' \<Rightarrow>
             (case parsed (ParseInt v) of
                None \<Rightarrow> Inl (badExpireErr ''set'')
              | Some n \<Rightarrow>
                  if n \<le> 0 then Inl (badExpireErr ''set'')
                  else set_options e rest'
                    (o1\<lparr>soExpiry := the (set_option_time e opt n), soHasExpiry := True\<rparr>)))
      else if opt = ''NX'' then set_options e rest (o1\<lparr>soNX := True\<rparr>)
      else if opt = ''XX'' then set_options e rest (o1\<lparr>soXX := True\<rparr>)
      else if opt = ''KEEPTTL'' then set_options e rest o1
      else Inl syntaxErr)"

definition no_opts :: set_opts where
  "no_opts = \<lparr>soExpiry = 0, soHasExpiry = False, soNX = False, soXX = False\<rparr>"

definition string_object :: "string \<Rightarrow> object" where
  "string_object s = new_object TypeString (VStr s)"

text \<open>A look at the key that the code makes for \<open>NX\<close> and \<open>XX\<close>.\<close>

definition present :: "env \<Rightarrow> string \<Rightarrow> db \<Rightarrow> bool \<times> db" where
  "present e key d = (case db_Get e key d of (r, d) \<Rightarrow> (r \<noteq> None, d))"

definition cmdSet :: handler where
  "cmdSet e args d =
     (if length args < 2 then Ret (wrongArgCount ''SET'', d)
      else let key = ArgStr args 0; val = ArgStr args 1 in
        case set_options e (drop 2 args) no_opts of
          Inl err \<Rightarrow> Ret (err, d)
        | Inr o1 \<Rightarrow>
            (case (if soNX o1 then present e key d else (False, d)) of (found, d) \<Rightarrow>
               if soNX o1 \<and> found then Ret (nullBulkResp, d)
               else case (if soXX o1 then present e key d else (True, d)) of (found, d) \<Rightarrow>
                 if soXX o1 \<and> \<not> found then Ret (nullBulkResp, d)
                 else Ret (okResp,
                   db_Set e key ((string_object val)\<lparr>oHasExpiry := soHasExpiry o1, oExpiry := soExpiry o1\<rparr>) d)))"

section \<open>GET, GETSET, GETDEL, STRLEN\<close>

definition cmdGet :: handler where
  "cmdGet e args d =
     (if length args \<noteq> 1 then Ret (wrongArgCount ''GET'', d)
      else case db_Get e (ArgStr args 0) d of
        (None, d) \<Rightarrow> Ret (nullBulkResp, d)
      | (Some o1, d) \<Rightarrow>
          if oType o1 \<noteq> TypeString then Ret (wrongTypeErr, d)
          else go_bind (assert_string (oValue o1)) (\<lambda>s. Ret (bulkResp s, d)))"

definition cmdGetSet :: handler where
  "cmdGetSet e args d =
     (if length args \<noteq> 2 then Ret (wrongArgCount ''GETSET'', d)
      else let key = ArgStr args 0 in
        case db_Get e key d of
          (None, d) \<Rightarrow> Ret (nullBulkResp, db_Set e key (string_object (ArgStr args 1)) d)
        | (Some o1, d) \<Rightarrow>
            if oType o1 \<noteq> TypeString then Ret (wrongTypeErr, d)
            else go_bind (assert_string (oValue o1)) (\<lambda>s.
              Ret (bulkResp s, db_Set e key (string_object (ArgStr args 1)) d)))"

definition cmdGetDel :: handler where
  "cmdGetDel e args d =
     (if length args \<noteq> 1 then Ret (wrongArgCount ''GETDEL'', d)
      else let key = ArgStr args 0 in
        case db_Get e key d of
          (None, d) \<Rightarrow> Ret (nullBulkResp, d)
        | (Some o1, d) \<Rightarrow>
            if oType o1 \<noteq> TypeString then Ret (wrongTypeErr, d)
            else go_bind (assert_string (oValue o1)) (\<lambda>s. Ret (bulkResp s, snd (db_Del [key] d))))"

definition cmdStrLen :: handler where
  "cmdStrLen e args d =
     (if length args \<noteq> 1 then Ret (wrongArgCount ''STRLEN'', d)
      else case db_Get e (ArgStr args 0) d of
        (None, d) \<Rightarrow> Ret (intResp 0, d)
      | (Some o1, d) \<Rightarrow>
          if oType o1 \<noteq> TypeString then Ret (wrongTypeErr, d)
          else go_bind (assert_string (oValue o1)) (\<lambda>s. Ret (intResp (int (length s)), d)))"

section \<open>Several keys\<close>

fun mset_loop :: "env \<Rightarrow> string list \<Rightarrow> db \<Rightarrow> db" where
  "mset_loop e (k # v # rest) d = mset_loop e rest (db_Set e k (string_object v) d)"
| "mset_loop e args d = d"

definition cmdMSet :: handler where
  "cmdMSet e args d =
     (if length args < 2 \<or> length args mod 2 \<noteq> 0 then Ret (wrongArgCount ''MSET'', d)
      else Ret (okResp, mset_loop e args d))"

text \<open>Is one of the keys there? The loop returns at the first.\<close>

fun msetnx_check :: "env \<Rightarrow> string list \<Rightarrow> db \<Rightarrow> bool \<times> db" where
  "msetnx_check e (k # v # rest) d =
     (case present e k d of (found, d) \<Rightarrow> if found then (True, d) else msetnx_check e rest d)"
| "msetnx_check e args d = (False, d)"

definition cmdMSetNX :: handler where
  "cmdMSetNX e args d =
     (if length args < 2 \<or> length args mod 2 \<noteq> 0 then Ret (wrongArgCount ''MSETNX'', d)
      else case msetnx_check e args d of (found, d) \<Rightarrow>
        if found then Ret (intResp 0, d) else Ret (intResp 1, mset_loop e args d))"

fun mget_loop :: "env \<Rightarrow> string list \<Rightarrow> db \<Rightarrow> (resp_value list \<times> db) go" where
  "mget_loop e [] d = Ret ([], d)"
| "mget_loop e (k # ks) d =
     (case db_Get e k d of (r, d) \<Rightarrow>
        go_bind (case r of
            None \<Rightarrow> Ret nullBulkResp
          | Some o1 \<Rightarrow> if oType o1 \<noteq> TypeString then Ret nullBulkResp
                      else go_bind (assert_string (oValue o1)) (\<lambda>s. Ret (bulkResp s)))
          (\<lambda>v. go_bind (mget_loop e ks d) (\<lambda>(vs, d). Ret (v # vs, d))))"

definition cmdMGet :: handler where
  "cmdMGet e args d =
     (if length args = 0 then Ret (wrongArgCount ''MGET'', d)
      else go_bind (mget_loop e args d) (\<lambda>(vs, d). Ret (arrayResp vs, d)))"

definition cmdSetNX :: handler where
  "cmdSetNX e args d =
     (if length args \<noteq> 2 then Ret (wrongArgCount ''SETNX'', d)
      else case present e (ArgStr args 0) d of (found, d) \<Rightarrow>
        if found then Ret (intResp 0, d)
        else Ret (intResp 1, db_Set e (ArgStr args 0) (string_object (ArgStr args 1)) d))"

definition cmdSetEX :: handler where
  "cmdSetEX e args d =
     (if length args \<noteq> 3 then Ret (wrongArgCount ''SETEX'', d)
      else case parsed (ParseInt (ArgStr args 1)) of
        None \<Rightarrow> Ret (badExpireErr ''setex'', d)
      | Some secs \<Rightarrow>
          if secs \<le> 0 then Ret (badExpireErr ''setex'', d)
          else Ret (okResp, db_Set e (ArgStr args 0)
            ((string_object (ArgStr args 2))\<lparr>oHasExpiry := True, oExpiry := now e + Seconds secs\<rparr>) d))"

definition cmdPSetEX :: handler where
  "cmdPSetEX e args d =
     (if length args \<noteq> 3 then Ret (wrongArgCount ''PSETEX'', d)
      else case parsed (ParseInt (ArgStr args 1)) of
        None \<Rightarrow> Ret (badExpireErr ''psetex'', d)
      | Some ms \<Rightarrow>
          if ms \<le> 0 then Ret (badExpireErr ''psetex'', d)
          else Ret (okResp, db_Set e (ArgStr args 0)
            ((string_object (ArgStr args 2))\<lparr>oHasExpiry := True, oExpiry := now e + Milliseconds ms\<rparr>) d))"

section \<open>Counters\<close>

text \<open>\<open>incrBy\<close>: the sum wraps around in 64 bits.\<close>

definition incrBy :: "int \<Rightarrow> handler" where
  "incrBy delta e args d =
     (let key = ArgStr args 0 in
      case db_Get e key d of (r, d) \<Rightarrow>
        go_bind (case r of
            None \<Rightarrow> Ret (Inr 0)
          | Some o1 \<Rightarrow>
              if oType o1 \<noteq> TypeString then Ret (Inl wrongTypeErr)
              else go_bind (assert_string (oValue o1)) (\<lambda>s.
                Ret (case parsed (ParseInt s) of None \<Rightarrow> Inl notIntErr | Some n \<Rightarrow> Inr n)))
          (\<lambda>cur. case cur of
             Inl err \<Rightarrow> Ret (err, d)
           | Inr cur \<Rightarrow>
               let cur = wrap64 (cur + delta) in
               Ret (intResp cur, db_Set e key (string_object (FormatInt cur)) d)))"

definition cmdIncr :: handler where "cmdIncr = incrBy 1"
definition cmdDecr :: handler where "cmdDecr = incrBy (- 1)"

definition cmdIncrBy :: handler where
  "cmdIncrBy e args d =
     (if length args \<noteq> 2 then Ret (wrongArgCount ''INCRBY'', d)
      else case parsed (ParseInt (ArgStr args 1)) of
        None \<Rightarrow> Ret (notIntErr, d) | Some by \<Rightarrow> incrBy by e args d)"

definition cmdDecrBy :: handler where
  "cmdDecrBy e args d =
     (if length args \<noteq> 2 then Ret (wrongArgCount ''DECRBY'', d)
      else case parsed (ParseInt (ArgStr args 1)) of
        None \<Rightarrow> Ret (notIntErr, d) | Some by \<Rightarrow> incrBy (wrap64 (- by)) e args d)"

definition notFloatErr :: resp_value where "notFloatErr = errResp ''ERR value is not a valid float''"

definition cmdIncrByFloat :: handler where
  "cmdIncrByFloat e args d =
     (if length args \<noteq> 2 then Ret (wrongArgCount ''INCRBYFLOAT'', d)
      else let key = ArgStr args 0 in
        case ParseFloat (ArgStr args 1) of
          None \<Rightarrow> Ret (notFloatErr, d)
        | Some delta \<Rightarrow>
            (case db_Get e key d of (r, d) \<Rightarrow>
               go_bind (case r of
                   None \<Rightarrow> Ret (Inr 0)
                 | Some o1 \<Rightarrow>
                     if oType o1 \<noteq> TypeString then Ret (Inl wrongTypeErr)
                     else go_bind (assert_string (oValue o1)) (\<lambda>s.
                       Ret (case ParseFloat s of None \<Rightarrow> Inl notFloatErr | Some x \<Rightarrow> Inr x)))
                 (\<lambda>cur. case cur of
                    Inl err \<Rightarrow> Ret (err, d)
                  | Inr cur \<Rightarrow>
                      let s = FormatFloat (f_add cur delta) in
                      Ret (bulkResp s, db_Set e key (string_object s) d))))"

section \<open>Parts of strings\<close>

text \<open>The string of a key for \<open>APPEND\<close> and \<open>SETRANGE\<close>, empty when there is none.\<close>

definition string_or_empty :: "object option \<Rightarrow> (resp_value + string) go" where
  "string_or_empty r =
     (case r of
        None \<Rightarrow> Ret (Inr [])
      | Some o1 \<Rightarrow>
          if oType o1 \<noteq> TypeString then Ret (Inl wrongTypeErr)
          else go_bind (assert_string (oValue o1)) (\<lambda>s. Ret (Inr s)))"

definition cmdAppend :: handler where
  "cmdAppend e args d =
     (if length args \<noteq> 2 then Ret (wrongArgCount ''APPEND'', d)
      else let key = ArgStr args 0 in
        case db_Get e key d of (r, d) \<Rightarrow>
          go_bind (string_or_empty r) (\<lambda>x. case x of
              Inl err \<Rightarrow> Ret (err, d)
            | Inr s \<Rightarrow>
                let newVal = s @ ArgStr args 1 in
                Ret (intResp (int (length newVal)), db_Set e key (string_object newVal) d)))"

definition substring :: "int \<Rightarrow> int \<Rightarrow> string \<Rightarrow> string" where
  "substring start stop s =
     (let l = int (length s);
          start = (if start < 0 then l + start else start);
          stop = (if stop < 0 then l + stop else stop);
          start = (if start < 0 then 0 else start);
          stop = (if l \<le> stop then l - 1 else stop)
      in if stop < start then [] else take (nat (stop + 1 - start)) (drop (nat start) s))"

definition cmdGetRange :: handler where
  "cmdGetRange e args d =
     (if length args \<noteq> 3 then Ret (wrongArgCount ''GETRANGE'', d)
      else case db_Get e (ArgStr args 0) d of
        (None, d) \<Rightarrow> Ret (bulkResp [], d)
      | (Some o1, d) \<Rightarrow>
          if oType o1 \<noteq> TypeString then Ret (wrongTypeErr, d)
          else go_bind (assert_string (oValue o1)) (\<lambda>s.
            case (parsed (Atoi (ArgStr args 1)), parsed (Atoi (ArgStr args 2))) of
              (Some start, Some stop) \<Rightarrow> Ret (bulkResp (substring start stop s), d)
            | _ \<Rightarrow> Ret (notIntErr, d)))"

text \<open>\<open>copy(b[offset:], repl)\<close>, a panic when \<open>offset\<close> lies behind the end of \<open>b\<close>.\<close>

definition copy_at :: "int \<Rightarrow> string \<Rightarrow> string \<Rightarrow> string go" where
  "copy_at offset repl b =
     (if offset < 0 \<or> int (length b) < offset then Panic ''slice bounds out of range''
      else let k = nat offset in
        Ret (take k b @ take (length b - k) repl @ drop (k + length repl) b))"

definition cmdSetRange :: handler where
  "cmdSetRange e args d =
     (if length args \<noteq> 3 then Ret (wrongArgCount ''SETRANGE'', d)
      else let key = ArgStr args 0; offset = parsed (Atoi (ArgStr args 1)); repl = ArgStr args 2 in
        if offset = None \<or> the offset < 0 then Ret (errResp ''ERR offset is not an integer or out of range'', d)
        else case db_Get e key d of (r, d) \<Rightarrow>
          go_bind (string_or_empty r) (\<lambda>x. case x of
              Inl err \<Rightarrow> Ret (err, d)
            | Inr s \<Rightarrow>
                let stop = wrap64 (the offset + int (length repl));
                    b = (if int (length s) < stop then s @ Sprintf_pad (stop - int (length s)) else s)
                in go_bind (copy_at (the offset) repl b) (\<lambda>s.
                  Ret (intResp (int (length s)), db_Set e key (string_object s) d))))"

end
