(* ===== verification/Cmd_String_Correct.thy ===== *)
theory Cmd_String_Correct
  imports Cmd_String
begin

text \<open>
  The string commands against the abstract database: they keep the invariant,
  their replies depend on the keyspace only, and they change exactly the keys
  they name.
\<close>

section \<open>Lookups of strings\<close>

lemma assert_string_eq:
  "obj_ok h o1 \<Longrightarrow> oType o1 = TypeString \<Longrightarrow>
    \<exists>s. oValue o1 = VStr s \<and> assert_string (oValue o1) = Ret s \<and> val_view h (oValue o1) = LStr s"
  using assert_string_ok[of h o1] by (auto simp: val_view_def)

lemma obj_ok_not_string:
  "obj_ok h o1 \<Longrightarrow> oType o1 \<noteq> TypeString \<Longrightarrow> \<nexists>s. val_view h (oValue o1) = LStr s"
  by (auto simp: obj_ok_def val_type_def val_view_def cell_type_iff split: val.splits option.splits
      elim: cell_view.elims)

text \<open>What a string command sees of a key.\<close>

definition string_of :: "(string \<rightharpoonup> lval \<times> int option) \<Rightarrow> string \<Rightarrow> (unit + string) option" where
  "string_of ks k = (case ks k of None \<Rightarrow> None | Some (LStr s, x) \<Rightarrow> Some (Inr s) | Some _ \<Rightarrow> Some (Inl ()))"

lemma string_lookup:
  assumes "wf_db d" and "db_Get e k d = (r, d')"
  shows "r = None \<and> string_of (keyspace e d) k = None
    \<or> (\<exists>o1. r = Some o1 \<and> oType o1 \<noteq> TypeString \<and> string_of (keyspace e d) k = Some (Inl ()))
    \<or> (\<exists>o1 s. r = Some o1 \<and> oType o1 = TypeString \<and> oValue o1 = VStr s \<and> assert_string (oValue o1) = Ret s
         \<and> string_of (keyspace e d) k = Some (Inr s))"
proof (cases r)
  case None
  with db_Get_facts[OF assms] show ?thesis by (simp add: string_of_def)
next
  case (Some o1)
  note f = db_Get_facts[OF assms]
  show ?thesis
  proof (cases "oType o1 = TypeString")
    case True
    then show ?thesis
      using f Some assert_string_eq[of "heap d'" o1] by (auto simp: string_of_def obj_view_def)
  next
    case False
    then show ?thesis
      using f Some obj_ok_not_string[of "heap d'" o1]
      by (auto simp: string_of_def obj_view_def split: lval.splits)
  qed
qed

lemma string_object_view [simp]: "obj_view e h (string_object s) = Some (LStr s, None)"
  by (simp add: string_object_def val_view_def)

lemma string_object_ok [simp]: "obj_ok h (string_object s)"
  by (simp add: string_object_def new_object_ok val_type_def)

lemma string_object_expiry [simp]:
  "obj_view e h ((string_object s)\<lparr>oHasExpiry := b, oExpiry := t\<rparr>) =
    (if b \<and> t < now e then None else Some (LStr s, if b then Some t else None))"
  "obj_ok h ((string_object s)\<lparr>oHasExpiry := b, oExpiry := t\<rparr>)"
  by (auto simp: string_object_def obj_view_def new_object_def IsExpired_def val_view_def obj_ok_def val_type_def)

section \<open>Readers\<close>

lemma cmdGet_spec:
  assumes "wf_db d"
  shows "returns (cmdGet e [k] d) (\<lambda>(r, d'). wf_db d' \<and> keyspace e d' = keyspace e d \<and>
    r = (case string_of (keyspace e d) k of None \<Rightarrow> nullBulkResp | Some (Inl _) \<Rightarrow> wrongTypeErr
         | Some (Inr s) \<Rightarrow> bulkResp s))"
proof (cases "db_Get e k d")
  case (Pair r d')
  from string_lookup[OF assms Pair] db_Get_facts[OF assms Pair] show ?thesis
    by (auto simp: cmdGet_def ArgStr_def Pair)
qed

lemma cmdStrLen_spec:
  assumes "wf_db d"
  shows "returns (cmdStrLen e [k] d) (\<lambda>(r, d'). wf_db d' \<and> keyspace e d' = keyspace e d \<and>
    r = (case string_of (keyspace e d) k of None \<Rightarrow> intResp 0 | Some (Inl _) \<Rightarrow> wrongTypeErr
         | Some (Inr s) \<Rightarrow> intResp (int (length s))))"
proof (cases "db_Get e k d")
  case (Pair r d')
  from string_lookup[OF assms Pair] db_Get_facts[OF assms Pair] show ?thesis
    by (auto simp: cmdStrLen_def ArgStr_def Pair)
qed

lemma substring_slice: "substring start stop s = seq_slice start stop s"
  by (auto simp: substring_def seq_slice_def Let_def algebra_simps)

lemma cmdGetRange_spec:
  assumes "wf_db d" and "parsed (Atoi a) = Some start" and "parsed (Atoi b) = Some stop"
  shows "returns (cmdGetRange e [k, a, b] d) (\<lambda>(r, d'). wf_db d' \<and> keyspace e d' = keyspace e d \<and>
    r = (case string_of (keyspace e d) k of None \<Rightarrow> bulkResp [] | Some (Inl _) \<Rightarrow> wrongTypeErr
         | Some (Inr s) \<Rightarrow> bulkResp (seq_slice start stop s)))"
proof (cases "db_Get e k d")
  case (Pair r d')
  from string_lookup[OF assms(1) Pair] db_Get_facts[OF assms(1) Pair] show ?thesis
    by (auto simp: cmdGetRange_def ArgStr_def Pair assms(2,3) substring_slice)
qed

lemma mget_loop_spec:
  "wf_db d \<Longrightarrow> returns (mget_loop e ks d) (\<lambda>(vs, d'). wf_db d' \<and> keyspace e d' = keyspace e d \<and>
    vs = map (\<lambda>k. case string_of (keyspace e d) k of Some (Inr s) \<Rightarrow> bulkResp s | _ \<Rightarrow> nullBulkResp) ks)"
proof (induction ks arbitrary: d)
  case (Cons k ks)
  obtain r d' where g: "db_Get e k d = (r, d')" by fastforce
  note f = db_Get_facts[OF Cons.prems g] and l = string_lookup[OF Cons.prems g]
  have IH: "returns (mget_loop e ks d') (\<lambda>(vs, d''). wf_db d'' \<and> keyspace e d'' = keyspace e d \<and>
    vs = map (\<lambda>k. case string_of (keyspace e d) k of Some (Inr s) \<Rightarrow> bulkResp s | _ \<Rightarrow> nullBulkResp) ks)"
    using Cons.IH[of d'] f by simp
  show ?case
    using l by (elim disjE exE conjE) (auto simp: g intro!: returns_mono[OF IH])
qed simp

section \<open>Writers\<close>

lemma cmdSet_plain_spec:
  "wf_db d \<Longrightarrow> cmdSet e [k, v] d = Ret (okResp, db_Set e k (string_object v) d)
    \<and> wf_db (db_Set e k (string_object v) d)
    \<and> keyspace e (db_Set e k (string_object v) d) = (keyspace e d)(k \<mapsto> (LStr v, None))"
proof -
  assume "wf_db d"
  moreover have "(string_object v)\<lparr>oHasExpiry := False, oExpiry := 0\<rparr> = string_object v"
    by (simp add: string_object_def new_object_def)
  ultimately show ?thesis
    by (simp add: cmdSet_def ArgStr_def no_opts_def db_Set_wf db_Set_keyspace)
qed

lemma present_facts:
  "wf_db d \<Longrightarrow> present e k d = (b, d') \<Longrightarrow>
    wf_db d' \<and> keyspace e d' = keyspace e d \<and> b = (keyspace e d k \<noteq> None)"
  using db_Get_facts[of d e k] by (auto simp: present_def split: prod.splits)

text \<open>\<open>SET\<close> with options that parse: \<open>NX\<close> and \<open>XX\<close> guard the write, the expiry is
  set or cleared.\<close>

lemma cmdSet_spec:
  assumes "wf_db d" and "set_options e opts no_opts = Inr o1"
  shows "returns (cmdSet e (k # v # opts) d) (\<lambda>(r, d'). wf_db d' \<and>
    (if soNX o1 \<and> keyspace e d k \<noteq> None \<or> soXX o1 \<and> keyspace e d k = None
     then r = nullBulkResp \<and> keyspace e d' = keyspace e d
     else r = okResp \<and> keyspace e d' = (keyspace e d)(k :=
       if soHasExpiry o1 \<and> soExpiry o1 < now e then None
       else Some (LStr v, if soHasExpiry o1 then Some (soExpiry o1) else None))))"
proof -
  obtain b d1 where p1: "(if soNX o1 then present e k d else (False, d)) = (b, d1)" by fastforce
  then have f1: "wf_db d1" "keyspace e d1 = keyspace e d" "soNX o1 \<Longrightarrow> b = (keyspace e d k \<noteq> None)"
    using present_facts[of d e k] assms(1) by (auto split: if_splits)
  obtain b' d2 where p2: "(if soXX o1 then present e k d1 else (True, d1)) = (b', d2)" by fastforce
  then have f2: "wf_db d2" "keyspace e d2 = keyspace e d" "soXX o1 \<Longrightarrow> b' = (keyspace e d k \<noteq> None)"
    using present_facts[of d1 e k] f1 by (auto split: if_splits)
  show ?thesis
    using f1 f2 by (auto simp: cmdSet_def ArgStr_def assms(2) p1 p2 db_Set_wf db_Set_keyspace)
qed

lemma incrBy_spec:
  assumes "wf_db d"
  shows "returns (incrBy delta e (k # rest) d) (\<lambda>(r, d'). wf_db d' \<and>
    (case string_of (keyspace e d) k of
       Some (Inl _) \<Rightarrow> r = wrongTypeErr \<and> keyspace e d' = keyspace e d
     | None \<Rightarrow> r = intResp (wrap64 delta) \<and> keyspace e d' = (keyspace e d)(k \<mapsto> (LStr (FormatInt (wrap64 delta)), None))
     | Some (Inr s) \<Rightarrow>
         (case parsed (ParseInt s) of
            None \<Rightarrow> r = notIntErr \<and> keyspace e d' = keyspace e d
          | Some n \<Rightarrow> r = intResp (wrap64 (n + delta)) \<and>
              keyspace e d' = (keyspace e d)(k \<mapsto> (LStr (FormatInt (wrap64 (n + delta))), None)))))"
proof (cases "db_Get e k d")
  case (Pair r d')
  from string_lookup[OF assms Pair] db_Get_facts[OF assms Pair] show ?thesis
    by (auto simp: incrBy_def ArgStr_def Pair Let_def db_Set_wf db_Set_keyspace split: option.split)
qed

lemma cmdAppend_spec:
  assumes "wf_db d"
  shows "returns (cmdAppend e [k, v] d) (\<lambda>(r, d'). wf_db d' \<and>
    (case string_of (keyspace e d) k of
       Some (Inl _) \<Rightarrow> r = wrongTypeErr \<and> keyspace e d' = keyspace e d
     | x \<Rightarrow> let s = (case x of Some (Inr s) \<Rightarrow> s | _ \<Rightarrow> []) @ v in
         r = intResp (int (length s)) \<and> keyspace e d' = (keyspace e d)(k \<mapsto> (LStr s, None))))"
proof (cases "db_Get e k d")
  case (Pair r d')
  from string_lookup[OF assms Pair] db_Get_facts[OF assms Pair] show ?thesis
    by (auto simp: cmdAppend_def string_or_empty_def ArgStr_def Pair Let_def db_Set_wf db_Set_keyspace)
qed

lemma cmdSetNX_spec:
  assumes "wf_db d"
  shows "returns (cmdSetNX e [k, v] d) (\<lambda>(r, d'). wf_db d' \<and>
    (if keyspace e d k = None then r = intResp 1 \<and> keyspace e d' = (keyspace e d)(k \<mapsto> (LStr v, None))
     else r = intResp 0 \<and> keyspace e d' = keyspace e d))"
proof (cases "present e k d")
  case (Pair b d')
  from present_facts[OF assms Pair] show ?thesis
    by (auto simp: cmdSetNX_def ArgStr_def Pair db_Set_wf db_Set_keyspace)
qed

lemma cmdGetDel_spec:
  assumes "wf_db d"
  shows "returns (cmdGetDel e [k] d) (\<lambda>(r, d'). wf_db d' \<and>
    (case string_of (keyspace e d) k of
       None \<Rightarrow> r = nullBulkResp \<and> keyspace e d' = keyspace e d
     | Some (Inl _) \<Rightarrow> r = wrongTypeErr \<and> keyspace e d' = keyspace e d
     | Some (Inr s) \<Rightarrow> r = bulkResp s \<and> keyspace e d' = (keyspace e d)(k := None)))"
proof (cases "db_Get e k d")
  case (Pair r d')
  have "(keyspace e d') |` (- {k}) = (keyspace e d')(k := None)"
    by (auto simp: restrict_map_def)
  with string_lookup[OF assms Pair] db_Get_facts[OF assms Pair] show ?thesis
    by (auto simp: cmdGetDel_def ArgStr_def Pair db_Del_wf db_Del_keyspace simp del: db_Del.simps)
qed

text \<open>\<open>MSET\<close> is the writes from left to right; \<open>MSETNX\<close> is all of them or none.\<close>

fun pairs :: "string list \<Rightarrow> (string \<times> string) list" where
  "pairs (k # v # rest) = (k, v) # pairs rest"
| "pairs args = []"

definition write_pairs :: "(string \<times> string) list \<Rightarrow> (string \<rightharpoonup> lval \<times> int option) \<Rightarrow> string \<rightharpoonup> lval \<times> int option" where
  "write_pairs kvs ks = fold (\<lambda>(k, v) ks. ks(k \<mapsto> (LStr v, None))) kvs ks"

lemma mset_loop_spec:
  "wf_db d \<Longrightarrow> wf_db (mset_loop e args d)
    \<and> keyspace e (mset_loop e args d) = write_pairs (pairs args) (keyspace e d)"
proof (induction e args d rule: mset_loop.induct)
  case (1 e k v rest d)
  then show ?case by (simp add: db_Set_wf db_Set_keyspace write_pairs_def fun_upd_def)
qed (simp_all add: write_pairs_def)

lemma msetnx_check_spec:
  "wf_db d \<Longrightarrow> msetnx_check e args d = (b, d') \<Longrightarrow>
    wf_db d' \<and> keyspace e d' = keyspace e d \<and> b = (\<exists>k \<in> fst ` set (pairs args). keyspace e d k \<noteq> None)"
proof (induction e args d arbitrary: b d' rule: msetnx_check.induct)
  case (1 e k v rest d)
  obtain p d1 where p: "present e k d = (p, d1)" by fastforce
  note f = present_facts[OF "1.prems"(1) p]
  show ?case
  proof (cases p)
    case True
    with f p "1.prems" show ?thesis by auto
  next
    case False
    with 1(1)[OF p[symmetric] False] f p "1.prems"(2) show ?thesis by auto
  qed
qed simp_all

lemma cmdMSetNX_spec:
  assumes "wf_db d" and "2 \<le> length args" and "even (length args)"
  shows "returns (cmdMSetNX e args d) (\<lambda>(r, d'). wf_db d' \<and>
    (if \<exists>k \<in> fst ` set (pairs args). keyspace e d k \<noteq> None
     then r = intResp 0 \<and> keyspace e d' = keyspace e d
     else r = intResp 1 \<and> keyspace e d' = write_pairs (pairs args) (keyspace e d)))"
proof (cases "msetnx_check e args d")
  case (Pair b d')
  from msetnx_check_spec[OF assms(1) Pair] mset_loop_spec[of d' e args] assms(2,3) show ?thesis
    by (auto simp: cmdMSetNX_def Pair even_iff_mod_2_eq_zero not_less)
qed

text \<open>\<open>SETRANGE\<close> up to the widest padding \<open>fmt\<close> accepts.\<close>

definition overlay :: "nat \<Rightarrow> string \<Rightarrow> string \<Rightarrow> string" where
  "overlay k repl s = take k (s @ replicate (k - length s) CHR '' '') @ repl @ drop (k + length repl) s"

lemma copy_at_overlay:
  assumes "int k + int (length repl) - int (length s) \<le> 1000000" and "int64_range (int k + int (length repl))"
  shows "copy_at (int k) repl
      (if int (length s) < wrap64 (int k + int (length repl))
       then s @ Sprintf_pad (wrap64 (int k + int (length repl)) - int (length s)) else s) =
    (if k \<le> length s \<or> repl \<noteq> [] then Ret (overlay k repl s) else
       Ret (s @ replicate (k - length s) CHR '' ''))"
proof -
  have w: "wrap64 (int k + int (length repl)) = int (k + length repl)" using assms(2) by (simp add: wrap64_id)
  show ?thesis
  proof (cases "length s < k + length repl")
    case True
    then have "Sprintf_pad (int (k + length repl) - int (length s)) = replicate (k + length repl - length s) CHR '' ''"
      using assms(1) by (auto simp: Sprintf_pad_def nat_diff_distrib')
    with True w show ?thesis
      by (auto simp: copy_at_def overlay_def take_append drop_append min_def)
  next
    case False
    with w show ?thesis by (auto simp: copy_at_def overlay_def)
  qed
qed

section \<open>All of them keep the invariant\<close>

lemma guards_present:
  assumes "wf_db d" and "\<And>b d'. wf_db d' \<Longrightarrow> keyspace e d' = keyspace e d \<Longrightarrow> guards (f b d') Q"
  shows "guards (case_prod f (present e k d)) Q"
  using present_facts[OF assms(1)] assms(2) by (cases "present e k d") auto

lemma guards_assert_string:
  "obj_ok h o1 \<Longrightarrow> oType o1 = TypeString \<Longrightarrow> (\<And>s. Q s) \<Longrightarrow> guards (assert_string (oValue o1)) Q"
  using assert_string_eq[of h o1] by auto

lemma guards_string_or_empty:
  "(\<And>o1. r = Some o1 \<Longrightarrow> obj_ok h o1) \<Longrightarrow> (\<And>x. Q x) \<Longrightarrow> guards (string_or_empty r) Q"
  by (cases r) (auto simp: string_or_empty_def intro!: guards_assert_string)

lemma copy_at_guards: "(\<And>x. Q x) \<Longrightarrow> guards (copy_at k repl b) Q"
  by (simp add: copy_at_def Let_def conversion_panic_def)

lemma mget_loop_guards: "wf_db d \<Longrightarrow> guards (mget_loop e ks d) (\<lambda>p. wf_db (snd p))"
  using mget_loop_spec[of d e ks] by (auto simp: returns_iff)

lemma incrBy_keeps: "keeps (incrBy n)"
  by (rule keepsI) (auto simp: incrBy_def Let_def intro!: guards_get guards_assert_string db_Set_wf
      split: option.split)

lemma keeps_string_writers:
  "keeps cmdSet" "keeps cmdGetSet" "keeps cmdGetDel" "keeps cmdMSet" "keeps cmdMSetNX" "keeps cmdSetNX"
  "keeps cmdSetEX" "keeps cmdPSetEX"
proof -
  show "keeps cmdSet"
  proof (rule keepsI)
    fix e args d assume "wf_db d"
    then show "guards (cmdSet e args d) (\<lambda>p. wf_db (snd p))"
      by (auto simp: cmdSet_def Let_def intro!: guards_present db_Set_wf split: sum.split)
  qed
  show "keeps cmdGetSet" "keeps cmdGetDel"
    by (rule keepsI, auto simp: cmdGetSet_def cmdGetDel_def Let_def simp del: db_Del.simps
        intro!: guards_get guards_assert_string db_Set_wf db_Del_wf)+
  show "keeps cmdMSet" "keeps cmdMSetNX"
    by (rule keepsI, auto simp: cmdMSet_def cmdMSetNX_def mset_loop_spec dest: msetnx_check_spec split: prod.split)+
  show "keeps cmdSetNX"
    by (rule keepsI) (auto simp: cmdSetNX_def intro!: guards_present db_Set_wf)
  show "keeps cmdSetEX" "keeps cmdPSetEX"
    by (rule keepsI, auto simp: cmdSetEX_def cmdPSetEX_def db_Set_wf split: option.split)+
qed

lemma keeps_string_others:
  "keeps cmdGet" "keeps cmdMGet" "keeps cmdStrLen" "keeps cmdIncr" "keeps cmdDecr" "keeps cmdIncrBy"
  "keeps cmdDecrBy" "keeps cmdAppend" "keeps cmdGetRange" "keeps cmdSetRange"
proof -
  show "keeps cmdGet" "keeps cmdStrLen" "keeps cmdGetRange"
    by (rule keepsI, auto simp: cmdGet_def cmdStrLen_def cmdGetRange_def intro!: guards_get guards_assert_string
        split: option.split)+
  show "keeps cmdMGet"
    by (rule keepsI) (auto simp: cmdMGet_def intro!: guards_mono[OF mget_loop_guards])
  show "keeps cmdIncr" "keeps cmdDecr"
    by (simp_all add: cmdIncr_def cmdDecr_def incrBy_keeps)
  show "keeps cmdIncrBy" "keeps cmdDecrBy"
    using incrBy_keeps by (auto simp: keeps_def cmdIncrBy_def cmdDecrBy_def split: option.split)
  show "keeps cmdAppend"
    by (rule keepsI) (auto simp: cmdAppend_def Let_def intro!: guards_get guards_string_or_empty db_Set_wf
        split: sum.split)
  show "keeps cmdSetRange"
    by (rule keepsI) (auto simp: cmdSetRange_def Let_def intro!: guards_get guards_string_or_empty db_Set_wf
        copy_at_guards split: sum.split)
qed

lemma keeps_IncrByFloat: "keeps cmdIncrByFloat"
  by (rule keepsI) (auto simp: cmdIncrByFloat_def Let_def intro!: guards_get guards_assert_string db_Set_wf
      split: option.split sum.split)

lemma mget_loop_reads:
  "wf_db d \<Longrightarrow> guards (mget_loop e ks d) (\<lambda>p. wf_db (snd p) \<and> keyspace e (snd p) = keyspace e d)"
proof (induction ks arbitrary: d)
  case (Cons k ks)
  note IH = guards_mono[OF Cons.IH]
  show ?case using Cons.prems
    by (auto intro!: guards_get IH guards_assert_string split: option.split)
qed simp

lemma reads_string: "reads cmdGet" "reads cmdMGet" "reads cmdStrLen" "reads cmdGetRange"
proof -
  show "reads cmdGet" "reads cmdStrLen" "reads cmdGetRange"
    by (rule readsI, auto simp: cmdGet_def cmdStrLen_def cmdGetRange_def intro!: guards_get guards_assert_string
        split: option.split)+
  show "reads cmdMGet"
    by (rule readsI) (auto simp: cmdMGet_def intro!: guards_mono[OF mget_loop_reads])
qed

lemmas keeps_string = keeps_string_writers keeps_string_others keeps_IncrByFloat

end
