(* ===== verification/Command_Properties.thy ===== *)
theory Command_Properties
  imports Store_Properties Cmd_String_Correct
begin

text \<open>
  The properties of the commands, each with an example to which it applies.
\<close>

section \<open>Strings\<close>

text \<open>
  C29. \<open>SET\<close> with options that parse: \<open>NX\<close> and \<open>XX\<close> decide whether the key is written,
  and a write replaces the value and the expiry and touches no other key. This holds of
  \<open>KEEPTTL\<close> as well: the option is accepted and does nothing, so that a command with it is the
  command without it and the expiry of the key is lost. The comment at string.go:75 says that
  the existing expiry is kept and that this is handled below; no code does so.
\<close>

theorem set_command:
  assumes "wf_db d" and "set_options e opts no_opts = Inr o1"
  shows "returns (cmdSet e (k # v # opts) d) (\<lambda>(r, d'). wf_db d' \<and>
    (if soNX o1 \<and> keyspace e d k \<noteq> None \<or> soXX o1 \<and> keyspace e d k = None
     then r = nullBulkResp \<and> keyspace e d' = keyspace e d
     else r = okResp \<and> keyspace e d' = (keyspace e d)(k :=
       if soHasExpiry o1 \<and> soExpiry o1 < now e then None
       else Some (LStr v, if soHasExpiry o1 then Some (soExpiry o1) else None)))) \<and>
    (\<forall>w. ToUpper w = ''KEEPTTL'' \<longrightarrow> cmdSet e (k # v # w # opts) d = cmdSet e (k # v # opts) d)"
  using cmdSet_spec[OF assms] by (simp add: cmdSet_def ArgStr_def)

lemma sample_options:
  "set_options (plain_env 10) [''nx'', ''px'', ''2''] no_opts =
    Inr \<lparr>soExpiry = 2000010, soHasExpiry = True, soNX = True, soXX = False\<rparr>"
proof -
  have "ToUpper ''nx'' = ''NX''" "ToUpper ''px'' = ''PX''" "parsed (ParseInt ''2'') = Some 2"
    "Milliseconds 2 = 2000000"
    by code_simp+
  then show ?thesis by (simp add: no_opts_def set_option_time_def)
qed

theorem set_command_witness:
  "returns (cmdSet (plain_env 10) [''c'', ''9'', ''nx'', ''px'', ''2''] sample_db) (\<lambda>(r, d').
     r = okResp \<and> keyspace (plain_env 10) d' ''c'' = Some (LStr ''9'', Some 2000010))
   \<and> cmdSet (plain_env 10) [''c'', ''9'', ''keepttl'', ''nx'', ''px'', ''2''] sample_db
     = cmdSet (plain_env 10) [''c'', ''9'', ''nx'', ''px'', ''2''] sample_db"
proof -
  note p = set_command[OF sample_db_wf sample_options, of "''c''" "''9''"]
  have k: "ToUpper ''keepttl'' = ''KEEPTTL''" by code_simp
  show ?thesis
    by (rule conjI[OF returns_mono[OF conjunct1[OF p]] mp[OF spec[OF conjunct2[OF p]] k]]) (auto simp: sample_db_keyspace)
qed

text \<open>
  \<open>GET\<close> returns the string stored at a live key, a null for a missing or expired
  key and the type error for another type, and changes nothing that can be seen.
\<close>

theorem get_command:
  assumes "wf_db d"
  shows "returns (cmdGet e [k] d) (\<lambda>(r, d'). wf_db d' \<and> keyspace e d' = keyspace e d \<and>
    r = (case string_of (keyspace e d) k of None \<Rightarrow> nullBulkResp | Some (Inl _) \<Rightarrow> wrongTypeErr
         | Some (Inr s) \<Rightarrow> bulkResp s))"
  by (rule cmdGet_spec[OF assms])

theorem get_command_witness:
  "returns (cmdGet (plain_env 10) [''b''] sample_db) (\<lambda>(r, d'). r = bulkResp ''2'')
    \<and> returns (cmdGet (plain_env 10) [''c''] sample_db) (\<lambda>(r, d'). r = nullBulkResp)"
  using get_command[OF sample_db_wf, of "plain_env 10" "''b''"] get_command[OF sample_db_wf, of "plain_env 10" "''c''"]
  by (auto simp: sample_db_keyspace string_of_def elim!: returns_mono)

text \<open>
  C30. The counters: a missing key counts as 0, the new value is the sum, wrapped around
  in 64 bits, stored in decimal and returned; a value that is not a number, or not a
  string, is left alone. The expiry of the key is lost.
\<close>

theorem counter_command:
  assumes "wf_db d"
  shows "returns (incrBy delta e (k # rest) d) (\<lambda>(r, d'). wf_db d' \<and>
    (case string_of (keyspace e d) k of
       Some (Inl _) \<Rightarrow> r = wrongTypeErr \<and> keyspace e d' = keyspace e d
     | None \<Rightarrow> r = intResp (wrap64 delta) \<and> keyspace e d' = (keyspace e d)(k \<mapsto> (LStr (FormatInt (wrap64 delta)), None))
     | Some (Inr s) \<Rightarrow>
         (case parsed (ParseInt s) of
            None \<Rightarrow> r = notIntErr \<and> keyspace e d' = keyspace e d
          | Some n \<Rightarrow> r = intResp (wrap64 (n + delta)) \<and>
              keyspace e d' = (keyspace e d)(k \<mapsto> (LStr (FormatInt (wrap64 (n + delta))), None)))))"
  by (rule incrBy_spec[OF assms])

theorem counter_command_witness:
  "returns (incrBy 40 (plain_env 10) [''b''] sample_db) (\<lambda>(r, d'). r = intResp 42
     \<and> keyspace (plain_env 10) d' ''b'' = Some (LStr (FormatInt 42), None))"
proof -
  have "parsed (ParseInt ''2'') = Some 2"
    by (simp add: ParseInt_def ParseUint_def parsed_def is_digit_def digit_val_def max_uint64_def)
  then show ?thesis
    by (intro returns_mono[OF counter_command[OF sample_db_wf, of 40 "plain_env 10" "''b''" "[]"]])
      (auto simp: sample_db_keyspace string_of_def wrap64_def)
qed

text \<open>
  C31. \<open>MSETNX\<close> is atomic: it writes all of its pairs when none of the keys is there and
  otherwise none of them.
\<close>

theorem msetnx_atomic:
  assumes "wf_db d" and "2 \<le> length args" and "even (length args)"
  shows "returns (cmdMSetNX e args d) (\<lambda>(r, d'). wf_db d' \<and>
    (if \<exists>k \<in> fst ` set (pairs args). keyspace e d k \<noteq> None
     then r = intResp 0 \<and> keyspace e d' = keyspace e d
     else r = intResp 1 \<and> keyspace e d' = write_pairs (pairs args) (keyspace e d)))"
  by (rule cmdMSetNX_spec[OF assms])

theorem msetnx_atomic_witness:
  "returns (cmdMSetNX (plain_env 10) [''x'', ''1'', ''b'', ''2''] sample_db)
     (\<lambda>(r, d'). r = intResp 0 \<and> keyspace (plain_env 10) d' ''x'' = None)
   \<and> returns (cmdMSetNX (plain_env 10) [''x'', ''1'', ''c'', ''2''] sample_db)
     (\<lambda>(r, d'). r = intResp 1 \<and> keyspace (plain_env 10) d' ''x'' = Some (LStr ''1'', None))"
  using msetnx_atomic[OF sample_db_wf, of "[''x'', ''1'', ''b'', ''2'']" "plain_env 10"]
    msetnx_atomic[OF sample_db_wf, of "[''x'', ''1'', ''c'', ''2'']" "plain_env 10"]
  by (auto simp: sample_db_keyspace write_pairs_def elim!: returns_mono)

text \<open>
  \<open>GETRANGE\<close> returns the slice between two indices, negative ones counted from the
  end, both clamped to the string.
\<close>

theorem getrange_command:
  assumes "wf_db d" and "parsed (Atoi a) = Some start" and "parsed (Atoi b) = Some stop"
  shows "returns (cmdGetRange e [k, a, b] d) (\<lambda>(r, d'). wf_db d' \<and> keyspace e d' = keyspace e d \<and>
    r = (case string_of (keyspace e d) k of None \<Rightarrow> bulkResp [] | Some (Inl _) \<Rightarrow> wrongTypeErr
         | Some (Inr s) \<Rightarrow> bulkResp (seq_slice start stop s)))"
  by (rule cmdGetRange_spec[OF assms])

theorem getrange_command_witness:
  "returns (cmdGetRange (plain_env 0) [''k'', ''-3'', ''9''] (db_Set (plain_env 0) ''k'' (str_object ''hello'' None) newDB))
     (\<lambda>(r, d'). r = bulkResp ''llo'')"
proof -
  have p: "parsed (Atoi ''-3'') = Some (- 3)" "parsed (Atoi ''9'') = Some 9"
    by (simp_all add: Atoi_def ParseInt_def ParseUint_def parsed_def is_digit_def digit_val_def max_uint64_def)
  have wf: "wf_db (db_Set (plain_env 0) ''k'' (str_object ''hello'' None) newDB)"
    by (rule db_Set_wf) simp_all
  show ?thesis
    by (rule returns_mono[OF getrange_command[OF wf p, of "plain_env 0" "''k''"]])
      (auto simp: db_Set_keyspace string_of_def seq_slice_def)
qed

end
