(* ===== verification/Cmd_List.thy ===== *)
theory Cmd_List
  imports Cmd_Base
begin

text \<open>
  The list commands (commands/list.go): one definition per handler, then their
  effect on the abstract database.
\<close>

section \<open>Pushing\<close>

text \<open>The four push commands differ in the end they push to and in whether they make
  a list where there is none.\<close>

definition cmdLPush :: handler where
  "cmdLPush e args d =
     (if length args < 2 then Ret (wrongArgCount ''LPUSH'', d)
      else or_reply (getOrCreateList e (ArgStr args 0) d) (\<lambda>a d.
        let l = LPush (tl args) (list_at d a) in Ret (intResp (Len l), put_cell a (CList l) d)))"

definition cmdRPush :: handler where
  "cmdRPush e args d =
     (if length args < 2 then Ret (wrongArgCount ''RPUSH'', d)
      else or_reply (getOrCreateList e (ArgStr args 0) d) (\<lambda>a d.
        let l = RPush (tl args) (list_at d a) in Ret (intResp (Len l), put_cell a (CList l) d)))"

definition cmdLPushX :: handler where
  "cmdLPushX e args d =
     (if length args < 2 then Ret (wrongArgCount ''LPUSHX'', d)
      else or_reply (getList e (ArgStr args 0) d) (\<lambda>r d. case r of
          None \<Rightarrow> Ret (intResp 0, d)
        | Some a \<Rightarrow> let l = LPush (tl args) (list_at d a) in Ret (intResp (Len l), put_cell a (CList l) d)))"

definition cmdRPushX :: handler where
  "cmdRPushX e args d =
     (if length args < 2 then Ret (wrongArgCount ''RPUSHX'', d)
      else or_reply (getList e (ArgStr args 0) d) (\<lambda>r d. case r of
          None \<Rightarrow> Ret (intResp 0, d)
        | Some a \<Rightarrow> let l = RPush (tl args) (list_at d a) in Ret (intResp (Len l), put_cell a (CList l) d)))"

section \<open>Popping\<close>

text \<open>The optional count: none, an error, or a number that is not negative.\<close>

definition pop_count :: "string list \<Rightarrow> resp_value + int option" where
  "pop_count args =
     (if length args < 2 then Inr None
      else case parsed (Atoi (ArgStr args 1)) of
        None \<Rightarrow> Inl notIntErr
      | Some n \<Rightarrow> if n < 0 then Inl notIntErr else Inr (Some n))"

text \<open>The two ways to pop from the list behind pointer \<open>a\<close>; the slice for the replies
  is made with the capacity asked for. An empty list is deleted with its key.\<close>

definition pop_many :: "(llist \<Rightarrow> string option \<times> llist) \<Rightarrow> string \<Rightarrow> int \<Rightarrow> nat \<Rightarrow> db \<Rightarrow> (resp_value \<times> db) go" where
  "pop_many pop key cnt a d =
     go_bind (make_slice 8 cnt) (\<lambda>_.
       case pop_loop pop (nat cnt) (list_at d a) of (vs, l) \<Rightarrow>
         let d = drop_empty key (Len l = 0) (put_cell a (CList l) d) in
         Ret (if vs = [] then nullArrayResp else array_value (map bulkResp vs), d))"

definition pop_one :: "(llist \<Rightarrow> string option \<times> llist) \<Rightarrow> string \<Rightarrow> nat \<Rightarrow> db \<Rightarrow> (resp_value \<times> db) go" where
  "pop_one pop key a d =
     (case pop (list_at d a) of (v, l) \<Rightarrow>
        let d = drop_empty key (Len l = 0) (put_cell a (CList l) d) in
        Ret (case v of None \<Rightarrow> nullBulkResp | Some s \<Rightarrow> bulkResp s, d))"

definition cmdLPop :: handler where
  "cmdLPop e args d =
     (if length args < 1 then Ret (wrongArgCount ''LPOP'', d)
      else or_reply (getList e (ArgStr args 0) d) (\<lambda>r d. case r of
          None \<Rightarrow> Ret (nullBulkResp, d)
        | Some a \<Rightarrow>
            (case pop_count args of
               Inl err \<Rightarrow> Ret (err, d)
             | Inr None \<Rightarrow> pop_one LPop (ArgStr args 0) a d
             | Inr (Some n) \<Rightarrow> pop_many LPop (ArgStr args 0) n a d)))"

definition cmdRPop :: handler where
  "cmdRPop e args d =
     (if length args < 1 then Ret (wrongArgCount ''RPOP'', d)
      else or_reply (getList e (ArgStr args 0) d) (\<lambda>r d. case r of
          None \<Rightarrow> Ret (nullBulkResp, d)
        | Some a \<Rightarrow>
            (case pop_count args of
               Inl err \<Rightarrow> Ret (err, d)
             | Inr None \<Rightarrow> pop_one RPop (ArgStr args 0) a d
             | Inr (Some n) \<Rightarrow> pop_many RPop (ArgStr args 0) n a d)))"

section \<open>Reading\<close>

definition cmdLLen :: handler where
  "cmdLLen e args d =
     (if length args \<noteq> 1 then Ret (wrongArgCount ''LLEN'', d)
      else or_reply (getList e (ArgStr args 0) d) (\<lambda>r d. case r of
          None \<Rightarrow> Ret (intResp 0, d) | Some a \<Rightarrow> Ret (intResp (Len (list_at d a)), d)))"

definition cmdLRange :: handler where
  "cmdLRange e args d =
     (if length args \<noteq> 3 then Ret (wrongArgCount ''LRANGE'', d)
      else or_reply (getList e (ArgStr args 0) d) (\<lambda>r d. case r of
          None \<Rightarrow> Ret (array_value [], d)
        | Some a \<Rightarrow>
            (case (parsed (Atoi (ArgStr args 1)), parsed (Atoi (ArgStr args 2))) of
               (Some start, Some stop) \<Rightarrow> Ret (stringsToArray (Range start stop (list_at d a)), d)
             | _ \<Rightarrow> Ret (notIntErr, d))))"

definition cmdLIndex :: handler where
  "cmdLIndex e args d =
     (if length args \<noteq> 2 then Ret (wrongArgCount ''LINDEX'', d)
      else or_reply (getList e (ArgStr args 0) d) (\<lambda>r d. case r of
          None \<Rightarrow> Ret (nullBulkResp, d)
        | Some a \<Rightarrow>
            (case parsed (Atoi (ArgStr args 1)) of
               None \<Rightarrow> Ret (notIntErr, d)
             | Some idx \<Rightarrow> Ret (case Index idx (list_at d a) of None \<Rightarrow> nullBulkResp | Some v \<Rightarrow> bulkResp v, d))))"

section \<open>Writing in place\<close>

definition cmdLSet :: handler where
  "cmdLSet e args d =
     (if length args \<noteq> 3 then Ret (wrongArgCount ''LSET'', d)
      else or_reply (getList e (ArgStr args 0) d) (\<lambda>r d. case r of
          None \<Rightarrow> Ret (errResp ''ERR no such key'', d)
        | Some a \<Rightarrow>
            (case parsed (Atoi (ArgStr args 1)) of
               None \<Rightarrow> Ret (notIntErr, d)
             | Some idx \<Rightarrow>
                 (case Set_at idx (ArgStr args 2) (list_at d a) of (good, l) \<Rightarrow>
                    Ret (if good then okResp else errResp ''ERR index out of range'', put_cell a (CList l) d)))))"

definition cmdLInsert :: handler where
  "cmdLInsert e args d =
     (if length args \<noteq> 4 then Ret (wrongArgCount ''LINSERT'', d)
      else or_reply (getList e (ArgStr args 0) d) (\<lambda>r d. case r of
          None \<Rightarrow> Ret (intResp 0, d)
        | Some a \<Rightarrow>
            let place = ToUpper (ArgStr args 1); pivot = ArgStr args 2; val = ArgStr args 3 in
            if place = ''BEFORE'' then
              (case InsertBefore pivot val (list_at d a) of (n, l) \<Rightarrow> Ret (intResp n, put_cell a (CList l) d))
            else if place = ''AFTER'' then
              (case InsertAfter pivot val (list_at d a) of (n, l) \<Rightarrow> Ret (intResp n, put_cell a (CList l) d))
            else Ret (syntaxErr, d)))"

definition cmdLRem :: handler where
  "cmdLRem e args d =
     (if length args \<noteq> 3 then Ret (wrongArgCount ''LREM'', d)
      else or_reply (getList e (ArgStr args 0) d) (\<lambda>r d. case r of
          None \<Rightarrow> Ret (intResp 0, d)
        | Some a \<Rightarrow>
            (case parsed (Atoi (ArgStr args 1)) of
               None \<Rightarrow> Ret (notIntErr, d)
             | Some cnt \<Rightarrow>
                 (case Remove cnt (ArgStr args 2) (list_at d a) of (n, l) \<Rightarrow>
                    Ret (intResp n, drop_empty (ArgStr args 0) (Len l = 0) (put_cell a (CList l) d))))))"

definition cmdLTrim :: handler where
  "cmdLTrim e args d =
     (if length args \<noteq> 3 then Ret (wrongArgCount ''LTRIM'', d)
      else or_reply (getList e (ArgStr args 0) d) (\<lambda>r d. case r of
          None \<Rightarrow> Ret (okResp, d)
        | Some a \<Rightarrow>
            (case (parsed (Atoi (ArgStr args 1)), parsed (Atoi (ArgStr args 2))) of
               (Some start, Some stop) \<Rightarrow>
                 let l = Trim start stop (list_at d a) in
                 Ret (okResp, drop_empty (ArgStr args 0) (Len l = 0) (put_cell a (CList l) d))
             | _ \<Rightarrow> Ret (notIntErr, d))))"

section \<open>Moving between lists\<close>

text \<open>
  The value is taken out of the source before the destination is looked at: when the
  destination has another type, or the direction is unknown, it is lost.
\<close>

definition cmdRPopLPush :: handler where
  "cmdRPopLPush e args d =
     (if length args \<noteq> 2 then Ret (wrongArgCount ''RPOPLPUSH'', d)
      else or_reply (getList e (ArgStr args 0) d) (\<lambda>r d. case r of
          None \<Rightarrow> Ret (nullBulkResp, d)
        | Some a \<Rightarrow>
            (case RPop (list_at d a) of
               (None, l) \<Rightarrow> Ret (nullBulkResp, put_cell a (CList l) d)
             | (Some val, l) \<Rightarrow>
                 let d = drop_empty (ArgStr args 0) (Len l = 0) (put_cell a (CList l) d) in
                 or_reply (getOrCreateList e (ArgStr args 1) d) (\<lambda>b d.
                   Ret (bulkResp val, put_cell b (CList (LPush [val] (list_at d b))) d)))))"

definition cmdLMove :: handler where
  "cmdLMove e args d =
     (if length args \<noteq> 4 then Ret (wrongArgCount ''LMOVE'', d)
      else let srcDir = ToUpper (ArgStr args 2); dstDir = ToUpper (ArgStr args 3) in
        or_reply (getList e (ArgStr args 0) d) (\<lambda>r d. case r of
          None \<Rightarrow> Ret (nullBulkResp, d)
        | Some a \<Rightarrow>
            if srcDir \<noteq> ''LEFT'' \<and> srcDir \<noteq> ''RIGHT'' then Ret (syntaxErr, d)
            else (case (if srcDir = ''LEFT'' then LPop else RPop) (list_at d a) of
               (None, l) \<Rightarrow> Ret (nullBulkResp, put_cell a (CList l) d)
             | (Some val, l) \<Rightarrow>
                 let d = drop_empty (ArgStr args 0) (Len l = 0) (put_cell a (CList l) d) in
                 or_reply (getOrCreateList e (ArgStr args 1) d) (\<lambda>b d.
                   if dstDir = ''LEFT'' then
                     Ret (bulkResp val, put_cell b (CList (LPush [val] (list_at d b))) d)
                   else if dstDir = ''RIGHT'' then
                     Ret (bulkResp val, put_cell b (CList (RPush [val] (list_at d b))) d)
                   else Ret (syntaxErr, d)))))"

section \<open>They keep the invariant\<close>

lemma list_op_wf:
  "list_wf l \<Longrightarrow> list_wf (LPush vs l)" "list_wf l \<Longrightarrow> list_wf (RPush vs l)"
  "list_wf l \<Longrightarrow> list_wf (snd (LPop l))" "list_wf l \<Longrightarrow> list_wf (snd (RPop l))"
  "list_wf l \<Longrightarrow> list_wf (snd (pop_loop LPop n l))" "list_wf l \<Longrightarrow> list_wf (snd (pop_loop RPop n l))"
  "list_wf l \<Longrightarrow> list_wf (snd (Set_at idx v l))" "list_wf l \<Longrightarrow> list_wf (snd (InsertBefore p v l))"
  "list_wf l \<Longrightarrow> list_wf (snd (InsertAfter p v l))" "list_wf l \<Longrightarrow> list_wf (Trim start stop l)"
  by (simp_all add: LPush_wf RPush_wf list_deque.left.pop_view list_deque.right.pop_view Set_at_wf InsertBefore_wf
      InsertAfter_wf Trim_wf list_deque.left.pop_loop_view list_deque.right.pop_loop_view
      del: LPush.simps RPush.simps)

lemma Remove_list_wf: "list_wf l \<Longrightarrow> parsed (Atoi s) = Some n \<Longrightarrow> list_wf (snd (Remove n x l))"
  using Remove_wf[of l n x] Remove_min_int64[of x l] parsed_Atoi_range[of s n]
  by (cases "n = min_int64") (auto simp: int64_range_def)

lemmas list_puts = list_value.put_wf drop_empty_wf list_op_wf

lemma pop_guards:
  assumes "wf_db d" and "heap d a = Some (CList l)" and "list_wf l"
    and "pop = LPop \<or> pop = RPop"
  shows "guards (pop_many pop k n a d) (\<lambda>p. wf_db (snd p))"
    and "guards (pop_one pop k a d) (\<lambda>p. wf_db (snd p))"
proof -
  have at: "list_at d a = l" using assms(2) by (simp add: list_at_def)
  have w: "wf_db (drop_empty k (Len l' = 0) (put_cell a (CList l') d))" if "list_wf l'" for l'
    by (rule drop_empty_wf[OF list_value.put_wf[OF assms(1,2) that]])
  have "list_wf (snd (pop_loop pop m l))" for m using assms(4) list_op_wf(5,6)[OF assms(3)] by metis
  with w show "guards (pop_many pop k n a d) (\<lambda>p. wf_db (snd p))"
    by (auto simp: pop_many_def at Let_def split_beta intro!: make_slice_guards)
  have "list_wf (snd (pop l))" using assms(4) list_op_wf(3,4)[OF assms(3)] by metis
  with w show "guards (pop_one pop k a d) (\<lambda>p. wf_db (snd p))"
    by (auto simp: pop_one_def at Let_def split_beta)
qed

lemma reads_list: "reads cmdLLen" "reads cmdLRange" "reads cmdLIndex"
  by (rule readsI, auto simp: cmdLLen_def cmdLRange_def cmdLIndex_def intro!: getList_guards split: option.split)+

lemma keeps_push: "keeps cmdLPush" "keeps cmdRPush" "keeps cmdLPushX" "keeps cmdRPushX"
  by (rule keepsI, auto simp: cmdLPush_def cmdRPush_def cmdLPushX_def cmdRPushX_def Let_def
      simp del: LPush.simps RPush.simps
      intro!: getOrCreateList_guards getList_guards list_puts)+

lemma keeps_pop: "keeps cmdLPop" "keeps cmdRPop"
  by (rule keepsI, auto simp: cmdLPop_def cmdRPop_def intro!: getList_guards pop_guards
      split: sum.split option.split)+

lemma keeps_in_place: "keeps cmdLSet" "keeps cmdLInsert" "keeps cmdLRem" "keeps cmdLTrim"
  by (rule keepsI, auto simp: cmdLSet_def cmdLInsert_def cmdLRem_def cmdLTrim_def Let_def split_beta
      intro!: getList_guards list_puts Remove_list_wf split: option.split)+

lemma list_at_put [simp]: "list_at (put_cell a (CList l) d) a = l"
  by (simp add: list_at_def)

lemma take_guards:
  assumes "wf_db d" and "heap d a = Some (CList l)" and "list_wf (snd p)"
    and "\<And>val d. wf_db d \<Longrightarrow> guards (g val d) (\<lambda>p. wf_db (snd p))"
  shows "guards (case p of (None, l) \<Rightarrow> Ret (nullBulkResp, put_cell a (CList l) d)
      | (Some val, l) \<Rightarrow> let d = drop_empty k (Len l = 0) (put_cell a (CList l) d) in g val d) (\<lambda>p. wf_db (snd p))"
  using assms list_value.put_wf[OF assms(1,2,3)]
  by (cases p) (auto simp: drop_empty_wf Let_def split: option.split)

lemma push_guards:
  "wf_db d \<Longrightarrow> guards (or_reply (getOrCreateList e k d) (\<lambda>b d.
      Ret (r, put_cell b (CList (LPush [v] (list_at d b))) d))) (\<lambda>p. wf_db (snd p))"
  "wf_db d \<Longrightarrow> guards (or_reply (getOrCreateList e k d) (\<lambda>b d.
      if left then Ret (r, put_cell b (CList (LPush [v] (list_at d b))) d)
      else if right then Ret (r, put_cell b (CList (RPush [v] (list_at d b))) d) else Ret (r', d)))
    (\<lambda>p. wf_db (snd p))"
  by (auto simp del: LPush.simps RPush.simps intro!: getOrCreateList_guards list_puts)

lemma keeps_move: "keeps cmdRPopLPush" "keeps cmdLMove"
proof -
  show "keeps cmdRPopLPush"
  proof (rule keepsI)
    fix e args d assume d: "wf_db d"
    show "guards (cmdRPopLPush e args d) (\<lambda>p. wf_db (snd p))"
    proof (cases "length args = 2")
      case True
      then show ?thesis
        unfolding cmdRPopLPush_def guards_or_reply if_not_P[OF iffD2[OF not_not True]]
        using d by (intro getList_guards) (auto simp del: guards_or_reply LPush.simps intro!: take_guards push_guards list_op_wf)
    qed (simp add: cmdRPopLPush_def d)
  qed
  show "keeps cmdLMove"
  proof (rule keepsI)
    fix e args d assume d: "wf_db d"
    have two: "list_wf (snd ((if left then LPop else RPop) l))" if "list_wf l" for l left
      using list_op_wf(3,4)[OF that] by simp
    show "guards (cmdLMove e args d) (\<lambda>p. wf_db (snd p))"
    proof (cases "length args = 4")
      case True
      then show ?thesis
        unfolding cmdLMove_def Let_def[of "ToUpper _"] guards_or_reply if_not_P[OF iffD2[OF not_not True]]
        using d by (intro getList_guards) (simp_all add: take_guards push_guards two del: guards_or_reply)
    qed (simp add: cmdLMove_def d)
  qed
qed

lemmas keeps_list = reads_list[THEN reads_keeps] keeps_push keeps_pop keeps_in_place keeps_move

section \<open>Their effect on the abstract database\<close>

text \<open>What a list command sees of a key: its values, none when there is no such key,
  and nothing when the key has another type.\<close>

definition list_of :: "(string \<rightharpoonup> lval \<times> int option) \<Rightarrow> string \<Rightarrow> string list option" where
  "list_of ks k = (case ks k of None \<Rightarrow> Some [] | Some (LList xs, t) \<Rightarrow> Some xs | Some _ \<Rightarrow> None)"

text \<open>Storing a list, an empty one by deleting the key.\<close>

definition put_list :: "(string \<rightharpoonup> lval \<times> int option) \<Rightarrow> string \<Rightarrow> string list \<Rightarrow> string \<rightharpoonup> lval \<times> int option" where
  "put_list ks k xs = ks(k := if xs = [] then None else Some (LList xs, expiry_of ks k))"

interpretation lists: collection TypeList CList NewList list_wf list_at list_of put_list elems "[]" "\<lambda>l. Len l = 0"
  by unfold_locales (auto simp: list_of_def put_list_def Len_wf split: lval.split)

lemmas list_read = lists.read_content[folded getList_def]
lemmas list_modify = lists.modify_content[folded getList_def]
lemmas list_create_modify = lists.create_content[folded getOrCreateList_def]

text \<open>\<open>LPUSH\<close> and \<open>RPUSH\<close>.\<close>

lemma push_spec:
  assumes "wf_db d" and "alone d k" and "vs \<noteq> []"
  shows "returns (cmdLPush e (k # vs) d) (\<lambda>(r, d'). wf_db d' \<and>
      (case list_of (keyspace e d) k of
         None \<Rightarrow> r = wrongTypeErr \<and> keyspace e d' = keyspace e d
       | Some xs \<Rightarrow> r = intResp (int (length vs + length xs)) \<and> keyspace e d' = put_list (keyspace e d) k (rev vs @ xs)))"
    and "returns (cmdRPush e (k # vs) d) (\<lambda>(r, d'). wf_db d' \<and>
      (case list_of (keyspace e d) k of
         None \<Rightarrow> r = wrongTypeErr \<and> keyspace e d' = keyspace e d
       | Some xs \<Rightarrow> r = intResp (int (length xs + length vs)) \<and> keyspace e d' = put_list (keyspace e d) k (xs @ vs)))"
proof -
  have n: "\<not> length (k # vs) < 2" using assms(3) by (cases vs) auto
  show "returns (cmdLPush e (k # vs) d) (\<lambda>(r, d'). wf_db d' \<and>
      (case list_of (keyspace e d) k of
         None \<Rightarrow> r = wrongTypeErr \<and> keyspace e d' = keyspace e d
       | Some xs \<Rightarrow> r = intResp (int (length vs + length xs)) \<and> keyspace e d' = put_list (keyspace e d) k (rev vs @ xs)))"
    unfolding cmdLPush_def if_not_P[OF n] using assms(3)
    by (auto simp: ArgStr_def Let_def Len_wf LPush_wf simp del: LPush.simps intro!: list_create_modify[OF assms(1,2)])
  show "returns (cmdRPush e (k # vs) d) (\<lambda>(r, d'). wf_db d' \<and>
      (case list_of (keyspace e d) k of
         None \<Rightarrow> r = wrongTypeErr \<and> keyspace e d' = keyspace e d
       | Some xs \<Rightarrow> r = intResp (int (length xs + length vs)) \<and> keyspace e d' = put_list (keyspace e d) k (xs @ vs)))"
    unfolding cmdRPush_def if_not_P[OF n] using assms(3)
    by (auto simp: ArgStr_def Let_def Len_wf RPush_wf simp del: RPush.simps intro!: list_create_modify[OF assms(1,2)])
qed

text \<open>\<open>LPOP\<close> and \<open>RPOP\<close>, without and with a count.\<close>

lemma pop_one_spec:
  assumes "wf_db d" and "alone d k"
  shows "returns (cmdLPop e [k] d) (\<lambda>(r, d'). wf_db d' \<and>
      (case list_of (keyspace e d) k of
         None \<Rightarrow> r = wrongTypeErr \<and> keyspace e d' = keyspace e d
       | Some xs \<Rightarrow> r = (if xs = [] then nullBulkResp else bulkResp (hd xs))
           \<and> keyspace e d' = put_list (keyspace e d) k (tl xs)))"
    and "returns (cmdRPop e [k] d) (\<lambda>(r, d'). wf_db d' \<and>
      (case list_of (keyspace e d) k of
         None \<Rightarrow> r = wrongTypeErr \<and> keyspace e d' = keyspace e d
       | Some xs \<Rightarrow> r = (if xs = [] then nullBulkResp else bulkResp (last xs))
           \<and> keyspace e d' = put_list (keyspace e d) k (butlast xs)))"
proof -
  have none: "ks k = None \<Longrightarrow> put_list ks k [] = ks" for ks by (auto simp: put_list_def)
  show "returns (cmdLPop e [k] d) (\<lambda>(r, d'). wf_db d' \<and>
      (case list_of (keyspace e d) k of
         None \<Rightarrow> r = wrongTypeErr \<and> keyspace e d' = keyspace e d
       | Some xs \<Rightarrow> r = (if xs = [] then nullBulkResp else bulkResp (hd xs))
           \<and> keyspace e d' = put_list (keyspace e d) k (tl xs)))"
    using list_deque.left.pop_view
    by (auto simp: cmdLPop_def ArgStr_def pop_count_def pop_one_def Let_def split_beta none intro!: list_modify[OF assms])
  have right: "list_wf l \<Longrightarrow> list_wf (snd (RPop l)) \<and> elems (snd (RPop l)) = butlast (elems l)
      \<and> fst (RPop l) = (if elems l = [] then None else Some (last (elems l)))" for l
    using list_deque.right.pop_view[of l] by (auto simp: butlast_rev hd_rev simp flip: rev_swap) (metis butlast_rev rev_rev_ident)
  show "returns (cmdRPop e [k] d) (\<lambda>(r, d'). wf_db d' \<and>
      (case list_of (keyspace e d) k of
         None \<Rightarrow> r = wrongTypeErr \<and> keyspace e d' = keyspace e d
       | Some xs \<Rightarrow> r = (if xs = [] then nullBulkResp else bulkResp (last xs))
           \<and> keyspace e d' = put_list (keyspace e d) k (butlast xs)))"
    using right
    by (auto simp: cmdRPop_def ArgStr_def pop_count_def pop_one_def Let_def split_beta none intro!: list_modify[OF assms])
qed

lemma pop_many_spec:
  assumes "wf_db d" and "alone d k" and "parsed (Atoi s) = Some n" and "0 \<le> n" and "8 * n \<le> max_alloc"
  shows "returns (cmdLPop e [k, s] d) (\<lambda>(r, d'). wf_db d' \<and>
      (case list_of (keyspace e d) k of
         None \<Rightarrow> r = wrongTypeErr \<and> keyspace e d' = keyspace e d
       | Some xs \<Rightarrow> (let vs = take (nat n) xs in
           (if vs \<noteq> [] then r = array_value (map bulkResp vs) else r \<in> {nullArrayResp, nullBulkResp})
           \<and> keyspace e d' = put_list (keyspace e d) k (drop (nat n) xs))))"
proof -
  have none: "ks k = None \<Longrightarrow> put_list ks k [] = ks" for ks by (auto simp: put_list_def)
  have m: "make_slice 8 n = Ret ()" using assms(4,5) by (intro make_slice_Ret) simp_all
  show ?thesis
    using list_deque.left.pop_loop_view assms(4)
    by (auto simp: cmdLPop_def ArgStr_def pop_count_def assms(3) pop_many_def m Let_def split_beta none intro!: list_modify[OF assms(1,2)])
qed

text \<open>
  \<open>RPOPLPUSH\<close>: the last value of the source goes to the front of the destination,
  which can be the same list; a destination of another type swallows it.
\<close>

lemma rpoplpush_spec:
  assumes "wf_db d" and "alone d src" and "alone d dst"
  shows "returns (cmdRPopLPush e [src, dst] d) (\<lambda>(r, d'). wf_db d' \<and>
    (case list_of (keyspace e d) src of
       None \<Rightarrow> r = wrongTypeErr \<and> keyspace e d' = keyspace e d
     | Some xs \<Rightarrow>
         if xs = [] then r = nullBulkResp \<and> keyspace e d' = keyspace e d
         else let ks = put_list (keyspace e d) src (butlast xs) in
           (case list_of ks dst of
              None \<Rightarrow> r = wrongTypeErr \<and> keyspace e d' = ks
            | Some ys \<Rightarrow> r = bulkResp (last xs) \<and> keyspace e d' = put_list ks dst (last xs # ys))))"
proof -
  let ?Q = "\<lambda>(r, d'). wf_db d' \<and>
    (case list_of (keyspace e d) src of
       None \<Rightarrow> r = wrongTypeErr \<and> keyspace e d' = keyspace e d
     | Some xs \<Rightarrow>
         if xs = [] then r = nullBulkResp \<and> keyspace e d' = keyspace e d
         else let ks = put_list (keyspace e d) src (butlast xs) in
           (case list_of ks dst of
              None \<Rightarrow> r = wrongTypeErr \<and> keyspace e d' = ks
            | Some ys \<Rightarrow> r = bulkResp (last xs) \<and> keyspace e d' = put_list ks dst (last xs # ys)))"
  have push: "returns (or_reply (getOrCreateList e dst d1) (\<lambda>b d. Ret (bulkResp v, put_cell b (CList (LPush [v] (list_at d b))) d))) ?Q"
    if "wf_db d1" "alone d1 dst" "list_of (keyspace e d) src = Some (xs @ [v])" "keyspace e d1 = put_list (keyspace e d) src xs"
    for d1 xs v
    using that
    by (auto simp: Let_def LPush_wf simp del: LPush.simps intro!: list_create_modify[OF that(1,2)])
  have "returns (getList e src d) (\<lambda>(r, d). case r of Inl err \<Rightarrow> ?Q (err, d) | Inr r \<Rightarrow> returns (case r of
          None \<Rightarrow> Ret (nullBulkResp, d)
        | Some a \<Rightarrow>
            (case RPop (list_at d a) of
               (None, l) \<Rightarrow> Ret (nullBulkResp, put_cell a (CList l) d)
             | (Some val, l) \<Rightarrow>
                 let d = drop_empty src (Len l = 0) (put_cell a (CList l) d) in
                 or_reply (getOrCreateList e dst d) (\<lambda>b d.
                   Ret (bulkResp val, put_cell b (CList (LPush [val] (list_at d b))) d)))) ?Q)"
  proof (rule list_modify[OF assms(1,2)])
    fix d1 a l
    assume *: "wf_db d1" "keyspace e d1 = keyspace e d" "heap d1 a = Some (CList l)" "list_wf l" "list_at d1 a = l"
      "list_of (keyspace e d) src = Some (elems l)"
      "\<And>l'. list_wf l' \<Longrightarrow> keyspace e (drop_empty src (Len l' = 0) (put_cell a (CList l') d1)) = put_list (keyspace e d) src (elems l')
         \<and> wf_db (drop_empty src (Len l' = 0) (put_cell a (CList l') d1))"
      "\<And>k'. alone d k' \<Longrightarrow> alone d1 k'"
    show "case (Inr (Some a), d1) of (r, d) \<Rightarrow> (case r of Inl err \<Rightarrow> ?Q (err, d) | Inr r \<Rightarrow> returns (case r of
          None \<Rightarrow> Ret (nullBulkResp, d)
        | Some a \<Rightarrow>
            (case RPop (list_at d a) of
               (None, l) \<Rightarrow> Ret (nullBulkResp, put_cell a (CList l) d)
             | (Some val, l) \<Rightarrow>
                 let d = drop_empty src (Len l = 0) (put_cell a (CList l) d) in
                 or_reply (getOrCreateList e dst d) (\<lambda>b d.
                   Ret (bulkResp val, put_cell b (CList (LPush [val] (list_at d b))) d)))) ?Q)"
    proof (cases "elems l" rule: rev_cases)
      case Nil
      have "put_cell a (CList l) d1 = d1" using *(3) by (simp add: put_cell_def fun_upd_idem)
      with Nil * RPop_empty_wf[OF *(4) Nil] show ?thesis by simp
    next
      case (snoc xs v)
      obtain l' where l': "RPop l = (Some v, l')" "list_wf l'" "elems l' = xs"
        using RPop_wf[OF *(4) snoc] by (cases "RPop l") auto
      have "alone (drop_empty src (Len l' = 0) (put_cell a (CList l') d1)) dst"
        using *(8)[OF assms(3)] by (simp add: alone_drop)
      with push[of _ xs v] *(7)[OF l'(2)] l' *(5,6) snoc show ?thesis by (simp add: Let_def)
    qed
  qed simp_all
  moreover have "cmdRPopLPush e [src, dst] d = or_reply (getList e src d) (\<lambda>r d. case r of
          None \<Rightarrow> Ret (nullBulkResp, d)
        | Some a \<Rightarrow>
            (case RPop (list_at d a) of
               (None, l) \<Rightarrow> Ret (nullBulkResp, put_cell a (CList l) d)
             | (Some val, l) \<Rightarrow>
                 let d = drop_empty src (Len l = 0) (put_cell a (CList l) d) in
                 or_reply (getOrCreateList e dst d) (\<lambda>b d.
                   Ret (bulkResp val, put_cell b (CList (LPush [val] (list_at d b))) d))))"
  proof -
    have a: "ArgStr [src, dst] 0 = src" "ArgStr [src, dst] 1 = dst" by (simp_all add: ArgStr_def)
    show ?thesis unfolding cmdRPopLPush_def a by simp
  qed
  ultimately show ?thesis by (simp only: returns_or_reply)
qed

text \<open>Reading a list.\<close>

lemma list_readers_spec:
  assumes "wf_db d"
  shows "returns (cmdLLen e [k] d) (\<lambda>(r, d'). wf_db d' \<and> keyspace e d' = keyspace e d \<and>
      r = (case list_of (keyspace e d) k of None \<Rightarrow> wrongTypeErr | Some xs \<Rightarrow> intResp (int (length xs))))"
    and "parsed (Atoi a) = Some start \<Longrightarrow> parsed (Atoi b) = Some stop \<Longrightarrow>
      returns (cmdLRange e [k, a, b] d) (\<lambda>(r, d'). wf_db d' \<and> keyspace e d' = keyspace e d \<and>
        r = (case list_of (keyspace e d) k of None \<Rightarrow> wrongTypeErr
             | Some xs \<Rightarrow> stringsToArray (seq_slice start stop xs)))"
    and "parsed (Atoi a) = Some idx \<Longrightarrow>
      returns (cmdLIndex e [k, a] d) (\<lambda>(r, d'). wf_db d' \<and> keyspace e d' = keyspace e d \<and>
        r = (case list_of (keyspace e d) k of None \<Rightarrow> wrongTypeErr
             | Some xs \<Rightarrow> (case seq_at idx xs of None \<Rightarrow> nullBulkResp | Some v \<Rightarrow> bulkResp v)))"
  by (auto simp: cmdLLen_def cmdLRange_def cmdLIndex_def ArgStr_def Len_wf Range_wf Index_wf seq_slice_def seq_at_def
      stringsToArray_def intro!: list_read[OF assms])

text \<open>Changing a list in place.\<close>

lemma list_writers_spec:
  assumes "wf_db d" and "alone d k"
  shows "parsed (Atoi a) = Some start \<Longrightarrow> parsed (Atoi b) = Some stop \<Longrightarrow>
      returns (cmdLTrim e [k, a, b] d) (\<lambda>(r, d'). wf_db d' \<and>
        (case list_of (keyspace e d) k of None \<Rightarrow> r = wrongTypeErr \<and> keyspace e d' = keyspace e d
         | Some xs \<Rightarrow> r = okResp \<and> keyspace e d' = put_list (keyspace e d) k (seq_slice start stop xs)))"
    and "parsed (Atoi a) = Some cnt \<Longrightarrow> cnt \<noteq> min_int64 \<Longrightarrow>
      returns (cmdLRem e [k, a, x] d) (\<lambda>(r, d'). wf_db d' \<and>
        (case list_of (keyspace e d) k of None \<Rightarrow> r = wrongTypeErr \<and> keyspace e d' = keyspace e d
         | Some xs \<Rightarrow> r = intResp (int (length xs) - int (length (seq_remove cnt x xs)))
             \<and> keyspace e d' = put_list (keyspace e d) k (seq_remove cnt x xs)))"
proof -
  have none: "ks k = None \<Longrightarrow> put_list ks k [] = ks" for ks by (auto simp: put_list_def)
  show "parsed (Atoi a) = Some start \<Longrightarrow> parsed (Atoi b) = Some stop \<Longrightarrow>
      returns (cmdLTrim e [k, a, b] d) (\<lambda>(r, d'). wf_db d' \<and>
        (case list_of (keyspace e d) k of None \<Rightarrow> r = wrongTypeErr \<and> keyspace e d' = keyspace e d
         | Some xs \<Rightarrow> r = okResp \<and> keyspace e d' = put_list (keyspace e d) k (seq_slice start stop xs)))"
    by (auto simp: cmdLTrim_def ArgStr_def Let_def Trim_wf none seq_slice_def[of _ _ "[]"] intro!: list_modify[OF assms])
  show "parsed (Atoi a) = Some cnt \<Longrightarrow> cnt \<noteq> min_int64 \<Longrightarrow>
      returns (cmdLRem e [k, a, x] d) (\<lambda>(r, d'). wf_db d' \<and>
        (case list_of (keyspace e d) k of None \<Rightarrow> r = wrongTypeErr \<and> keyspace e d' = keyspace e d
         | Some xs \<Rightarrow> r = intResp (int (length xs) - int (length (seq_remove cnt x xs)))
             \<and> keyspace e d' = put_list (keyspace e d) k (seq_remove cnt x xs)))"
    if "parsed (Atoi a) = Some cnt" "cnt \<noteq> min_int64"
  proof -
    have c: "min_int64 < cnt" "cnt \<le> max_int64" using parsed_Atoi_range[OF that(1)] that(2) by (auto simp: int64_range_def)
    note r = Remove_wf[OF _ c, of _ x]
    show ?thesis
      using that(1) r by (auto simp: cmdLRem_def ArgStr_def Let_def split_beta none seq_remove_def[of _ _ "[]"] intro!: list_modify[OF assms])
  qed
qed

text \<open>\<open>LSET\<close> and \<open>LINSERT\<close> on a list that is not empty.\<close>

lemma seq_edit_not_Nil: "xs \<noteq> [] \<Longrightarrow> seq_set idx v xs \<noteq> []" "xs \<noteq> [] \<Longrightarrow> seq_insert_before p v xs \<noteq> []"
    "xs \<noteq> [] \<Longrightarrow> seq_insert_after p v xs \<noteq> []"
  by (simp_all add: seq_set_def seq_insert_before_def seq_insert_after_def Let_def)

lemma list_edit_spec:
  assumes "wf_db d" and "alone d k" and "list_of (keyspace e d) k = Some xs" and "xs \<noteq> []"
  shows "parsed (Atoi a) = Some idx \<Longrightarrow>
      returns (cmdLSet e [k, a, v] d) (\<lambda>(r, d'). wf_db d'
        \<and> r = (if seq_at idx xs = None then errResp ''ERR index out of range'' else okResp)
        \<and> keyspace e d' = put_list (keyspace e d) k (seq_set idx v xs))"
    and "ToUpper w \<in> {''BEFORE'', ''AFTER''} \<Longrightarrow>
      returns (cmdLInsert e [k, w, p, v] d) (\<lambda>(r, d'). wf_db d'
        \<and> r = intResp (if p \<in> set xs then int (length xs) + 1 else - 1)
        \<and> keyspace e d' = put_list (keyspace e d) k (if ToUpper w = ''BEFORE'' then seq_insert_before p v xs else seq_insert_after p v xs))"
proof -
  show "parsed (Atoi a) = Some idx \<Longrightarrow>
      returns (cmdLSet e [k, a, v] d) (\<lambda>(r, d'). wf_db d'
        \<and> r = (if seq_at idx xs = None then errResp ''ERR index out of range'' else okResp)
        \<and> keyspace e d' = put_list (keyspace e d) k (seq_set idx v xs))"
    using assms(3,4) Set_at_wf[of _ idx v] seq_edit_not_Nil(1)[OF assms(4), of idx v]
    by (auto simp: cmdLSet_def ArgStr_def split_beta intro!: list_modify[OF assms(1,2)])
  show "returns (cmdLInsert e [k, w, p, v] d) (\<lambda>(r, d'). wf_db d'
        \<and> r = intResp (if p \<in> set xs then int (length xs) + 1 else - 1)
        \<and> keyspace e d' = put_list (keyspace e d) k (if ToUpper w = ''BEFORE'' then seq_insert_before p v xs else seq_insert_after p v xs))"
    if w: "ToUpper w \<in> {''BEFORE'', ''AFTER''}"
  proof (cases "ToUpper w = ''BEFORE''")
    case True
    then show ?thesis
      using assms(3,4) InsertBefore_wf[of _ p v] seq_edit_not_Nil(2)[OF assms(4), of p v]
      by (auto simp: cmdLInsert_def ArgStr_def Let_def split_beta intro!: list_modify[OF assms(1,2)])
  next
    case False
    with w have "ToUpper w = ''AFTER''" by blast
    then show ?thesis
      using assms(3,4) InsertAfter_wf[of _ p v] seq_edit_not_Nil(3)[OF assms(4), of p v]
      by (auto simp: cmdLInsert_def ArgStr_def Let_def split_beta intro!: list_modify[OF assms(1,2)])
  qed
qed

end
