(* ===== verification/Cmd_Hash.thy ===== *)
theory Cmd_Hash
  imports Cmd_Base Go_Float_Text
begin

text \<open>
  The hash commands (commands/hash.go): one definition per handler, then their
  effect on the abstract database.
\<close>

section \<open>Writing fields\<close>

text \<open>The loop over pairs of field and value, counting the new fields.\<close>

fun hset_loop :: "string list \<Rightarrow> int \<Rightarrow> (string \<times> string) list \<Rightarrow> int \<times> (string \<times> string) list" where
  "hset_loop (f # v # rest) added h =
     hset_loop rest (if map_of h f = None then added + 1 else added) (AList.update f v h)"
| "hset_loop args added h = (added, h)"

definition cmdHSet :: handler where
  "cmdHSet e args d =
     (if length args < 3 \<or> length args mod 2 = 0 then Ret (wrongArgCount ''HSET'', d)
      else or_reply (getOrCreateHash e (ArgStr args 0) d) (\<lambda>a d.
        case hset_loop (tl args) 0 (hash_at d a) of (added, h) \<Rightarrow>
          Ret (intResp added, put_cell a (CHash h) d)))"

definition cmdHMSet :: handler where
  "cmdHMSet e args d =
     (if length args < 3 \<or> length args mod 2 = 0 then Ret (wrongArgCount ''HMSET'', d)
      else or_reply (getOrCreateHash e (ArgStr args 0) d) (\<lambda>a d.
        Ret (okResp, put_cell a (CHash (snd (hset_loop (tl args) 0 (hash_at d a)))) d)))"

definition cmdHSetNX :: handler where
  "cmdHSetNX e args d =
     (if length args \<noteq> 3 then Ret (wrongArgCount ''HSETNX'', d)
      else or_reply (getOrCreateHash e (ArgStr args 0) d) (\<lambda>a d.
        if map_of (hash_at d a) (ArgStr args 1) \<noteq> None then Ret (intResp 0, d)
        else Ret (intResp 1, put_cell a (CHash (AList.update (ArgStr args 1) (ArgStr args 2) (hash_at d a))) d)))"

fun hdel_loop :: "string list \<Rightarrow> int \<Rightarrow> (string \<times> string) list \<Rightarrow> int \<times> (string \<times> string) list" where
  "hdel_loop [] deleted h = (deleted, h)"
| "hdel_loop (f # fs) deleted h =
     (if map_of h f \<noteq> None then hdel_loop fs (deleted + 1) (AList.delete f h) else hdel_loop fs deleted h)"

definition cmdHDel :: handler where
  "cmdHDel e args d =
     (if length args < 2 then Ret (wrongArgCount ''HDEL'', d)
      else or_reply (getHash e (ArgStr args 0) d) (\<lambda>r d. case r of
          None \<Rightarrow> Ret (intResp 0, d)
        | Some a \<Rightarrow>
            (case hdel_loop (tl args) 0 (hash_at d a) of (deleted, h) \<Rightarrow>
               Ret (intResp deleted, drop_empty (ArgStr args 0) (h = []) (put_cell a (CHash h) d)))))"

text \<open>The counters. The increment is parsed first, then the hash is made if need be.\<close>

definition cmdHIncrBy :: handler where
  "cmdHIncrBy e args d =
     (if length args \<noteq> 3 then Ret (wrongArgCount ''HINCRBY'', d)
      else need_int (ArgStr args 2) d (\<lambda>delta.
        or_reply (getOrCreateHash e (ArgStr args 0) d) (\<lambda>a d.
          let field = ArgStr args 1; h = hash_at d a in
          case (case map_of h field of None \<Rightarrow> Some 0 | Some v \<Rightarrow> parsed (ParseInt v)) of
            None \<Rightarrow> Ret (errResp ''ERR hash value is not an integer'', d)
          | Some cur \<Rightarrow>
              let cur = wrap64 (cur + delta) in
              Ret (intResp cur, put_cell a (CHash (AList.update field (FormatInt cur) h)) d))))"

definition cmdHIncrByFloat :: handler where
  "cmdHIncrByFloat e args d =
     (if length args \<noteq> 3 then Ret (wrongArgCount ''HINCRBYFLOAT'', d)
      else case ParseFloat (ArgStr args 2) of
        None \<Rightarrow> Ret (errResp ''ERR value is not a valid float'', d)
      | Some delta \<Rightarrow>
        or_reply (getOrCreateHash e (ArgStr args 0) d) (\<lambda>a d.
          let field = ArgStr args 1; h = hash_at d a in
          case (case map_of h field of None \<Rightarrow> Some 0 | Some v \<Rightarrow> ParseFloat v) of
            None \<Rightarrow> Ret (errResp ''ERR hash value is not a float'', d)
          | Some cur \<Rightarrow>
              let s = FormatFloat (f_add cur delta) in
              Ret (bulkResp s, put_cell a (CHash (AList.update field s h)) d)))"

section \<open>Reading fields\<close>

definition field_reply :: "string option \<Rightarrow> resp_value" where
  "field_reply v = (case v of None \<Rightarrow> nullBulkResp | Some s \<Rightarrow> bulkResp s)"

definition cmdHGet :: handler where
  "cmdHGet e args d =
     (if length args \<noteq> 2 then Ret (wrongArgCount ''HGET'', d)
      else or_reply (getHash e (ArgStr args 0) d) (\<lambda>r d. case r of
          None \<Rightarrow> Ret (nullBulkResp, d)
        | Some a \<Rightarrow> Ret (field_reply (map_of (hash_at d a) (ArgStr args 1)), d)))"

definition cmdHMGet :: handler where
  "cmdHMGet e args d =
     (if length args < 2 then Ret (wrongArgCount ''HMGET'', d)
      else or_reply (getHash e (ArgStr args 0) d) (\<lambda>r d.
        Ret (array_value (map (\<lambda>f. case r of None \<Rightarrow> nullBulkResp
              | Some a \<Rightarrow> field_reply (map_of (hash_at d a) f)) (tl args)), d)))"

definition cmdHExists :: handler where
  "cmdHExists e args d =
     (if length args \<noteq> 2 then Ret (wrongArgCount ''HEXISTS'', d)
      else or_reply (getHash e (ArgStr args 0) d) (\<lambda>r d. case r of
          None \<Rightarrow> Ret (intResp 0, d)
        | Some a \<Rightarrow> Ret (intResp (if map_of (hash_at d a) (ArgStr args 1) \<noteq> None then 1 else 0), d)))"

definition cmdHLen :: handler where
  "cmdHLen e args d =
     (if length args \<noteq> 1 then Ret (wrongArgCount ''HLEN'', d)
      else or_reply (getHash e (ArgStr args 0) d) (\<lambda>r d. case r of
          None \<Rightarrow> Ret (intResp 0, d) | Some a \<Rightarrow> Ret (intResp (int (length (hash_at d a))), d)))"

text \<open>A range over the hash, in the order the environment gives.\<close>

definition hash_items :: "env \<Rightarrow> (string \<times> string) list \<Rightarrow> (string \<times> string) list" where
  "hash_items e h = map (\<lambda>f. (f, the (map_of h f))) (iter e (map fst h))"

definition hash_range :: "string \<Rightarrow> (string \<times> string \<Rightarrow> resp_value list) \<Rightarrow> handler" where
  "hash_range name f e args d =
     (if length args \<noteq> 1 then Ret (wrongArgCount name, d)
      else or_reply (getHash e (ArgStr args 0) d) (\<lambda>r d. case r of
          None \<Rightarrow> Ret (array_value [], d)
        | Some a \<Rightarrow> Ret (array_value (concat (map f (hash_items e (hash_at d a)))), d)))"

definition cmdHGetAll :: handler where
  "cmdHGetAll = hash_range ''HGETALL'' (\<lambda>(k, v). [bulkResp k, bulkResp v])"
definition cmdHKeys :: handler where "cmdHKeys = hash_range ''HKEYS'' (\<lambda>(k, v). [bulkResp k])"
definition cmdHVals :: handler where "cmdHVals = hash_range ''HVALS'' (\<lambda>(k, v). [bulkResp v])"

section \<open>They keep the invariant\<close>

lemma hset_loop_wf: "map_wf h \<Longrightarrow> map_wf (snd (hset_loop args n h))"
  by (induction args n h rule: hset_loop.induct) auto

lemma hdel_loop_wf: "map_wf h \<Longrightarrow> map_wf (snd (hdel_loop args n h))"
  by (induction args n h rule: hdel_loop.induct) auto

lemma put_hash_wf: "wf_db d \<Longrightarrow> heap d a = Some (CHash (hash_at d a)) \<Longrightarrow> map_wf h \<Longrightarrow> wf_db (put_cell a (CHash h) d)"
  by (rule hash_value.put_wf)

lemmas hash_puts = put_hash_wf drop_empty_wf hset_loop_wf hdel_loop_wf

lemma reads_hash_range: "reads (hash_range name f)"
  by (rule readsI) (auto simp: hash_range_def intro!: getHash_guards split: option.split)

lemma reads_hash:
  "reads cmdHGet" "reads cmdHMGet" "reads cmdHExists" "reads cmdHLen" "reads cmdHGetAll" "reads cmdHKeys" "reads cmdHVals"
proof -
  show "reads cmdHGet" "reads cmdHMGet" "reads cmdHExists" "reads cmdHLen"
    by (rule readsI, auto simp: cmdHGet_def cmdHMGet_def cmdHExists_def cmdHLen_def intro!: getHash_guards split: option.split)+
  show "reads cmdHGetAll" "reads cmdHKeys" "reads cmdHVals"
    by (simp_all add: cmdHGetAll_def cmdHKeys_def cmdHVals_def reads_hash_range)
qed

lemma keeps_hash_writers:
  "keeps cmdHSet" "keeps cmdHMSet" "keeps cmdHSetNX" "keeps cmdHDel" "keeps cmdHIncrBy" "keeps cmdHIncrByFloat"
  by (rule keepsI, auto simp: cmdHSet_def cmdHMSet_def cmdHSetNX_def cmdHDel_def cmdHIncrBy_def cmdHIncrByFloat_def
      split_beta Let_def intro!: guards_need_int getOrCreateHash_guards getHash_guards hash_puts split: option.split)+

lemmas keeps_hash = reads_hash[THEN reads_keeps] keeps_hash_writers

section \<open>Their effect on the abstract database\<close>

definition hash_of :: "(string \<rightharpoonup> lval \<times> int option) \<Rightarrow> string \<Rightarrow> (string \<rightharpoonup> string) option" where
  "hash_of ks k = (case ks k of None \<Rightarrow> Some Map.empty | Some (LHash h, t) \<Rightarrow> Some h | Some _ \<Rightarrow> None)"

definition put_hash :: "(string \<rightharpoonup> lval \<times> int option) \<Rightarrow> string \<Rightarrow> (string \<rightharpoonup> string) \<Rightarrow> string \<rightharpoonup> lval \<times> int option" where
  "put_hash ks k h = ks(k := if h = Map.empty then None else Some (LHash h, expiry_of ks k))"

interpretation hashes: collection TypeHash CHash "[]" map_wf hash_at hash_of put_hash map_of Map.empty "\<lambda>h. h = []"
  by unfold_locales (auto simp: hash_of_def put_hash_def map_empty_iff fun_eq_iff split: lval.split)

lemmas hash_read = hashes.read_content[folded getHash_def]
lemmas hash_modify = hashes.modify_content[folded getHash_def]
lemmas hash_create_modify = hashes.create_content[folded getOrCreateHash_def]

text \<open>The pairs of the arguments, and what setting them does to a hash.\<close>

fun field_pairs :: "string list \<Rightarrow> (string \<times> string) list" where
  "field_pairs (f # v # rest) = (f, v) # field_pairs rest"
| "field_pairs args = []"

lemma hset_loop_spec:
  "map_of (snd (hset_loop args n h)) = map_of h ++ map_of (rev (field_pairs args))
    \<and> fst (hset_loop args n h) = n + int (card (fst ` set (field_pairs args) - dom (map_of h)))"
proof (induction args n h rule: hset_loop.induct)
  case (1 f v rest n h)
  let ?h = "AList.update f v h" and ?F = "fst ` set (field_pairs rest)"
  have m: "map_of ?h ++ map_of (rev (field_pairs rest)) = map_of h ++ map_of (rev (field_pairs (f # v # rest)))"
    by (rule ext) (simp add: map_add_def split: option.split)
  have d: "dom (map_of ?h) = insert f (dom (map_of h))" by auto
  have c: "card (insert f ?F - dom (map_of h)) = (if map_of h f = None then 1 else 0) + card (?F - dom (map_of ?h))"
  proof (cases "map_of h f = None")
    case True
    then have "insert f ?F - dom (map_of h) = insert f (?F - dom (map_of ?h))" unfolding d by auto
    moreover have "finite (?F - dom (map_of ?h))" "f \<notin> ?F - dom (map_of ?h)" unfolding d by auto
    ultimately show ?thesis using True by simp
  next
    case False
    then have "insert f ?F - dom (map_of h) = ?F - dom (map_of ?h)" unfolding d by auto
    with False show ?thesis by simp
  qed
  show ?case using 1 m c by (cases "map_of h f") (simp_all del: map_of_update)
qed simp_all

lemma hset_loop_nonempty: "h \<noteq> [] \<or> field_pairs args \<noteq> [] \<Longrightarrow> snd (hset_loop args n h) \<noteq> []"
  by (induction args n h rule: hset_loop.induct) (auto simp: update_nonempty)

lemma cmdHSet_spec:
  assumes "wf_db d" and "alone d k" and "2 \<le> length args" and "even (length args)"
  shows "returns (cmdHSet e (k # args) d) (\<lambda>(r, d'). wf_db d' \<and>
    (case hash_of (keyspace e d) k of
       None \<Rightarrow> r = wrongTypeErr \<and> keyspace e d' = keyspace e d
     | Some h \<Rightarrow> r = intResp (int (card (fst ` set (field_pairs args) - dom h)))
         \<and> keyspace e d' = put_hash (keyspace e d) k (h ++ map_of (rev (field_pairs args)))))"
proof -
  have n: "\<not> (length (k # args) < 3 \<or> length (k # args) mod 2 = 0)"
    using assms(3,4) by (auto simp: even_iff_mod_2_eq_zero mod_Suc)
  have p: "field_pairs args \<noteq> []" using assms(3) by (cases args rule: field_pairs.cases) auto
  show ?thesis
    unfolding cmdHSet_def if_not_P[OF n]
    by (auto simp: ArgStr_def split_beta hset_loop_spec hset_loop_wf hset_loop_nonempty p
        intro!: hash_create_modify[OF assms(1,2)])
qed

lemma hdel_loop_spec:
  "map_of (snd (hdel_loop fs n h)) = (map_of h) |` (- set fs)
    \<and> fst (hdel_loop fs n h) = n + int (card (set fs \<inter> dom (map_of h)))"
proof (induction fs n h rule: hdel_loop.induct)
  case (2 f fs n h)
  show ?case
  proof (cases "map_of h f = None")
    case True
    then have "(map_of h) |` (- insert f (set fs)) = (map_of h) |` (- set fs)"
      "insert f (set fs) \<inter> dom (map_of h) = set fs \<inter> dom (map_of h)" by (auto simp: restrict_map_def)
    with True 2 show ?thesis by simp
  next
    case False
    let ?h = "AList.delete f h"
    have "(map_of ?h) |` (- set fs) = (map_of h) |` (- insert f (set fs))" by (auto simp: restrict_map_def)
    moreover have "insert f (set fs) \<inter> dom (map_of h) = insert f (set fs \<inter> dom (map_of ?h))"
      using False by (auto split: if_splits)
    moreover have "f \<notin> set fs \<inter> dom (map_of ?h)" "finite (set fs \<inter> dom (map_of ?h))" by auto
    ultimately show ?thesis using False 2 by (simp del: map_of_delete)
  qed
qed (simp add: restrict_map_def)

lemma cmdHDel_spec:
  assumes "wf_db d" and "alone d k" and "fs \<noteq> []"
  shows "returns (cmdHDel e (k # fs) d) (\<lambda>(r, d'). wf_db d' \<and>
    (case hash_of (keyspace e d) k of
       None \<Rightarrow> r = wrongTypeErr \<and> keyspace e d' = keyspace e d
     | Some h \<Rightarrow> r = intResp (int (card (set fs \<inter> dom h)))
         \<and> keyspace e d' = put_hash (keyspace e d) k (h |` (- set fs))))"
proof -
  have n: "\<not> length (k # fs) < 2" using assms(3) by (cases fs) auto
  show ?thesis
    unfolding cmdHDel_def if_not_P[OF n]
    by (auto simp: ArgStr_def split_beta hdel_loop_spec hdel_loop_wf intro!: hash_modify[OF assms(1,2)])
qed

lemma cmdHGet_spec:
  assumes "wf_db d"
  shows "returns (cmdHGet e [k, f] d) (\<lambda>(r, d'). wf_db d' \<and> keyspace e d' = keyspace e d \<and>
    r = (case hash_of (keyspace e d) k of None \<Rightarrow> wrongTypeErr | Some h \<Rightarrow> field_reply (h f)))"
  by (auto simp: cmdHGet_def ArgStr_def field_reply_def intro!: hash_read[OF assms])

lemma cmdHIncrBy_spec:
  assumes "wf_db d" and "alone d k" and "parsed (ParseInt s) = Some delta"
  shows "returns (cmdHIncrBy e [k, f, s] d) (\<lambda>(r, d'). wf_db d' \<and>
    (case hash_of (keyspace e d) k of
       None \<Rightarrow> r = wrongTypeErr \<and> keyspace e d' = keyspace e d
     | Some h \<Rightarrow>
         (case (case h f of None \<Rightarrow> Some 0 | Some v \<Rightarrow> parsed (ParseInt v)) of
            None \<Rightarrow> r = errResp ''ERR hash value is not an integer'' \<and> keyspace e d' = keyspace e d
          | Some n \<Rightarrow> r = intResp (wrap64 (n + delta))
              \<and> keyspace e d' = put_hash (keyspace e d) k (h(f \<mapsto> FormatInt (wrap64 (n + delta)))))))"
  by (auto simp: cmdHIncrBy_def ArgStr_def need_int_def assms(3) Let_def update_nonempty
      intro!: hash_create_modify[OF assms(1,2)] split: option.split)

end
