(* ===== verification/Cmd_Set.thy ===== *)
theory Cmd_Set
  imports Cmd_Base
begin

text \<open>
  The set commands (commands/set.go): one definition per handler, then their
  effect on the abstract database. A Go \<open>map[string]struct{}\<close> is a list without
  duplicates; a new member goes to its end, and every loop over the map follows
  the order the environment gives.
\<close>

section \<open>Members\<close>

definition set_insert :: "string \<Rightarrow> string list \<Rightarrow> string list" where
  "set_insert m s = (if m \<in> set s then s else s @ [m])"

definition set_delete :: "string \<Rightarrow> string list \<Rightarrow> string list" where
  "set_delete m s = filter (\<lambda>x. x \<noteq> m) s"

fun sadd_loop :: "string list \<Rightarrow> int \<Rightarrow> string list \<Rightarrow> int \<times> string list" where
  "sadd_loop [] added s = (added, s)"
| "sadd_loop (m # ms) added s =
     (if m \<notin> set s then sadd_loop ms (added + 1) (set_insert m s) else sadd_loop ms added s)"

definition cmdSAdd :: handler where
  "cmdSAdd e args d =
     (if length args < 2 then Ret (wrongArgCount ''SADD'', d)
      else or_reply (getOrCreateSet e (ArgStr args 0) d) (\<lambda>a d.
        case sadd_loop (tl args) 0 (set_at d a) of (added, s) \<Rightarrow>
          Ret (intResp added, put_cell a (CSet s) d)))"

fun srem_loop :: "string list \<Rightarrow> int \<Rightarrow> string list \<Rightarrow> int \<times> string list" where
  "srem_loop [] removed s = (removed, s)"
| "srem_loop (m # ms) removed s =
     (if m \<in> set s then srem_loop ms (removed + 1) (set_delete m s) else srem_loop ms removed s)"

definition cmdSRem :: handler where
  "cmdSRem e args d =
     (if length args < 2 then Ret (wrongArgCount ''SREM'', d)
      else or_reply (getSet e (ArgStr args 0) d) (\<lambda>r d. case r of
          None \<Rightarrow> Ret (intResp 0, d)
        | Some a \<Rightarrow>
            (case srem_loop (tl args) 0 (set_at d a) of (removed, s) \<Rightarrow>
               Ret (intResp removed, drop_empty (ArgStr args 0) (s = []) (put_cell a (CSet s) d)))))"

definition setToArray :: "env \<Rightarrow> string list \<Rightarrow> resp_value" where
  "setToArray e s = array_value (map bulkResp (iter e s))"

definition cmdSMembers :: handler where
  "cmdSMembers e args d =
     (if length args \<noteq> 1 then Ret (wrongArgCount ''SMEMBERS'', d)
      else or_reply (getSet e (ArgStr args 0) d) (\<lambda>r d. case r of
          None \<Rightarrow> Ret (array_value [], d)
        | Some a \<Rightarrow> Ret (array_value (map bulkResp (iter e (set_at d a))), d)))"

definition cmdSIsMember :: handler where
  "cmdSIsMember e args d =
     (if length args \<noteq> 2 then Ret (wrongArgCount ''SISMEMBER'', d)
      else or_reply (getSet e (ArgStr args 0) d) (\<lambda>r d. case r of
          None \<Rightarrow> Ret (intResp 0, d)
        | Some a \<Rightarrow> Ret (intResp (if ArgStr args 1 \<in> set (set_at d a) then 1 else 0), d)))"

definition cmdSMIsMember :: handler where
  "cmdSMIsMember e args d =
     (if length args < 2 then Ret (wrongArgCount ''SMISMEMBER'', d)
      else or_reply (getSet e (ArgStr args 0) d) (\<lambda>r d.
        Ret (array_value (map (\<lambda>m. case r of None \<Rightarrow> intResp 0
              | Some a \<Rightarrow> intResp (if m \<in> set (set_at d a) then 1 else 0)) (tl args)), d)))"

definition cmdSCard :: handler where
  "cmdSCard e args d =
     (if length args \<noteq> 1 then Ret (wrongArgCount ''SCARD'', d)
      else or_reply (getSet e (ArgStr args 0) d) (\<lambda>r d. case r of
          None \<Rightarrow> Ret (intResp 0, d) | Some a \<Rightarrow> Ret (intResp (int (length (set_at d a))), d)))"

section \<open>Set algebra\<close>

text \<open>The sets of several keys, in order; the first key of another type ends the loop.
  A missing key counts as an empty set.\<close>

fun collectSets :: "env \<Rightarrow> string list \<Rightarrow> db \<Rightarrow> ((resp_value + string list list) \<times> db) go" where
  "collectSets e [] d = Ret (Inr [], d)"
| "collectSets e (k # ks) d =
     go_bind (getSet e k d) (\<lambda>(r, d). case r of
         Inl err \<Rightarrow> Ret (Inl err, d)
       | Inr x \<Rightarrow>
           let s = (case x of None \<Rightarrow> [] | Some a \<Rightarrow> set_at d a) in
           go_bind (collectSets e ks d) (\<lambda>(r, d). case r of
               Inl err \<Rightarrow> Ret (Inl err, d) | Inr sets \<Rightarrow> Ret (Inr (s # sets), d)))"

definition setUnion :: "env \<Rightarrow> string list list \<Rightarrow> string list" where
  "setUnion e sets = fold (\<lambda>s r. fold set_insert (iter e s) r) sets []"

definition setInter :: "env \<Rightarrow> string list list \<Rightarrow> string list" where
  "setInter e sets =
     (case sets of [] \<Rightarrow> []
      | s0 # rest \<Rightarrow> fold (\<lambda>m r. if list_all (\<lambda>s. m \<in> set s) rest then set_insert m r else r) (iter e s0) [])"

definition setDiff :: "env \<Rightarrow> string list list \<Rightarrow> string list" where
  "setDiff e sets =
     (case sets of [] \<Rightarrow> []
      | s0 # rest \<Rightarrow> fold (\<lambda>m r. if list_ex (\<lambda>s. m \<in> set s) rest then r else set_insert m r) (iter e s0) [])"

text \<open>The three commands that reply with a combination differ only in the operation.\<close>

definition set_combine :: "string \<Rightarrow> (env \<Rightarrow> string list list \<Rightarrow> string list) \<Rightarrow> handler" where
  "set_combine name f e args d =
     (if length args < 1 then Ret (wrongArgCount name, d)
      else or_reply (collectSets e args d) (\<lambda>sets d. Ret (setToArray e (f e sets), d)))"

definition cmdSUnion :: handler where "cmdSUnion = set_combine ''SUNION'' setUnion"
definition cmdSInter :: handler where "cmdSInter = set_combine ''SINTER'' setInter"
definition cmdSDiff :: handler where "cmdSDiff = set_combine ''SDIFF'' setDiff"

definition storeSetResult :: "env \<Rightarrow> string \<Rightarrow> string list \<Rightarrow> db \<Rightarrow> resp_value \<times> db" where
  "storeSetResult e dst s d =
     (let d = snd (db_Del [dst] d) in
      (intResp (int (length s)),
       if s \<noteq> [] then (case new_cell (CSet s) d of (a, d) \<Rightarrow> db_Set e dst (new_object TypeSet (VRef a)) d) else d))"

definition set_combine_store :: "string \<Rightarrow> (env \<Rightarrow> string list list \<Rightarrow> string list) \<Rightarrow> handler" where
  "set_combine_store name f e args d =
     (if length args < 2 then Ret (wrongArgCount name, d)
      else or_reply (collectSets e (tl args) d) (\<lambda>sets d. Ret (storeSetResult e (ArgStr args 0) (f e sets) d)))"

definition cmdSUnionStore :: handler where "cmdSUnionStore = set_combine_store ''SUNIONSTORE'' setUnion"
definition cmdSInterStore :: handler where "cmdSInterStore = set_combine_store ''SINTERSTORE'' setInter"
definition cmdSDiffStore :: handler where "cmdSDiffStore = set_combine_store ''SDIFFSTORE'' setDiff"

section \<open>Moving and drawing\<close>

text \<open>The member is taken out of the source before the destination is looked at: when the
  destination has another type, it is lost.\<close>

definition cmdSMove :: handler where
  "cmdSMove e args d =
     (if length args \<noteq> 3 then Ret (wrongArgCount ''SMOVE'', d)
      else or_reply (getSet e (ArgStr args 0) d) (\<lambda>r d. case r of
          None \<Rightarrow> Ret (intResp 0, d)
        | Some a \<Rightarrow>
            let member = ArgStr args 2; s = set_at d a in
            if member \<notin> set s then Ret (intResp 0, d)
            else
              let s = set_delete member s;
                  d = drop_empty (ArgStr args 0) (s = []) (put_cell a (CSet s) d) in
              or_reply (getOrCreateSet e (ArgStr args 1) d) (\<lambda>b d.
                Ret (intResp 1, put_cell b (CSet (set_insert member (set_at d b))) d))))"

text \<open>The optional count of \<open>SPOP\<close>; without one it pops one member and the reply is no array.\<close>

definition spop_count :: "string list \<Rightarrow> (int \<times> bool) option" where
  "spop_count args =
     (if length args \<ge> 2 then
        (case parsed (Atoi (ArgStr args 1)) of
           None \<Rightarrow> None | Some n \<Rightarrow> if n < 0 then None else Some (n, True))
      else Some (1, False))"

definition cmdSPop :: handler where
  "cmdSPop e args d =
     (if length args < 1 then Ret (wrongArgCount ''SPOP'', d)
      else or_reply (getSet e (ArgStr args 0) d) (\<lambda>r d. case r of
          None \<Rightarrow> Ret (nullBulkResp, d)
        | Some a \<Rightarrow>
            (case spop_count args of
               None \<Rightarrow> Ret (notIntErr, d)
             | Some (cnt, returnArr) \<Rightarrow>
                 let s = set_at d a; keys = shuffle e (iter e s);
                     cnt = (if int (length keys) < cnt then int (length keys) else cnt);
                     popped = take (nat cnt) keys;
                     s = fold set_delete popped s;
                     d = drop_empty (ArgStr args 0) (s = []) (put_cell a (CSet s) d) in
                 Ret (if \<not> returnArr then (case popped of [] \<Rightarrow> nullBulkResp | p # _ \<Rightarrow> bulkResp p)
                      else stringsToArray popped, d))))"

text \<open>\<open>keys[rand.Intn(len(keys))]\<close>, the \<open>i\<close>-th draw; \<open>Intn\<close> panics at 0.\<close>

definition draw :: "env \<Rightarrow> nat \<Rightarrow> string list \<Rightarrow> string go" where
  "draw e i keys =
     (if keys = [] then Panic ''invalid argument to Intn'' else Ret (keys ! intn e i (length keys)))"

fun draws :: "env \<Rightarrow> nat list \<Rightarrow> string list \<Rightarrow> string list go" where
  "draws e [] keys = Ret []"
| "draws e (i # is) keys = go_bind (draw e i keys) (\<lambda>x. go_bind (draws e is keys) (\<lambda>xs. Ret (x # xs)))"

definition cmdSRandMember :: handler where
  "cmdSRandMember e args d =
     (if length args < 1 then Ret (wrongArgCount ''SRANDMEMBER'', d)
      else or_reply (getSet e (ArgStr args 0) d) (\<lambda>r d. case r of
          None \<Rightarrow> Ret (if length args \<ge> 2 then array_value [] else nullBulkResp, d)
        | Some a \<Rightarrow>
            let keys = iter e (set_at d a) in
            if length args < 2 then go_bind (draw e 0 keys) (\<lambda>m. Ret (bulkResp m, d))
            else (case parsed (Atoi (ArgStr args 1)) of
               None \<Rightarrow> Ret (notIntErr, d)
             | Some cnt \<Rightarrow>
                 if 0 \<le> cnt then
                   let cnt = (if int (length keys) < cnt then int (length keys) else cnt) in
                   Ret (stringsToArray (take (nat cnt) (shuffle e keys)), d)
                 else
                   let cnt = wrap64 (- cnt) in
                   go_bind (make_slice 16 cnt) (\<lambda>_.
                   go_bind (draws e [0..<nat cnt] keys) (\<lambda>result. Ret (stringsToArray result, d))))))"

section \<open>They keep the invariant\<close>

lemma set_insert_set [simp]: "set (set_insert m s) = insert m (set s)"
  by (auto simp: set_insert_def)

lemma set_insert_distinct [simp]: "distinct (set_insert m s) = distinct s"
  by (simp add: set_insert_def)

lemma set_insert_not_Nil [simp]: "set_insert m s \<noteq> []"
  by (auto simp: set_insert_def)

lemma set_delete_set [simp]: "set (set_delete m s) = set s - {m}"
  by (auto simp: set_delete_def)

lemma set_delete_distinct [simp]: "distinct s \<Longrightarrow> distinct (set_delete m s)"
  by (simp add: set_delete_def)

lemma sadd_loop_wf: "distinct s \<Longrightarrow> distinct (snd (sadd_loop ms n s))"
  by (induction ms n s rule: sadd_loop.induct) simp_all

lemma srem_loop_wf: "distinct s \<Longrightarrow> distinct (snd (srem_loop ms n s))"
  by (induction ms n s rule: srem_loop.induct) simp_all

lemma fold_set_delete: "distinct s \<Longrightarrow> distinct (fold set_delete ms s)" "set (fold set_delete ms s) = set s - set ms"
  by (induction ms arbitrary: s) auto

lemma fold_set_insert: "distinct (fold set_insert ms s) = distinct s" "set (fold set_insert ms s) = set ms \<union> set s"
  by (induction ms arbitrary: s) auto

lemma fold_set_insert_if:
  "distinct (fold (\<lambda>m r. if P m then set_insert m r else r) ms s) = distinct s"
  "set (fold (\<lambda>m r. if P m then set_insert m r else r) ms s) = {m \<in> set ms. P m} \<union> set s"
  by (induction ms arbitrary: s) auto

lemma setUnion_distinct: "distinct (setUnion e sets)"
proof -
  have "distinct r \<Longrightarrow> distinct (fold (\<lambda>s r. fold set_insert (iter e s) r) sets r)" for r
    by (induction sets arbitrary: r) (simp_all add: fold_set_insert)
  then show ?thesis by (simp add: setUnion_def)
qed

lemma setDiff_alt:
  "setDiff e (s0 # rest) = fold (\<lambda>m r. if \<not> list_ex (\<lambda>s. m \<in> set s) rest then set_insert m r else r) (iter e s0) []"
proof -
  have "(\<lambda>m r. if list_ex (\<lambda>s. m \<in> set s) rest then r else set_insert m r) =
    (\<lambda>m r. if \<not> list_ex (\<lambda>s. m \<in> set s) rest then set_insert m r else r)" by (intro ext) simp
  then show ?thesis unfolding setDiff_def by simp
qed

lemma setInter_distinct: "distinct (setInter e sets)"
  by (cases sets) (simp_all add: setInter_def fold_set_insert_if)

lemma setDiff_distinct: "distinct (setDiff e sets)"
  by (cases sets) (simp_all add: setDiff_alt fold_set_insert_if, simp add: setDiff_def)

lemmas combine_distinct = setUnion_distinct setInter_distinct setDiff_distinct

text \<open>What the three operations compute.\<close>

lemma setUnion_set: "env_ok e \<Longrightarrow> set (setUnion e sets) = \<Union> (set (map set sets))"
proof -
  assume e: "env_ok e"
  have "set (fold (\<lambda>s r. fold set_insert (iter e s) r) sets r) = \<Union> (set (map set sets)) \<union> set r" for r
    by (induction sets arbitrary: r) (auto simp: fold_set_insert env_ok_iter_set[OF e])
  then show ?thesis by (simp add: setUnion_def)
qed

lemma setInter_set: "env_ok e \<Longrightarrow> set (setInter e (s # sets)) = set s \<inter> \<Inter> (set (map set sets))"
  by (auto simp: setInter_def fold_set_insert_if env_ok_iter_set list_all_iff)

lemma setDiff_set: "env_ok e \<Longrightarrow> set (setDiff e (s # sets)) = set s - \<Union> (set (map set sets))"
  by (auto simp: setDiff_alt fold_set_insert_if env_ok_iter_set list_ex_iff)

section \<open>What a set command sees of a key\<close>

definition set_of :: "(string \<rightharpoonup> lval \<times> int option) \<Rightarrow> string \<Rightarrow> string set option" where
  "set_of ks k = (case ks k of None \<Rightarrow> Some {} | Some (LSet s, t) \<Rightarrow> Some s | Some _ \<Rightarrow> None)"

definition put_set :: "(string \<rightharpoonup> lval \<times> int option) \<Rightarrow> string \<Rightarrow> string set \<Rightarrow> string \<rightharpoonup> lval \<times> int option" where
  "put_set ks k s = ks(k := if s = {} then None else Some (LSet s, expiry_of ks k))"

interpretation sets: collection TypeSet CSet "[]" distinct set_at set_of put_set set "{}" "\<lambda>s. s = []"
  by unfold_locales (auto simp: set_of_def put_set_def split: lval.split)

lemmas set_read = sets.read_content[folded getSet_def]
lemmas set_modify = sets.modify_content[folded getSet_def]
lemmas set_create_modify = sets.create_content[folded getOrCreateSet_def]

text \<open>The sets that are collected.\<close>

lemma collectSets_spec:
  "wf_db d \<Longrightarrow> returns (collectSets e ks d) (\<lambda>(r, d'). wf_db d' \<and> keyspace e d' = keyspace e d \<and>
    (case r of
       Inl err \<Rightarrow> err = wrongTypeErr \<and> (\<exists>k\<in>set ks. set_of (keyspace e d) k = None)
     | Inr sets \<Rightarrow> list_all distinct sets \<and> map (set_of (keyspace e d)) ks = map (\<lambda>s. Some (set s)) sets))"
proof (induction ks arbitrary: d)
  case (Cons k ks)
  show ?case
    unfolding collectSets.simps returns_bind
  proof (rule set_read[OF Cons.prems], goal_cases)
    case (2 d')
    then show ?case using Cons.IH[OF 2(1)] by (auto elim!: returns_mono split: sum.splits)
  next
    case (3 d' a s)
    then show ?case using Cons.IH[OF 3(1)] by (auto elim!: returns_mono split: sum.splits)
  qed auto
qed simp

lemma collectSets_guards:
  assumes "wf_db d"
    and "\<And>d'. wf_db d' \<Longrightarrow> keyspace e d' = keyspace e d \<Longrightarrow> Q (Inl wrongTypeErr, d')"
    and "\<And>d' ss. wf_db d' \<Longrightarrow> keyspace e d' = keyspace e d \<Longrightarrow> Q (Inr ss, d')"
  shows "guards (collectSets e ks d) Q"
  by (rule guards_returns, rule returns_mono[OF collectSets_spec[OF assms(1), of e ks]])
    (use assms(2,3) in \<open>auto split: sum.splits\<close>)

text \<open>Storing a result under a key.\<close>

lemma storeSetResult_spec:
  assumes "wf_db d" and "distinct s"
  shows "wf_db (snd (storeSetResult e k s d))"
    and "keyspace e (snd (storeSetResult e k s d)) = (keyspace e d)(k := if s = [] then None else Some (LSet (set s), None))"
    and "fst (storeSetResult e k s d) = intResp (int (card (set s)))"
proof -
  let ?d = "drop_empty k True d"
  have d: "snd (db_Del [k] d) = ?d" by (simp add: drop_empty_def)
  have w: "wf_db ?d" "keyspace e ?d = (keyspace e d)(k := None)"
    using drop_empty_wf[OF assms(1)] by (simp_all add: drop_empty_keyspace)
  let ?n = "?d\<lparr>heap := (heap ?d)(next_ref ?d \<mapsto> CSet s), next_ref := Suc (next_ref ?d)\<rparr>"
  have n: "wf_db ?n" "keyspace e ?n = keyspace e ?d"
    by (rule wf_new_cell[OF w(1)]) (simp_all add: assms(2) new_cell_keyspace[OF w(1)])
  have o: "obj_ok (heap ?n) (new_object TypeSet (VRef (next_ref ?d)))" by (rule new_object_ok) (simp add: val_type_def)
  show "wf_db (snd (storeSetResult e k s d))"
    using w db_Set_wf[OF n(1) o] unfolding storeSetResult_def d by (simp add: Let_def new_cell_def)
  show "keyspace e (snd (storeSetResult e k s d)) = (keyspace e d)(k := if s = [] then None else Some (LSet (set s), None))"
    using w n(2) unfolding storeSetResult_def d
    by (simp add: Let_def new_cell_def db_Set_keyspace val_view_def)
  show "fst (storeSetResult e k s d) = intResp (int (card (set s)))"
    by (simp add: storeSetResult_def Let_def distinct_card[OF assms(2)] del: db_Del.simps)
qed

section \<open>They keep the invariant\<close>

lemma draw_guards: "(\<And>x. Q x) \<Longrightarrow> guards (draw e i keys) Q"
  by (simp add: draw_def conversion_panic_def)

lemma draws_guards: "(\<And>xs. Q xs) \<Longrightarrow> guards (draws e is keys) Q"
  by (induction "is" arbitrary: Q) (auto intro!: draw_guards)

lemma reads_set_combine: "reads (set_combine name f)"
  by (rule readsI) (auto simp: set_combine_def intro!: collectSets_guards)

lemma reads_set:
  "reads cmdSMembers" "reads cmdSIsMember" "reads cmdSMIsMember" "reads cmdSCard" "reads cmdSUnion" "reads cmdSInter"
  "reads cmdSDiff" "reads cmdSRandMember"
proof -
  show "reads cmdSMembers" "reads cmdSIsMember" "reads cmdSMIsMember" "reads cmdSCard"
    by (rule readsI, auto simp: cmdSMembers_def cmdSIsMember_def cmdSMIsMember_def cmdSCard_def
        intro!: getSet_guards split: option.split)+
  show "reads cmdSUnion" "reads cmdSInter" "reads cmdSDiff"
    by (simp_all add: cmdSUnion_def cmdSInter_def cmdSDiff_def reads_set_combine)
  show "reads cmdSRandMember"
    by (rule readsI) (auto simp: cmdSRandMember_def Let_def intro!: getSet_guards draw_guards make_slice_guards draws_guards
        split: option.split)
qed

lemma keeps_set_combine_store:
  assumes "\<And>e ss. distinct (f e ss)"
  shows "keeps (set_combine_store name f)"
  by (rule keepsI) (auto simp: set_combine_store_def storeSetResult_spec[OF _ assms] intro!: collectSets_guards)

lemma put_set_wf: "wf_db d \<Longrightarrow> heap d a = Some (CSet (set_at d a)) \<Longrightarrow> distinct s \<Longrightarrow> wf_db (put_cell a (CSet s) d)"
  by (rule set_value.put_wf)

lemmas set_puts = put_set_wf drop_empty_wf sadd_loop_wf srem_loop_wf fold_set_delete(1)

lemma keeps_set_writers:
  "keeps cmdSAdd" "keeps cmdSRem" "keeps cmdSMove" "keeps cmdSPop" "keeps cmdSUnionStore" "keeps cmdSInterStore" "keeps cmdSDiffStore"
proof -
  show "keeps cmdSAdd" "keeps cmdSRem" "keeps cmdSMove" "keeps cmdSPop"
    by (rule keepsI, auto simp: cmdSAdd_def cmdSRem_def cmdSMove_def cmdSPop_def split_beta Let_def
        intro!: getOrCreateSet_guards getSet_guards set_puts split: option.split)+
  show "keeps cmdSUnionStore" "keeps cmdSInterStore" "keeps cmdSDiffStore"
    by (simp_all add: cmdSUnionStore_def cmdSInterStore_def cmdSDiffStore_def keeps_set_combine_store combine_distinct)
qed

lemmas keeps_set = reads_set[THEN reads_keeps] keeps_set_writers

section \<open>Their effect on the abstract database\<close>

lemma sadd_loop_spec:
  "set (snd (sadd_loop ms n s)) = set s \<union> set ms \<and> fst (sadd_loop ms n s) = n + int (card (set ms - set s))"
proof (induction ms n s rule: sadd_loop.induct)
  case (2 m ms n s)
  show ?case
  proof (cases "m \<in> set s")
    case True
    then have "insert m (set ms) - set s = set ms - set s" by auto
    with True 2 show ?thesis by auto
  next
    case False
    then have "insert m (set ms) - set s = insert m (set ms - insert m (set s))" by auto
    with False 2 show ?thesis by auto
  qed
qed simp

lemma sadd_loop_not_Nil: "ms \<noteq> [] \<Longrightarrow> snd (sadd_loop ms n s) \<noteq> []"
  using sadd_loop_spec[of ms n s] by (metis Un_empty set_empty)

lemma srem_loop_spec:
  "set (snd (srem_loop ms n s)) = set s - set ms \<and> fst (srem_loop ms n s) = n + int (card (set ms \<inter> set s))"
proof (induction ms n s rule: srem_loop.induct)
  case (2 m ms n s)
  show ?case
  proof (cases "m \<in> set s")
    case False
    then have "insert m (set ms) \<inter> set s = set ms \<inter> set s" by auto
    with False 2 show ?thesis by auto
  next
    case True
    then have "insert m (set ms) \<inter> set s = insert m (set ms \<inter> (set s - {m}))" by auto
    with True 2 show ?thesis by auto
  qed
qed simp

lemma sadd_srem_spec:
  assumes "wf_db d" and "alone d k" and "ms \<noteq> []"
  shows "returns (cmdSAdd e (k # ms) d) (\<lambda>(r, d'). wf_db d' \<and>
      (case set_of (keyspace e d) k of
         None \<Rightarrow> r = wrongTypeErr \<and> keyspace e d' = keyspace e d
       | Some s \<Rightarrow> r = intResp (int (card (set ms - s))) \<and> keyspace e d' = put_set (keyspace e d) k (s \<union> set ms)))"
    and "returns (cmdSRem e (k # ms) d) (\<lambda>(r, d'). wf_db d' \<and>
      (case set_of (keyspace e d) k of
         None \<Rightarrow> r = wrongTypeErr \<and> keyspace e d' = keyspace e d
       | Some s \<Rightarrow> r = intResp (int (card (set ms \<inter> s))) \<and> keyspace e d' = put_set (keyspace e d) k (s - set ms)))"
proof -
  have n: "\<not> length (k # ms) < 2" using assms(3) by (cases ms) auto
  show "returns (cmdSAdd e (k # ms) d) (\<lambda>(r, d'). wf_db d' \<and>
      (case set_of (keyspace e d) k of
         None \<Rightarrow> r = wrongTypeErr \<and> keyspace e d' = keyspace e d
       | Some s \<Rightarrow> r = intResp (int (card (set ms - s))) \<and> keyspace e d' = put_set (keyspace e d) k (s \<union> set ms)))"
    unfolding cmdSAdd_def if_not_P[OF n] using assms(3)
    by (auto simp: ArgStr_def split_beta sadd_loop_spec sadd_loop_wf sadd_loop_not_Nil intro!: set_create_modify[OF assms(1,2)])
  show "returns (cmdSRem e (k # ms) d) (\<lambda>(r, d'). wf_db d' \<and>
      (case set_of (keyspace e d) k of
         None \<Rightarrow> r = wrongTypeErr \<and> keyspace e d' = keyspace e d
       | Some s \<Rightarrow> r = intResp (int (card (set ms \<inter> s))) \<and> keyspace e d' = put_set (keyspace e d) k (s - set ms)))"
    unfolding cmdSRem_def if_not_P[OF n]
    by (auto simp: ArgStr_def split_beta srem_loop_spec srem_loop_wf intro!: set_modify[OF assms(1,2)])
qed

text \<open>The three commands that store a combination. They need no key to be alone: the
  result is a new set.\<close>

definition sets_of :: "(string \<rightharpoonup> lval \<times> int option) \<Rightarrow> string list \<Rightarrow> string set list" where
  "sets_of ks keys = map (\<lambda>k. the (set_of ks k)) keys"

definition all_sets :: "(string \<rightharpoonup> lval \<times> int option) \<Rightarrow> string list \<Rightarrow> bool" where
  "all_sets ks keys \<longleftrightarrow> (\<forall>k\<in>set keys. set_of ks k \<noteq> None)"

lemma set_combine_store_spec:
  assumes "wf_db d" and "keys \<noteq> []" and f: "\<And>ss. distinct (f e ss)"
    and g: "\<And>ss. length ss = length keys \<Longrightarrow> set (f e ss) = g (map set ss)"
  shows "returns (set_combine_store name f e (k # keys) d) (\<lambda>(r, d'). wf_db d' \<and>
    (if all_sets (keyspace e d) keys then
       (let s = g (sets_of (keyspace e d) keys) in
        r = intResp (int (card s)) \<and> keyspace e d' = (keyspace e d)(k := if s = {} then None else Some (LSet s, None)))
     else r = wrongTypeErr \<and> keyspace e d' = keyspace e d))"
proof -
  have n: "\<not> length (k # keys) < 2" using assms(2) by (cases keys) auto
  have c: "all_sets ks keys \<and> sets_of ks keys = map set ss \<and> length ss = length keys"
    if "map (set_of ks) keys = map (\<lambda>s. Some (set s)) ss" for ks ss
    using that by (induction keys arbitrary: ss) (auto simp: all_sets_def sets_of_def Cons_eq_map_conv)
  show ?thesis
    unfolding set_combine_store_def if_not_P[OF n] returns_or_reply
  proof (rule returns_mono[OF collectSets_spec[OF assms(1)]], goal_cases)
    case (1 x)
    then show ?case
      using storeSetResult_spec[OF _ f, of "snd x"] c g
      by (fastforce simp: ArgStr_def Let_def split_beta all_sets_def split: sum.splits)
  qed
qed

lemma set_algebra_spec:
  assumes "wf_db d" and "env_ok e" and "k2 # rest = keys"
  shows "returns (cmdSUnionStore e (k # keys) d) (\<lambda>(r, d'). wf_db d' \<and>
      (if all_sets (keyspace e d) keys then
         (let s = \<Union> (set (sets_of (keyspace e d) keys)) in
          r = intResp (int (card s)) \<and> keyspace e d' = (keyspace e d)(k := if s = {} then None else Some (LSet s, None)))
       else r = wrongTypeErr \<and> keyspace e d' = keyspace e d))"
    and "returns (cmdSInterStore e (k # keys) d) (\<lambda>(r, d'). wf_db d' \<and>
      (if all_sets (keyspace e d) keys then
         (let s = \<Inter> (set (sets_of (keyspace e d) keys)) in
          r = intResp (int (card s)) \<and> keyspace e d' = (keyspace e d)(k := if s = {} then None else Some (LSet s, None)))
       else r = wrongTypeErr \<and> keyspace e d' = keyspace e d))"
    and "returns (cmdSDiffStore e (k # keys) d) (\<lambda>(r, d'). wf_db d' \<and>
      (if all_sets (keyspace e d) keys then
         (let s = hd (sets_of (keyspace e d) keys) - \<Union> (set (tl (sets_of (keyspace e d) keys))) in
          r = intResp (int (card s)) \<and> keyspace e d' = (keyspace e d)(k := if s = {} then None else Some (LSet s, None)))
       else r = wrongTypeErr \<and> keyspace e d' = keyspace e d))"
proof -
  have n: "keys \<noteq> []" "length ss = length keys \<Longrightarrow> ss \<noteq> []" for ss :: "string list list" using assms(3) by auto
  show "returns (cmdSUnionStore e (k # keys) d) (\<lambda>(r, d'). wf_db d' \<and>
      (if all_sets (keyspace e d) keys then
         (let s = \<Union> (set (sets_of (keyspace e d) keys)) in
          r = intResp (int (card s)) \<and> keyspace e d' = (keyspace e d)(k := if s = {} then None else Some (LSet s, None)))
       else r = wrongTypeErr \<and> keyspace e d' = keyspace e d))"
    unfolding cmdSUnionStore_def
    by (rule set_combine_store_spec[where g = "\<lambda>ss. \<Union> (set ss)", OF assms(1) n(1) setUnion_distinct])
      (rule setUnion_set[OF assms(2)])
  have "set (setInter e ss) = \<Inter> (set (map set ss))" if "length ss = length keys" for ss
    using n(2)[OF that] setInter_set[OF assms(2)] by (cases ss) simp_all
  then show "returns (cmdSInterStore e (k # keys) d) (\<lambda>(r, d'). wf_db d' \<and>
      (if all_sets (keyspace e d) keys then
         (let s = \<Inter> (set (sets_of (keyspace e d) keys)) in
          r = intResp (int (card s)) \<and> keyspace e d' = (keyspace e d)(k := if s = {} then None else Some (LSet s, None)))
       else r = wrongTypeErr \<and> keyspace e d' = keyspace e d))"
    unfolding cmdSInterStore_def
    by (rule set_combine_store_spec[where g = "\<lambda>ss. \<Inter> (set ss)", OF assms(1) n(1) setInter_distinct])
  have "set (setDiff e ss) = hd (map set ss) - \<Union> (set (tl (map set ss)))" if "length ss = length keys" for ss
    using n(2)[OF that] setDiff_set[OF assms(2)] by (cases ss) simp_all
  then show "returns (cmdSDiffStore e (k # keys) d) (\<lambda>(r, d'). wf_db d' \<and>
      (if all_sets (keyspace e d) keys then
         (let s = hd (sets_of (keyspace e d) keys) - \<Union> (set (tl (sets_of (keyspace e d) keys))) in
          r = intResp (int (card s)) \<and> keyspace e d' = (keyspace e d)(k := if s = {} then None else Some (LSet s, None)))
       else r = wrongTypeErr \<and> keyspace e d' = keyspace e d))"
    unfolding cmdSDiffStore_def
    by (rule set_combine_store_spec[where g = "\<lambda>ss. hd ss - \<Union> (set (tl ss))", OF assms(1) n(1) setDiff_distinct])
qed

text \<open>\<open>SMOVE\<close>: a destination of another type swallows the member.\<close>

lemma cmdSMove_spec:
  assumes "wf_db d" and "alone d src" and "alone d dst"
  shows "returns (cmdSMove e [src, dst, m] d) (\<lambda>(r, d'). wf_db d' \<and>
    (case set_of (keyspace e d) src of
       None \<Rightarrow> r = wrongTypeErr \<and> keyspace e d' = keyspace e d
     | Some s \<Rightarrow>
         if m \<notin> s then r = intResp 0 \<and> keyspace e d' = keyspace e d
         else let ks = put_set (keyspace e d) src (s - {m}) in
           (case set_of ks dst of
              None \<Rightarrow> r = wrongTypeErr \<and> keyspace e d' = ks
            | Some t \<Rightarrow> r = intResp 1 \<and> keyspace e d' = put_set ks dst (insert m t))))"
    (is "returns _ ?Q")
proof -
  have add: "returns (or_reply (getOrCreateSet e dst d1) (\<lambda>b d. Ret (intResp 1, put_cell b (CSet (set_insert m (set_at d b))) d))) ?Q"
    if "wf_db d1" "alone d1 dst" "set_of (keyspace e d) src = Some s" "m \<in> s" "keyspace e d1 = put_set (keyspace e d) src (s - {m})"
    for d1 s
    using that by (auto simp: Let_def intro!: set_create_modify[OF that(1,2)])
  have a: "ArgStr [src, dst, m] 0 = src" "ArgStr [src, dst, m] 1 = dst" "ArgStr [src, dst, m] 2 = m" by (simp_all add: ArgStr_def)
  have n: "\<not> length [src, dst, m] \<noteq> 3" by simp
  show ?thesis
    unfolding cmdSMove_def if_not_P[OF n] a Let_def returns_or_reply[of "getSet e src d"]
  proof (rule set_modify[OF assms(1,2)], goal_cases)
    case (3 d1 a s)
    show ?case
    proof (cases "m \<in> set s")
      case True
      let ?s = "set_delete m s"
      have "alone (drop_empty src (?s = []) (put_cell a (CSet ?s) d1)) dst"
        using 3(9)[OF assms(3)] by (simp add: alone_drop)
      with add[of _ "set s"] 3(7)[of ?s] 3(4-6) True show ?thesis by (simp add: Let_def)
    qed (use 3 in simp)
  qed auto
qed

text \<open>\<open>SPOP\<close>: which members it takes is open, but they were there, they are gone, and
  the reply names them.\<close>

lemma take_shuffled:
  assumes "env_ok e" and "distinct s"
  shows "distinct (take n (shuffle e (iter e s)))" "set (take n (shuffle e (iter e s))) \<subseteq> set s"
    "length (take n (shuffle e (iter e s))) = min n (length s)"
proof -
  have l: "length (shuffle e (iter e s)) = length s" "distinct (shuffle e (iter e s))" "set (shuffle e (iter e s)) = set s"
    using assms by (simp_all add: env_ok_shuffle_length env_ok_iter_length env_ok_shuffle_distinct env_ok_iter_distinct
        env_ok_shuffle_set env_ok_iter_set)
  then show "distinct (take n (shuffle e (iter e s)))" "set (take n (shuffle e (iter e s))) \<subseteq> set s"
    "length (take n (shuffle e (iter e s))) = min n (length s)"
    using set_take_subset[of n "shuffle e (iter e s)"] by auto
qed

lemma cmdSPop_spec:
  assumes "env_ok e" and "wf_db d" and "alone d k" and "parsed (Atoi w) = Some n" and "0 \<le> n"
  shows "returns (cmdSPop e [k, w] d) (\<lambda>(r, d'). wf_db d' \<and>
    (case set_of (keyspace e d) k of
       None \<Rightarrow> r = wrongTypeErr \<and> keyspace e d' = keyspace e d
     | Some s \<Rightarrow>
         (r = nullBulkResp \<and> s = {} \<and> keyspace e d' = keyspace e d) \<or>
         (\<exists>ms. distinct ms \<and> set ms \<subseteq> s \<and> length ms = min (nat n) (card s) \<and> r = stringsToArray ms
            \<and> keyspace e d' = put_set (keyspace e d) k (s - set ms))))"
proof -
  have c: "nat (if int (length keys) < n then int (length keys) else n) = min (nat n) (length keys)" for keys :: "string list"
    using assms(5) by auto
  have nb: "parsed (Atoi w) \<noteq> None" "\<not> n < 0" using assms(4,5) by auto
  have a: "ArgStr [k, w] 0 = k" by (simp add: ArgStr_def)
  have sc: "spop_count [k, w] = Some (n, True)" using assms(4) nb by (simp add: spop_count_def ArgStr_def)
  have l: "\<not> length [k, w] < 1" by simp
  show ?thesis
    unfolding cmdSPop_def if_not_P[OF l] a sc Let_def c returns_or_reply
  proof (rule set_modify[OF assms(2,3)], goal_cases)
    case (3 d1 a s)
    let ?ms = "take (min (nat n) (length (shuffle e (iter e s)))) (shuffle e (iter e s))"
    have ms: "distinct ?ms" "set ?ms \<subseteq> set s" "length ?ms = min (nat n) (card (set s))"
      using take_shuffled[OF assms(1) 3(4)] assms(1) distinct_card[OF 3(4)]
      by (simp_all add: env_ok_shuffle_length env_ok_iter_length min.assoc)
    have "distinct (fold set_delete ?ms s)" using fold_set_delete(1)[OF 3(4)] .
    from 3(7)[OF this] 3(5,6) ms fold_set_delete(2)[of ?ms s] show ?case by auto
  qed auto
qed

text \<open>The commands that read.\<close>

lemma set_readers_spec:
  assumes "wf_db d"
  shows "returns (cmdSCard e [k] d) (\<lambda>(r, d'). wf_db d' \<and> keyspace e d' = keyspace e d \<and>
      r = (case set_of (keyspace e d) k of None \<Rightarrow> wrongTypeErr | Some s \<Rightarrow> intResp (int (card s))))"
    and "returns (cmdSIsMember e [k, m] d) (\<lambda>(r, d'). wf_db d' \<and> keyspace e d' = keyspace e d \<and>
      r = (case set_of (keyspace e d) k of None \<Rightarrow> wrongTypeErr | Some s \<Rightarrow> intResp (if m \<in> s then 1 else 0)))"
    and "env_ok e \<Longrightarrow> returns (cmdSMembers e [k] d) (\<lambda>(r, d'). wf_db d' \<and> keyspace e d' = keyspace e d \<and>
      (case set_of (keyspace e d) k of None \<Rightarrow> r = wrongTypeErr
       | Some s \<Rightarrow> \<exists>ms. distinct ms \<and> set ms = s \<and> r = stringsToArray ms))"
proof -
  show "returns (cmdSCard e [k] d) (\<lambda>(r, d'). wf_db d' \<and> keyspace e d' = keyspace e d \<and>
      r = (case set_of (keyspace e d) k of None \<Rightarrow> wrongTypeErr | Some s \<Rightarrow> intResp (int (card s))))"
    and "returns (cmdSIsMember e [k, m] d) (\<lambda>(r, d'). wf_db d' \<and> keyspace e d' = keyspace e d \<and>
      r = (case set_of (keyspace e d) k of None \<Rightarrow> wrongTypeErr | Some s \<Rightarrow> intResp (if m \<in> s then 1 else 0)))"
    by (auto simp: cmdSCard_def cmdSIsMember_def ArgStr_def distinct_card intro!: set_read[OF assms])
  assume e: "env_ok e"
  have m: "\<exists>ms. distinct ms \<and> set ms = set s \<and> array_value (map bulkResp (iter e s)) = stringsToArray ms" if "distinct s" for s
    using that e by (intro exI[of _ "iter e s"]) (simp add: stringsToArray_def env_ok_iter_distinct env_ok_iter_set)
  show "returns (cmdSMembers e [k] d) (\<lambda>(r, d'). wf_db d' \<and> keyspace e d' = keyspace e d \<and>
      (case set_of (keyspace e d) k of None \<Rightarrow> r = wrongTypeErr
       | Some s \<Rightarrow> \<exists>ms. distinct ms \<and> set ms = s \<and> r = stringsToArray ms))"
    by (auto simp: cmdSMembers_def ArgStr_def m intro!: set_read[OF assms])
      (simp add: stringsToArray_def)
qed

end
