(* ===== verification/Cmd_ZSet.thy ===== *)
theory Cmd_ZSet
  imports Cmd_Base Go_Float_Text Sorted_Set
begin

text \<open>
  The sorted set commands (commands/zset.go): one definition per handler with the
  helpers for scores, limits, lexical ranges and replies.
\<close>

section \<open>Scores\<close>

definition parseScore :: "string \<Rightarrow> float64 option" where
  "parseScore s =
     (let s = ToLower s in
      if s = ''+inf'' \<or> s = ''inf'' then Some f_inf
      else if s = ''-inf'' then Some f_neg_inf
      else ParseFloat s)"

definition parseScoreRange :: "string \<Rightarrow> string \<Rightarrow> (float64 \<times> float64) option" where
  "parseScoreRange minStr maxStr =
     (case parseScore minStr of None \<Rightarrow> None
      | Some mn \<Rightarrow> (case parseScore maxStr of None \<Rightarrow> None | Some mx \<Rightarrow> Some (mn, mx)))"

definition zsetEntriesToResp :: "(string \<times> float64) list \<Rightarrow> bool \<Rightarrow> resp_value" where
  "zsetEntriesToResp entries withScores =
     (if \<not> withScores then array_value (map (\<lambda>(m, sc). bulkResp m) entries)
      else array_value (concat (map (\<lambda>(m, sc). [bulkResp m, bulkResp (FormatFloat sc)]) entries)))"

section \<open>ZADD\<close>

record zadd_opts =
  zNX :: bool
  zXX :: bool
  zGT :: bool
  zLT :: bool
  zCH :: bool

text \<open>The options, up to the first argument that is none; the rest are scores and members.\<close>

fun zadd_options :: "string list \<Rightarrow> zadd_opts \<Rightarrow> zadd_opts \<times> string list" where
  "zadd_options [] opts = (opts, [])"
| "zadd_options (a # rest) opts =
     (let s = ToUpper a in
      if s = ''NX'' then zadd_options rest (opts\<lparr>zNX := True\<rparr>)
      else if s = ''XX'' then zadd_options rest (opts\<lparr>zXX := True\<rparr>)
      else if s = ''GT'' then zadd_options rest (opts\<lparr>zGT := True\<rparr>)
      else if s = ''LT'' then zadd_options rest (opts\<lparr>zLT := True\<rparr>)
      else if s = ''CH'' then zadd_options rest (opts\<lparr>zCH := True\<rparr>)
      else (opts, a # rest))"

definition zadd_skips :: "zadd_opts \<Rightarrow> float64 \<Rightarrow> float64 option \<Rightarrow> bool" where
  "zadd_skips opts sc old \<longleftrightarrow>
     zNX opts \<and> old \<noteq> None \<or> zXX opts \<and> old = None
     \<or> zGT opts \<and> (case old of None \<Rightarrow> False | Some o1 \<Rightarrow> f_le sc o1)
     \<or> zLT opts \<and> (case old of None \<Rightarrow> False | Some o1 \<Rightarrow> f_le o1 sc)"

text \<open>
  The loop over the pairs, the \<open>i\<close>-th of which draws the level of its node with the
  coins \<open>coin e i\<close>. A score that does not parse ends it with an error; what has been
  added until then stays.
\<close>

fun zadd_loop :: "env \<Rightarrow> zadd_opts \<Rightarrow> nat \<Rightarrow> string list \<Rightarrow> int \<Rightarrow> int \<Rightarrow> zset \<Rightarrow> (int \<times> int) option \<times> zset" where
  "zadd_loop e opts i (s # m # rest) added changed z =
     (case parseScore s of
        None \<Rightarrow> (None, z)
      | Some sc \<Rightarrow>
          if zadd_skips opts sc (ZSet_Score m z) then zadd_loop e opts (Suc i) rest added changed z
          else case ZSet_Add (randomLevel (coin e i)) sc m z of (wasNew, z) \<Rightarrow>
            if wasNew then zadd_loop e opts (Suc i) rest (added + 1) changed z
            else zadd_loop e opts (Suc i) rest added (changed + 1) z)"
| "zadd_loop e opts i args added changed z = (Some (added, changed), z)"

definition no_zadd_opts :: zadd_opts where
  "no_zadd_opts = \<lparr>zNX = False, zXX = False, zGT = False, zLT = False, zCH = False\<rparr>"

definition zFloatErr :: resp_value where "zFloatErr = errResp ''ERR value is not a valid float''"

definition cmdZAdd :: handler where
  "cmdZAdd e args d =
     (if length args < 3 then Ret (wrongArgCount ''ZADD'', d)
      else or_reply (getOrCreateZSet e (ArgStr args 0) d) (\<lambda>a d.
        case zadd_options (tl args) no_zadd_opts of (opts, pairs) \<Rightarrow>
          if length pairs mod 2 \<noteq> 0 then Ret (syntaxErr, d)
          else case zadd_loop e opts 0 pairs 0 0 (zset_at d a) of (r, z) \<Rightarrow>
            Ret (case r of
                None \<Rightarrow> zFloatErr
              | Some (added, changed) \<Rightarrow> intResp (if zCH opts then added + changed else added),
              put_cell a (CZSet z) d)))"

section \<open>Other updates\<close>

fun zrem_loop :: "string list \<Rightarrow> int \<Rightarrow> zset \<Rightarrow> int \<times> zset" where
  "zrem_loop [] removed z = (removed, z)"
| "zrem_loop (m # ms) removed z =
     (case ZSet_Remove m z of (gone, z) \<Rightarrow> zrem_loop ms (if gone then removed + 1 else removed) z)"

definition cmdZRem :: handler where
  "cmdZRem e args d =
     (if length args < 2 then Ret (wrongArgCount ''ZREM'', d)
      else or_reply (getZSet e (ArgStr args 0) d) (\<lambda>r d. case r of
          None \<Rightarrow> Ret (intResp 0, d)
        | Some a \<Rightarrow>
            (case zrem_loop (tl args) 0 (zset_at d a) of (removed, z) \<Rightarrow>
               Ret (intResp removed, drop_empty (ArgStr args 0) (ZSet_Len z = 0) (put_cell a (CZSet z) d)))))"

definition cmdZIncrBy :: handler where
  "cmdZIncrBy e args d =
     (if length args \<noteq> 3 then Ret (wrongArgCount ''ZINCRBY'', d)
      else case parseScore (ArgStr args 1) of
        None \<Rightarrow> Ret (zFloatErr, d)
      | Some delta \<Rightarrow>
          or_reply (getOrCreateZSet e (ArgStr args 0) d) (\<lambda>a d.
            let m = ArgStr args 2; z = zset_at d a;
                cur = (case ZSet_Score m z of None \<Rightarrow> 0 | Some sc \<Rightarrow> sc);
                newScore = f_add cur delta in
            Ret (bulkResp (FormatFloat newScore),
                 put_cell a (CZSet (snd (ZSet_Add (randomLevel (coin e 0)) newScore m z))) d)))"

text \<open>Popping: the loop takes the first or the last node as often as asked, as long as there is one.\<close>

fun zpop_loop :: "(skiplist \<Rightarrow> nat option) \<Rightarrow> nat \<Rightarrow> zset \<Rightarrow> (string \<times> float64) list \<times> zset" where
  "zpop_loop pick 0 z = ([], z)"
| "zpop_loop pick (Suc n) z =
     (case pick (zlist z) of
        None \<Rightarrow> ([], z)
      | Some x \<Rightarrow>
          (case zpop_loop pick n (snd (ZSet_Remove (member (snodes (zlist z) x)) z)) of
             (es, z') \<Rightarrow> (entry (zlist z) x # es, z')))"

definition zpop_count :: "string list \<Rightarrow> int option" where
  "zpop_count args =
     (if length args \<ge> 2 then
        (case parsed (Atoi (ArgStr args 1)) of None \<Rightarrow> None | Some n \<Rightarrow> if n < 0 then None else Some n)
      else Some 1)"

definition zpop :: "string \<Rightarrow> (skiplist \<Rightarrow> nat option) \<Rightarrow> handler" where
  "zpop name pick e args d =
     (if length args < 1 then Ret (wrongArgCount name, d)
      else or_reply (getZSet e (ArgStr args 0) d) (\<lambda>r d. case r of
          None \<Rightarrow> Ret (array_value [], d)
        | Some a \<Rightarrow>
            (case zpop_count args of
               None \<Rightarrow> Ret (notIntErr, d)
             | Some n \<Rightarrow>
                 (case zpop_loop pick (nat n) (zset_at d a) of (result, z) \<Rightarrow>
                    Ret (zsetEntriesToResp result True,
                         drop_empty (ArgStr args 0) (ZSet_Len z = 0) (put_cell a (CZSet z) d))))))"

definition cmdZPopMin :: handler where "cmdZPopMin = zpop ''ZPOPMIN'' First"
definition cmdZPopMax :: handler where "cmdZPopMax = zpop ''ZPOPMAX'' Last"

section \<open>Reading one member\<close>

definition cmdZScore :: handler where
  "cmdZScore e args d =
     (if length args \<noteq> 2 then Ret (wrongArgCount ''ZSCORE'', d)
      else or_reply (getZSet e (ArgStr args 0) d) (\<lambda>r d. case r of
          None \<Rightarrow> Ret (nullBulkResp, d)
        | Some a \<Rightarrow> Ret (case ZSet_Score (ArgStr args 1) (zset_at d a) of
              None \<Rightarrow> nullBulkResp | Some sc \<Rightarrow> bulkResp (FormatFloat sc), d)))"

definition zrank :: "string \<Rightarrow> (string \<Rightarrow> zset \<Rightarrow> int option) \<Rightarrow> handler" where
  "zrank name f e args d =
     (if length args \<noteq> 2 then Ret (wrongArgCount name, d)
      else or_reply (getZSet e (ArgStr args 0) d) (\<lambda>r d. case r of
          None \<Rightarrow> Ret (nullBulkResp, d)
        | Some a \<Rightarrow> Ret (case f (ArgStr args 1) (zset_at d a) of None \<Rightarrow> nullBulkResp | Some n \<Rightarrow> intResp n, d)))"

definition cmdZRank :: handler where "cmdZRank = zrank ''ZRANK'' ZSet_Rank"
definition cmdZRevRank :: handler where "cmdZRevRank = zrank ''ZREVRANK'' ZSet_RevRank"

definition cmdZCard :: handler where
  "cmdZCard e args d =
     (if length args \<noteq> 1 then Ret (wrongArgCount ''ZCARD'', d)
      else or_reply (getZSet e (ArgStr args 0) d) (\<lambda>r d. case r of
          None \<Rightarrow> Ret (intResp 0, d) | Some a \<Rightarrow> Ret (intResp (ZSet_Len (zset_at d a)), d)))"

section \<open>Ranges\<close>

text \<open>The bounds of a range of ranks, as the two commands compute them from 64-bit indices.\<close>

definition zrange_bounds :: "int \<Rightarrow> int \<Rightarrow> int \<Rightarrow> int \<times> int" where
  "zrange_bounds n start stop =
     (let start = (if start < 0 then n + start else start);
          stop = (if stop < 0 then n + stop else stop);
          start = (if start < 0 then 0 else start);
          stop = (if n \<le> stop then n - 1 else stop)
      in (wrap64 (start + 1), wrap64 (stop + 1)))"

definition zrevrange_bounds :: "int \<Rightarrow> int \<Rightarrow> int \<Rightarrow> int \<times> int" where
  "zrevrange_bounds n start stop =
     (let start = (if start < 0 then n + start else start);
          stop = (if stop < 0 then n + stop else stop);
          revStart = wrap64 (n - 1 - stop);
          revStop = wrap64 (n - 1 - start);
          revStart = (if revStart < 0 then 0 else revStart);
          revStop = (if n \<le> revStop then n - 1 else revStop)
      in (wrap64 (revStart + 1), wrap64 (revStop + 1)))"

definition with_scores_at :: "string list \<Rightarrow> bool" where
  "with_scores_at args \<longleftrightarrow> 4 \<le> length args \<and> ToUpper (ArgStr args 3) = ''WITHSCORES''"

definition cmdZRange :: handler where
  "cmdZRange e args d =
     (if length args < 3 then Ret (wrongArgCount ''ZRANGE'', d)
      else or_reply (getZSet e (ArgStr args 0) d) (\<lambda>r d. case r of
          None \<Rightarrow> Ret (array_value [], d)
        | Some a \<Rightarrow>
            (case (parsed (Atoi (ArgStr args 1)), parsed (Atoi (ArgStr args 2))) of
               (Some start, Some stop) \<Rightarrow>
                 (case zrange_bounds (ZSet_Len (zset_at d a)) start stop of (start, stop) \<Rightarrow>
                    Ret (zsetEntriesToResp (RangeByRank start stop (zlist (zset_at d a))) (with_scores_at args), d))
             | _ \<Rightarrow> Ret (notIntErr, d))))"

definition cmdZRevRange :: handler where
  "cmdZRevRange e args d =
     (if length args < 3 then Ret (wrongArgCount ''ZREVRANGE'', d)
      else or_reply (getZSet e (ArgStr args 0) d) (\<lambda>r d. case r of
          None \<Rightarrow> Ret (array_value [], d)
        | Some a \<Rightarrow>
            (case (parsed (Atoi (ArgStr args 1)), parsed (Atoi (ArgStr args 2))) of
               (Some start, Some stop) \<Rightarrow>
                 (case zrevrange_bounds (ZSet_Len (zset_at d a)) start stop of (start, stop) \<Rightarrow>
                    Ret (zsetEntriesToResp (rev (RangeByRank start stop (zlist (zset_at d a)))) (with_scores_at args), d))
             | _ \<Rightarrow> Ret (notIntErr, d))))"

text \<open>\<open>LIMIT offset count\<close>; an error gives the count 0, which stands for all entries.\<close>

fun parseLimitClause :: "string list \<Rightarrow> int \<times> int \<times> bool" where
  "parseLimitClause [] = (0, - 1, False)"
| "parseLimitClause (a # rest) =
     (if ToUpper a = ''LIMIT'' then
        (case rest of
           x # y # others \<Rightarrow>
             (case parsed (Atoi x) of
                None \<Rightarrow> (0, 0, True)
              | Some offset \<Rightarrow>
                  (case parsed (Atoi y) of None \<Rightarrow> (0, 0, True) | Some cnt \<Rightarrow> (offset, cnt, False)))
         | _ \<Rightarrow> (0, 0, True))
      else parseLimitClause rest)"

definition minMaxErr :: resp_value where "minMaxErr = errResp ''ERR min or max is not a float''"

text \<open>The two commands differ in the order of the bounds and in the direction.\<close>

definition zrange_by_score :: "string \<Rightarrow> (float64 \<Rightarrow> float64 \<Rightarrow> int \<Rightarrow> int \<Rightarrow> skiplist \<Rightarrow> (string \<times> float64) list) \<Rightarrow> handler" where
  "zrange_by_score name f e args d =
     (if length args < 3 then Ret (wrongArgCount name, d)
      else or_reply (getZSet e (ArgStr args 0) d) (\<lambda>r d. case r of
          None \<Rightarrow> Ret (array_value [], d)
        | Some a \<Rightarrow>
            (case parseScoreRange (ArgStr args 1) (ArgStr args 2) of
               None \<Rightarrow> Ret (minMaxErr, d)
             | Some (lo, hi) \<Rightarrow>
                 let withScores = list_ex (\<lambda>s. ToUpper s = ''WITHSCORES'') (drop 3 args) in
                 (case parseLimitClause (drop 3 args) of (offset, cnt, err) \<Rightarrow>
                    Ret (zsetEntriesToResp (f lo hi offset cnt (zlist (zset_at d a))) withScores, d)))))"

definition cmdZRangeByScore :: handler where
  "cmdZRangeByScore = zrange_by_score ''ZRANGEBYSCORE'' RangeByScore"
definition cmdZRevRangeByScore :: handler where
  "cmdZRevRangeByScore = zrange_by_score ''ZREVRANGEBYSCORE'' RevRangeByScore"

definition cmdZCount :: handler where
  "cmdZCount e args d =
     (if length args \<noteq> 3 then Ret (wrongArgCount ''ZCOUNT'', d)
      else or_reply (getZSet e (ArgStr args 0) d) (\<lambda>r d. case r of
          None \<Rightarrow> Ret (intResp 0, d)
        | Some a \<Rightarrow>
            (case parseScoreRange (ArgStr args 1) (ArgStr args 2) of
               None \<Rightarrow> Ret (minMaxErr, d)
             | Some (mn, mx) \<Rightarrow> Ret (intResp (CountByScore mn mx (zlist (zset_at d a))), d))))"

section \<open>Lexical ranges\<close>

definition bound_text :: "string \<Rightarrow> string" where
  "bound_text s = (case s of c # rest \<Rightarrow> if [c] = ''('' \<or> [c] = ''['' then rest else s | [] \<Rightarrow> [])"

definition bound_excl :: "string \<Rightarrow> bool" where
  "bound_excl s \<longleftrightarrow> (case s of c # rest \<Rightarrow> [c] = ''('' | [] \<Rightarrow> False)"

definition lexInRange :: "string \<Rightarrow> string \<Rightarrow> string \<Rightarrow> bool" where
  "lexInRange m minStr maxStr =
     (if minStr = ''-'' \<and> maxStr = ''+'' then True
      else let mn = bound_text minStr; mx = bound_text maxStr in
        if mn \<noteq> ''-'' \<and> (if bound_excl minStr then m \<le> mn else m < mn) then False
        else if mx \<noteq> ''+'' \<and> (if bound_excl maxStr then mx \<le> m else mx < m) then False
        else True)"

text \<open>The insertion sort of the code: \<open>sift j s\<close> moves element \<open>j\<close> down by swaps.\<close>

fun sift :: "nat \<Rightarrow> string list \<Rightarrow> string list" where
  "sift 0 s = s"
| "sift (Suc j) s = (if s ! Suc j < s ! j then sift j (s[Suc j := s ! j, j := s ! Suc j]) else s)"

definition sortStrings :: "string list \<Rightarrow> string list" where
  "sortStrings s = fold sift [1..<length s] s"

definition cmdZRangeByLex :: handler where
  "cmdZRangeByLex e args d =
     (if length args < 3 then Ret (wrongArgCount ''ZRANGEBYLEX'', d)
      else or_reply (getZSet e (ArgStr args 0) d) (\<lambda>r d. case r of
          None \<Rightarrow> Ret (array_value [], d)
        | Some a \<Rightarrow>
            let members = iter e (map fst (zscores (zset_at d a)));
                result = filter (\<lambda>m. lexInRange m (ArgStr args 1) (ArgStr args 2)) members
            in Ret (stringsToArray (sortStrings result), d)))"

end
