(* ===== verification/Cmd_ZSet_Correct.thy ===== *)
theory Cmd_ZSet_Correct
  imports Cmd_ZSet
begin

text \<open>
  What the sorted set commands do to the abstract database. The scores of a key
  are a map from members to scores; \<open>listing\<close> is the one order in which the
  ranges see them. \<open>zsets_ok\<close> says that no sorted set has been given a NaN.
\<close>

section \<open>They keep the invariant\<close>

lemma ZSet_Add_wf [simp]: "map_wf (zscores z) \<Longrightarrow> map_wf (zscores (snd (ZSet_Add lv sc m z)))"
  by (simp add: ZSet_Add_def split: option.split)

lemma ZSet_Remove_wf [simp]: "map_wf (zscores z) \<Longrightarrow> map_wf (zscores (snd (ZSet_Remove m z)))"
  by (simp add: ZSet_Remove_def split: option.split)

lemma zadd_loop_wf: "map_wf (zscores z) \<Longrightarrow> map_wf (zscores (snd (zadd_loop e opts i ps added changed z)))"
proof (induction e opts i ps added changed z rule: zadd_loop.induct)
  case (1 e opts i s m rest added changed z)
  show ?case
  proof (cases "parseScore s")
    case (Some sc)
    obtain w z' where z': "ZSet_Add (randomLevel (coin e i)) sc m z = (w, z')" by fastforce
    then have "map_wf (zscores z')" using ZSet_Add_wf[OF "1.prems"] by (metis snd_conv)
    with 1 Some z' show ?thesis by simp
  qed (use 1 in simp)
qed simp_all

lemma zrem_loop_wf: "map_wf (zscores z) \<Longrightarrow> map_wf (zscores (snd (zrem_loop ms n z)))"
  by (induction ms n z rule: zrem_loop.induct) (auto simp: split_beta)

lemma zpop_loop_wf: "map_wf (zscores z) \<Longrightarrow> map_wf (zscores (snd (zpop_loop pick n z)))"
  by (induction pick n z rule: zpop_loop.induct) (auto simp: split_beta split: option.split)

lemma put_zset_wf: "wf_db d \<Longrightarrow> heap d a = Some (CZSet (zset_at d a)) \<Longrightarrow> map_wf (zscores z) \<Longrightarrow> wf_db (put_cell a (CZSet z) d)"
  by (rule zset_value.put_wf)

lemmas zset_puts = put_zset_wf drop_empty_wf zadd_loop_wf zrem_loop_wf zpop_loop_wf ZSet_Add_wf

lemma keeps_zpop: "keeps (zpop name pick)"
  by (rule keepsI) (auto simp: zpop_def split_beta intro!: getZSet_guards zset_puts split: option.split)

lemma keeps_zset_writers: "keeps cmdZAdd" "keeps cmdZRem" "keeps cmdZIncrBy" "keeps cmdZPopMin" "keeps cmdZPopMax"
proof -
  show "keeps cmdZAdd" "keeps cmdZRem" "keeps cmdZIncrBy"
    by (rule keepsI, auto simp: cmdZAdd_def cmdZRem_def cmdZIncrBy_def split_beta Let_def
        intro!: getOrCreateZSet_guards getZSet_guards zset_puts split: option.split)+
  show "keeps cmdZPopMin" "keeps cmdZPopMax" by (simp_all add: cmdZPopMin_def cmdZPopMax_def keeps_zpop)
qed

lemma reads_zrank: "reads (zrank name f)"
  by (rule readsI) (auto simp: zrank_def intro!: getZSet_guards split: option.split)

lemma reads_zrange_by_score: "reads (zrange_by_score name f)"
  by (rule readsI) (auto simp: zrange_by_score_def split_beta Let_def intro!: getZSet_guards split: option.split)

lemma reads_zset:
  "reads cmdZScore" "reads cmdZRank" "reads cmdZRevRank" "reads cmdZCard" "reads cmdZRange" "reads cmdZRevRange"
  "reads cmdZRangeByScore" "reads cmdZRevRangeByScore" "reads cmdZCount" "reads cmdZRangeByLex"
proof -
  show "reads cmdZScore" "reads cmdZCard" "reads cmdZRange" "reads cmdZRevRange" "reads cmdZCount" "reads cmdZRangeByLex"
    by (rule readsI, auto simp: cmdZScore_def cmdZCard_def cmdZRange_def cmdZRevRange_def cmdZCount_def cmdZRangeByLex_def
        split_beta Let_def intro!: getZSet_guards split: option.split)+
  show "reads cmdZRank" "reads cmdZRevRank" by (simp_all add: cmdZRank_def cmdZRevRank_def reads_zrank)
  show "reads cmdZRangeByScore" "reads cmdZRevRangeByScore"
    by (simp_all add: cmdZRangeByScore_def cmdZRevRangeByScore_def reads_zrange_by_score)
qed

lemmas keeps_zset = reads_zset[THEN reads_keeps] keeps_zset_writers

section \<open>The insertion sort\<close>

lemma insort_snoc:
  fixes z :: "'a::linorder"
  assumes "sorted (zs @ [z])"
  shows "insort x (zs @ [z]) = (if x < z then insort x zs @ [z] else zs @ [z, x])"
proof -
  have "insort x (zs @ [z]) = sort (x # zs @ [z])" using assms by (simp add: sorted_sort_id)
  also have "\<dots> = (if x < z then insort x zs @ [z] else zs @ [z, x])"
    using assms by (intro properties_for_sort) (auto simp: sorted_append sorted_insort set_insort_key)
  finally show ?thesis .
qed

lemma sift_insort:
  "sorted xs \<Longrightarrow> sift (length xs) (xs @ x # ys) = insort x xs @ ys"
proof (induction xs arbitrary: ys rule: rev_induct)
  case (snoc z zs)
  have s: "sorted zs" using snoc.prems by (simp add: sorted_append)
  have n: "(zs @ z # x # ys) ! Suc (length zs) = x" "(zs @ z # x # ys) ! length zs = z"
    by (simp_all add: nth_append)
  have u: "(zs @ z # x # ys)[Suc (length zs) := z, length zs := x] = zs @ x # z # ys"
    by (simp add: list_update_append)
  have "sift (length (zs @ [z])) ((zs @ [z]) @ x # ys) =
    (if x < z then sift (length zs) (zs @ x # z # ys) else zs @ z # x # ys)"
    by (simp add: n u)
  also have "\<dots> = insort x (zs @ [z]) @ ys"
    using snoc.IH[OF s, of "z # ys"] insort_snoc[OF snoc.prems, of x] by simp
  finally show ?case .
qed simp

lemma sortStrings_prefix:
  "n \<le> length s \<Longrightarrow> n \<noteq> 0 \<Longrightarrow> fold sift [1..<n] s = sort (take n s) @ drop n s"
proof (induction n)
  case (Suc n)
  show ?case
  proof (cases "n = 0")
    case True
    with Suc.prems show ?thesis by (cases s) simp_all
  next
    case False
    have d: "drop n s = s ! n # drop (Suc n) s" using Suc.prems by (simp add: Cons_nth_drop_Suc)
    have t: "take (Suc n) s = take n s @ [s ! n]" using Suc.prems by (simp add: take_Suc_conv_app_nth)
    have "fold sift [1..<Suc n] s = sift n (fold sift [1..<n] s)" using False by simp
    also have "\<dots> = sift (length (sort (take n s))) (sort (take n s) @ s ! n # drop (Suc n) s)"
      using Suc False d by simp
    also have "\<dots> = insort (s ! n) (sort (take n s)) @ drop (Suc n) s" by (rule sift_insort) simp
    also have "insort (s ! n) (sort (take n s)) = sort (take (Suc n) s)"
      unfolding t by (rule properties_for_sort[symmetric]) (simp_all add: sorted_insort)
    finally show ?thesis .
  qed
qed simp

lemma sortStrings_sort: "sortStrings s = sort s"
  using sortStrings_prefix[of "length s" s] by (cases "s = []") (simp_all add: sortStrings_def)

section \<open>Ranges of ranks\<close>

lemma zrange_slice:
  assumes "sl_view sl es" and "int64_range start" "int64_range stop" and "start \<noteq> max_int64"
    and "int (length es) \<le> max_int64"
  shows "(case zrange_bounds (int (length es)) start stop of (a, b) \<Rightarrow> RangeByRank a b sl) = seq_slice start stop es"
proof -
  let ?n = "int (length es)"
  let ?i = "max 0 (if start < 0 then ?n + start else start)" and ?j = "min (?n - 1) (if stop < 0 then ?n + stop else stop)"
  have "zrange_bounds ?n start stop = (?i + 1, ?j + 1)"
    using assms(2-5) unfolding zrange_bounds_def Let_def
    by (intro arg_cong2[of _ _ _ _ Pair]; subst wrap64_id) (auto simp: int64_defs)
  moreover have "RangeByRank (?i + 1) (?j + 1) sl = seq_slice start stop es"
  proof -
    have "max 1 (?i + 1) = ?i + 1" "min (?j + 1) ?n = ?j + 1" by auto
    then show ?thesis unfolding RangeByRank_rel[OF assms(1)] Let_def seq_slice_def
      by (simp add: algebra_simps)
  qed
  ultimately show ?thesis by simp
qed

lemma slice_rev:
  fixes i j :: int
  assumes "0 \<le> i" and "i \<le> j" and "j < int (length xs)"
  shows "rev (take (nat (j - i + 1)) (drop (nat (int (length xs) - 1 - j)) xs)) = take (nat (j - i + 1)) (drop (nat i) (rev xs))"
proof -
  obtain a b where a: "i = int a" and b: "j = int b"
    using assms by (metis nonneg_int_cases order_trans)
  have ab: "a \<le> b" "b < length xs" using assms a b by auto
  have n: "nat (j - i + 1) = Suc b - a" "nat (int (length xs) - 1 - j) = length xs - 1 - b" "nat i = a"
    using ab a b by auto
  have e: "length xs - a - (Suc b - a) = length xs - 1 - b" "length xs - a - (length xs - 1 - b) = Suc b - a" using ab by auto
  have "take (Suc b - a) (drop a (rev xs)) = rev (drop (length xs - 1 - b) (take (length xs - a) xs))"
  proof -
    have "length (take (length xs - a) xs) = length xs - a" by simp
    then show ?thesis by (simp only: drop_rev take_rev e(1))
  qed
  also have "drop (length xs - 1 - b) (take (length xs - a) xs) = take (Suc b - a) (drop (length xs - 1 - b) xs)"
    by (simp only: drop_take e(2))
  finally show ?thesis unfolding n by simp
qed

lemma zrevrange_slice:
  assumes "sl_view sl es" and "int64_range start" "int64_range stop" and "stop \<noteq> min_int64"
    and "int (length es) \<le> max_int64"
  shows "rev (case zrevrange_bounds (int (length es)) start stop of (a, b) \<Rightarrow> RangeByRank a b sl) = seq_slice start stop (rev es)"
proof -
  let ?n = "int (length es)"
  let ?s = "if start < 0 then ?n + start else start" and ?t = "if stop < 0 then ?n + stop else stop"
  let ?i = "max 0 ?s" and ?j = "min (?n - 1) ?t"
  have w: "wrap64 (?n - 1 - ?t) = ?n - 1 - ?t" "wrap64 (?n - 1 - ?s) = ?n - 1 - ?s"
    using assms(2-5) by (auto simp: int64_defs intro!: wrap64_id)
  have "zrevrange_bounds ?n start stop = (?n - ?j, ?n - ?i)"
    using assms(2-5) unfolding zrevrange_bounds_def Let_def w
    by (intro arg_cong2[of _ _ _ _ Pair]; subst wrap64_id) (auto simp: int64_defs)
  moreover have "rev (RangeByRank (?n - ?j) (?n - ?i) sl) = seq_slice start stop (rev es)"
  proof -
    obtain i j where ij: "i = ?i" "j = ?j" by simp
    have sl: "seq_slice start stop (rev es) = (if j < i then [] else take (nat (j - i + 1)) (drop (nat i) (rev es)))"
      by (rule seq_slice_eq) (simp_all add: ij)
    have b: "0 \<le> i" "j < ?n" by (auto simp: ij)
    then have m: "max 1 (?n - j) = ?n - j" "min (?n - i) ?n = ?n - i" by auto
    have "nat (?n - i - (?n - j) + 1) = nat (j - i + 1)" "nat (?n - j - 1) = nat (?n - 1 - j)" by simp_all
    then have "rev (RangeByRank (?n - j) (?n - i) sl) = seq_slice start stop (rev es)"
      unfolding RangeByRank_rel[OF assms(1)] Let_def m sl using slice_rev[of i j es] b by auto
    then show ?thesis unfolding ij .
  qed
  ultimately show ?thesis by simp
qed

text \<open>The two indices left out wrap around, and the whole set is the range.\<close>

lemma range_wraps:
  assumes "sl_view sl es" and "int (length es) \<le> max_int64"
  shows "(case zrange_bounds (int (length es)) max_int64 (- 1) of (a, b) \<Rightarrow> RangeByRank a b sl) = es"
    and "(case zrevrange_bounds (int (length es)) 0 min_int64 of (a, b) \<Rightarrow> RangeByRank a b sl) = es"
proof -
  let ?n = "int (length es)"
  have "?n < 2 ^ 63" using assms(2) by (simp add: int64_defs)
  then have "zrange_bounds ?n max_int64 (- 1) = (min_int64, ?n)" "zrevrange_bounds ?n 0 min_int64 = (min_int64, ?n)"
    by (simp_all add: zrange_bounds_def zrevrange_bounds_def Let_def int64_defs wrap64_def)
  then show "(case zrange_bounds ?n max_int64 (- 1) of (a, b) \<Rightarrow> RangeByRank a b sl) = es"
    "(case zrevrange_bounds ?n 0 min_int64 of (a, b) \<Rightarrow> RangeByRank a b sl) = es"
    by (auto simp: RangeByRank_rel[OF assms(1)] int64_defs)
qed

section \<open>What a sorted set command sees of a key\<close>

definition zset_of :: "(string \<rightharpoonup> lval \<times> int option) \<Rightarrow> string \<Rightarrow> (string \<rightharpoonup> float64) option" where
  "zset_of ks k = (case ks k of None \<Rightarrow> Some Map.empty | Some (LZSet s, t) \<Rightarrow> Some s | Some _ \<Rightarrow> None)"

definition put_zset :: "(string \<rightharpoonup> lval \<times> int option) \<Rightarrow> string \<Rightarrow> (string \<rightharpoonup> float64) \<Rightarrow> string \<rightharpoonup> lval \<times> int option" where
  "put_zset ks k s = ks(k := if s = Map.empty then None else Some (LZSet s, expiry_of ks k))"

interpretation zsets: collection TypeZSet CZSet NewZSet "\<lambda>z. map_wf (zscores z)" zset_at zset_of put_zset
  "\<lambda>z. map_of (zscores z)" Map.empty "\<lambda>z. zscores z = []"
  by unfold_locales (auto simp: zset_of_def put_zset_def map_empty_iff fun_eq_iff NewZSet_def split: lval.split)

definition zsets_ok :: "db \<Rightarrow> bool" where
  "zsets_ok d \<longleftrightarrow> (\<forall>a z. heap d a = Some (CZSet z) \<longrightarrow> (\<exists>es. zset_rel z es))"

text \<open>The entries of a map of scores in the order of the set: there is only one.\<close>

definition listing :: "(string \<rightharpoonup> float64) \<Rightarrow> (string \<times> float64) list \<Rightarrow> bool" where
  "listing s es \<longleftrightarrow> sorted_wrt (<) (map ekey es) \<and> distinct (map fst es) \<and> map_of es = s"

lemma listing_unique:
  assumes "listing s es" and "listing s es'"
  shows "es = es'"
proof -
  have "set es = set es'"
    using assms unfolding listing_def by (metis map_of_eqI map_of_inject_set)
  moreover have "inj_on ekey (set es \<union> set es')"
  proof -
    have "distinct (map ekey es)" using assms(1) by (metis listing_def strict_sorted_iff)
    with calculation show ?thesis by (simp add: distinct_map)
  qed
  ultimately have "map ekey es = map ekey es'"
    using assms by (intro sorted_distinct_set_unique) (auto simp: listing_def strict_sorted_iff)
  with \<open>inj_on ekey (set es \<union> set es')\<close> show ?thesis by (metis map_inj_on)
qed

lemma zset_rel_facts:
  assumes "zset_rel z es"
  shows "map_of (zscores z) = map_of es" "ZSet_Len z = int (length es)" "map_wf (zscores z)" "sl_view (zlist z) es"
    "listing (map_of es) es" "ZSet_Len z = 0 \<longleftrightarrow> zscores z = []"
proof -
  show m: "map_of (zscores z) = map_of es" using ZSet_Score_rel[OF assms] by (intro ext) (simp add: ZSet_Score_def)
  show l: "ZSet_Len z = int (length es)" by (rule ZSet_Len_rel[OF assms])
  show "map_wf (zscores z)" "sl_view (zlist z) es" using assms by (simp_all add: zset_rel_def)
  show "listing (map_of es) es"
    using zset_model.sorted[OF assms] by (simp add: listing_def)
  have "es = [] \<longleftrightarrow> zscores z = []" unfolding map_empty_iff using m by simp
  with l show "ZSet_Len z = 0 \<longleftrightarrow> zscores z = []" by simp
qed

text \<open>The rules of the container in these terms.\<close>

lemma zsets_ok_put: "zsets_ok d \<Longrightarrow> zset_rel z es \<Longrightarrow> zsets_ok (put_cell a (CZSet z) d)"
  by (auto simp: zsets_ok_def)

lemma zsets_ok_drop [simp]: "zsets_ok (drop_empty k b d) = zsets_ok d"
  by (simp add: zsets_ok_def drop_empty_def del: db_Del.simps)

lemma zset_read:
  assumes "wf_db d" and "zsets_ok d"
    and "\<And>d'. wf_db d' \<Longrightarrow> keyspace e d' = keyspace e d \<Longrightarrow> zset_of (keyspace e d) k = None \<Longrightarrow> Q (Inl wrongTypeErr, d')"
    and "\<And>d'. wf_db d' \<Longrightarrow> keyspace e d' = keyspace e d \<Longrightarrow> zset_of (keyspace e d) k = Some Map.empty \<Longrightarrow> Q (Inr None, d')"
    and "\<And>d' a z es. wf_db d' \<Longrightarrow> keyspace e d' = keyspace e d \<Longrightarrow> zset_at d' a = z \<Longrightarrow> zset_rel z es \<Longrightarrow>
      zset_of (keyspace e d) k = Some (map_of es) \<Longrightarrow> Q (Inr (Some a), d')"
  shows "returns (getZSet e k d) Q"
proof -
  have "returns (get_value TypeZSet e k d) (\<lambda>x. (\<lambda>(r, d'). heap d' = heap d) x \<longrightarrow> Q x)"
  proof (rule zsets.read_content[OF assms(1)], goal_cases)
    case (3 d' a z)
    show ?case
    proof (clarsimp)
      assume "heap d' = heap d"
      with 3(3) assms(2) obtain es where es: "zset_rel z es" unfolding zsets_ok_def by metis
      from assms(5)[OF 3(1,2,5) es] 3(6) zset_rel_facts(1)[OF es] show "Q (Inr (Some a), d')" by simp
    qed
  qed (use assms(3,4) in auto)
  then show ?thesis unfolding getZSet_def by (rule returns_mp[OF zset_value.get_value_heap[OF assms(1)]])
qed

lemma zset_modify:
  assumes "wf_db d" and "alone d k" and "zsets_ok d"
    and "\<And>d'. wf_db d' \<Longrightarrow> keyspace e d' = keyspace e d \<Longrightarrow> zsets_ok d' \<Longrightarrow> zset_of (keyspace e d) k = None \<Longrightarrow> Q (Inl wrongTypeErr, d')"
    and "\<And>d'. wf_db d' \<Longrightarrow> keyspace e d' = keyspace e d \<Longrightarrow> zsets_ok d' \<Longrightarrow> put_zset (keyspace e d) k Map.empty = keyspace e d \<Longrightarrow>
      zset_of (keyspace e d) k = Some Map.empty \<Longrightarrow> Q (Inr None, d')"
    and "\<And>d' a z es. wf_db d' \<Longrightarrow> keyspace e d' = keyspace e d \<Longrightarrow> zset_at d' a = z \<Longrightarrow> zset_rel z es \<Longrightarrow>
      zset_of (keyspace e d) k = Some (map_of es) \<Longrightarrow>
      (\<And>z' es'. zset_rel z' es' \<Longrightarrow>
        keyspace e (drop_empty k (ZSet_Len z' = 0) (put_cell a (CZSet z') d')) = put_zset (keyspace e d) k (map_of es')
        \<and> wf_db (drop_empty k (ZSet_Len z' = 0) (put_cell a (CZSet z') d'))
        \<and> zsets_ok (drop_empty k (ZSet_Len z' = 0) (put_cell a (CZSet z') d'))) \<Longrightarrow> Q (Inr (Some a), d')"
  shows "returns (getZSet e k d) Q"
proof -
  have "returns (get_value TypeZSet e k d) (\<lambda>x. (\<lambda>(r, d'). heap d' = heap d) x \<longrightarrow> Q x)"
  proof (rule zsets.modify_content[OF assms(1,2)], goal_cases)
    case (3 d' a z)
    show ?case
    proof (clarsimp)
      assume h: "heap d' = heap d"
      with 3(3) assms(3) obtain es where es: "zset_rel z es" unfolding zsets_ok_def by metis
      have ok: "zsets_ok d'" using assms(3) h by (simp add: zsets_ok_def)
      show "Q (Inr (Some a), d')"
      proof (rule assms(6)[OF 3(1,2,5) es])
        show "zset_of (keyspace e d) k = Some (map_of es)" using 3(6) zset_rel_facts(1)[OF es] by simp
        fix z' es' assume z': "zset_rel z' es'"
        note f = zset_rel_facts[OF z']
        show "keyspace e (drop_empty k (ZSet_Len z' = 0) (put_cell a (CZSet z') d')) = put_zset (keyspace e d) k (map_of es')
            \<and> wf_db (drop_empty k (ZSet_Len z' = 0) (put_cell a (CZSet z') d'))
            \<and> zsets_ok (drop_empty k (ZSet_Len z' = 0) (put_cell a (CZSet z') d'))"
          unfolding f(6) using 3(7)[OF f(3)] f(1) zsets_ok_put[OF ok z', of a] by simp
      qed
    qed
  next
    case (1 d')
    then show ?case using assms(3,4) by (auto simp: zsets_ok_def)
  next
    case (2 d')
    then show ?case using assms(3,5) by (auto simp: zsets_ok_def)
  qed
  then show ?thesis unfolding getZSet_def by (rule returns_mp[OF zset_value.get_value_heap[OF assms(1)]])
qed

text \<open>The lookup for writing. What is stored is not tested for emptiness.\<close>

lemma zset_create:
  assumes "wf_db d" and "alone d k" and "zsets_ok d"
    and "\<And>d'. wf_db d' \<Longrightarrow> keyspace e d' = keyspace e d \<Longrightarrow> zsets_ok d' \<Longrightarrow> zset_of (keyspace e d) k = None \<Longrightarrow> Q (Inl wrongTypeErr, d')"
    and "\<And>d' a z es. wf_db d' \<Longrightarrow> zset_at d' a = z \<Longrightarrow> zset_rel z es \<Longrightarrow> zset_of (keyspace e d) k = Some (map_of es) \<Longrightarrow>
      (\<And>z' es'. zset_rel z' es' \<Longrightarrow>
        keyspace e (put_cell a (CZSet z') d') = (keyspace e d)(k \<mapsto> (LZSet (map_of es'), expiry_of (keyspace e d) k))
        \<and> wf_db (put_cell a (CZSet z') d') \<and> zsets_ok (put_cell a (CZSet z') d')) \<Longrightarrow> Q (Inr a, d')"
  shows "returns (getOrCreateZSet e k d) Q"
proof -
  have ok: "zsets_ok d'" if "heap d' = heap d \<or> (\<exists>b. heap d' = (heap d)(b \<mapsto> CZSet NewZSet))" for d'
    using that assms(3) zset_rel_New by (auto simp: zsets_ok_def split: if_splits)
  have "returns (get_or_create TypeZSet (CZSet NewZSet) e k d)
    (\<lambda>x. (\<lambda>(r, d'). heap d' = heap d \<or> (\<exists>b. heap d' = (heap d)(b \<mapsto> CZSet NewZSet))) x \<longrightarrow> Q x)"
  proof (rule zset_value.create_modify[OF assms(1,2)], goal_cases)
    case (1 d' v t)
    then have "zset_of (keyspace e d) k = None" using zsets.content_wrong[of "keyspace e d" k v t] by blast
    with 1 ok[of d'] assms(4)[of d'] show ?case by auto
  next
    case (2 d' a z t)
    have t: "expiry_of (keyspace e d) k = t" using 2(5) by (auto simp: expiry_of_def)
    have c: "zset_of (keyspace e d) k = Some (map_of (zscores z))"
      using 2(5) by (auto simp: zset_of_def NewZSet_def)
    show ?case
    proof (rule impI, simp only: prod.case)
      assume h: "heap d' = heap d \<or> (\<exists>b. heap d' = (heap d)(b \<mapsto> CZSet NewZSet))"
      from ok[OF h] 2(2) obtain es where es: "zset_rel z es" unfolding zsets_ok_def by metis
      show "Q (Inr a, d')"
      proof (rule assms(5)[OF 2(1,4) es])
        show "zset_of (keyspace e d) k = Some (map_of es)" using c zset_rel_facts(1)[OF es] by simp
        fix z' es' assume z': "zset_rel z' es'"
        note f = zset_rel_facts[OF z']
        show "keyspace e (put_cell a (CZSet z') d') = (keyspace e d)(k \<mapsto> (LZSet (map_of es'), expiry_of (keyspace e d) k))
          \<and> wf_db (put_cell a (CZSet z') d') \<and> zsets_ok (put_cell a (CZSet z') d')"
          using 2(6)[of z'] zset_value.put_wf[OF 2(1,2) f(3)] zsets_ok_put[OF ok[OF h] z', of a] f(1) t by simp
      qed
    qed
  qed
  then show ?thesis unfolding getOrCreateZSet_def by (rule returns_mp[OF zset_value.get_or_create_heap[OF assms(1)]])
qed

section \<open>Updates\<close>

text \<open>\<open>ZADD\<close> on the map of scores.\<close>

fun score_pairs :: "string list \<Rightarrow> (string \<times> float64) list option" where
  "score_pairs (s # m # rest) =
     (case parseScore s of None \<Rightarrow> None | Some sc \<Rightarrow> map_option ((#) (m, sc)) (score_pairs rest))"
| "score_pairs args = Some []"

text \<open>Whether a pair is applied, and what the pairs do to a map of scores.\<close>

definition zadd_applies :: "zadd_opts \<Rightarrow> float64 \<Rightarrow> float64 option \<Rightarrow> bool" where
  "zadd_applies opts sc old =
     (case old of
        None \<Rightarrow> \<not> zXX opts
      | Some o1 \<Rightarrow> \<not> zNX opts \<and> (zGT opts \<longrightarrow> f_lt o1 sc) \<and> (zLT opts \<longrightarrow> f_lt sc o1))"

lemma zadd_skips_applies:
  "\<not> f_nan sc \<Longrightarrow> (\<And>o1. old = Some o1 \<Longrightarrow> \<not> f_nan o1) \<Longrightarrow> zadd_skips opts sc old \<longleftrightarrow> \<not> zadd_applies opts sc old"
  by (auto simp: zadd_skips_def zadd_applies_def f_cmp_defs split: option.split)

fun zadd_scores :: "zadd_opts \<Rightarrow> (string \<times> float64) list \<Rightarrow> int \<times> int \<Rightarrow> (string \<rightharpoonup> float64) \<Rightarrow> (int \<times> int) \<times> (string \<rightharpoonup> float64)" where
  "zadd_scores opts [] n s = (n, s)"
| "zadd_scores opts ((m, sc) # ps) n s =
     (if zadd_applies opts sc (s m)
      then zadd_scores opts ps (if s m = None then (fst n + 1, snd n) else (fst n, snd n + 1)) (s(m \<mapsto> sc))
      else zadd_scores opts ps n s)"

lemma zadd_loop_rel:
  "zset_rel z es \<Longrightarrow> score_pairs ps = Some qs \<Longrightarrow> list_all (\<lambda>q. \<not> f_nan (snd q)) qs \<Longrightarrow>
    \<exists>es'. zset_rel (snd (zadd_loop e opts i ps added changed z)) es'
      \<and> fst (zadd_loop e opts i ps added changed z) = Some (fst (zadd_scores opts qs (added, changed) (map_of es)))
      \<and> map_of es' = snd (zadd_scores opts qs (added, changed) (map_of es))"
proof (induction e opts i ps added changed z arbitrary: es qs rule: zadd_loop.induct)
  case (1 e opts i s m rest added changed z)
  obtain sc qs' where sc: "parseScore s = Some sc" "score_pairs rest = Some qs'" "qs = (m, sc) # qs'"
    using "1.prems"(2) by (auto split: option.splits)
  have nan: "\<not> f_nan sc" "list_all (\<lambda>q. \<not> f_nan (snd q)) qs'" using "1.prems"(3) sc(3) by simp_all
  have old: "ZSet_Score m z = map_of es m" by (rule ZSet_Score_rel[OF "1.prems"(1)])
  have "\<not> f_nan o1" if "map_of es m = Some o1" for o1
    using zset_entry_score[OF "1.prems"(1)] that ZSet_Score_rel[OF "1.prems"(1), of m] by (auto simp: ZSet_Score_def)
  note skips = zadd_skips_applies[OF nan(1) this, where opts = opts]
  show ?case
  proof (cases "zadd_skips opts sc (map_of es m)")
    case True
    with "1.IH"(1)[OF sc(1) _ "1.prems"(1) sc(2) nan(2)] sc old skips show ?thesis by simp
  next
    case False
    then have app: "zadd_applies opts sc (map_of es m)" using skips by simp
    obtain w z' where z': "ZSet_Add (randomLevel (coin e i)) sc m z = (w, z')" by fastforce
    note add = zset_model.add[OF "1.prems"(1) nan(1), of "coin e i" m] and lk = zset_model.add_lookup[OF "1.prems"(1) nan(1), of "coin e i" m]
    have w: "w = (map_of es m = None)" using add z' by (simp add: map_of_eq_None_iff)
    from lk obtain es1 where es1: "zset_rel z' es1" "map_of es1 = (map_of es)(m \<mapsto> sc)" using z' by auto
    show ?thesis
    proof (cases w)
      case True
      have "zadd_loop e opts i (s # m # rest) added changed z = zadd_loop e opts (Suc i) rest (added + 1) changed z'"
        "zadd_scores opts qs (added, changed) (map_of es) = zadd_scores opts qs' (added + 1, changed) (map_of es1)"
        using False app old sc(1,3) z' True w by (simp_all add: es1(2))
      then show ?thesis using "1.IH"(2)[OF sc(1) _ z'[symmetric] True es1(1) sc(2) nan(2)] False old by (simp only: simp_thms)
    next
      case nw: False
      have "zadd_loop e opts i (s # m # rest) added changed z = zadd_loop e opts (Suc i) rest added (changed + 1) z'"
        "zadd_scores opts qs (added, changed) (map_of es) = zadd_scores opts qs' (added, changed + 1) (map_of es1)"
        using False app old sc(1,3) z' nw w by (cases "map_of es m"; simp add: es1(2))+
      then show ?thesis using "1.IH"(3)[OF sc(1) _ z'[symmetric] nw es1(1) sc(2) nan(2)] False old by (simp only: simp_thms)
    qed
  qed
qed auto

lemma cmdZAdd_spec:
  assumes "wf_db d" and "alone d k" and "zsets_ok d" and "2 \<le> length args"
    and "zadd_options args no_zadd_opts = (opts, ps)" and "even (length ps)"
    and "score_pairs ps = Some qs" and "list_all (\<lambda>q. \<not> f_nan (snd q)) qs"
  shows "returns (cmdZAdd e (k # args) d) (\<lambda>(r, d'). wf_db d' \<and> zsets_ok d' \<and>
    (case zset_of (keyspace e d) k of
       None \<Rightarrow> r = wrongTypeErr \<and> keyspace e d' = keyspace e d
     | Some s \<Rightarrow> (case zadd_scores opts qs (0, 0) s of ((added, changed), s') \<Rightarrow>
         r = intResp (if zCH opts then added + changed else added)
         \<and> keyspace e d' = (keyspace e d)(k \<mapsto> (LZSet s', expiry_of (keyspace e d) k)))))"
proof -
  have n: "\<not> length (k # args) < 3" "\<not> length ps mod 2 \<noteq> 0" using assms(4,6) by auto
  have a: "ArgStr (k # args) 0 = k" "tl (k # args) = args" by (simp_all add: ArgStr_def)
  show ?thesis
    unfolding cmdZAdd_def if_not_P[OF n(1)] a assms(5) prod.case if_not_P[OF n(2)] returns_or_reply
  proof (rule zset_create[OF assms(1-3)], goal_cases)
    case (2 d' a z es)
    from zadd_loop_rel[OF 2(3) assms(7,8), of e opts 0 0 0] obtain es' where
      es': "zset_rel (snd (zadd_loop e opts 0 ps 0 0 z)) es'"
      "fst (zadd_loop e opts 0 ps 0 0 z) = Some (fst (zadd_scores opts qs (0, 0) (map_of es)))"
      "map_of es' = snd (zadd_scores opts qs (0, 0) (map_of es))" by blast
    from 2(5)[OF es'(1)] 2(2,4) es'(2,3) show ?case by (simp add: split_beta)
  qed auto
qed

lemma cmdZIncrBy_spec:
  assumes "wf_db d" and "alone d k" and "zsets_ok d" and "parseScore w = Some delta"
    and "\<And>s. zset_of (keyspace e d) k = Some s \<Longrightarrow> \<not> f_nan (f_add (case s m of None \<Rightarrow> 0 | Some sc \<Rightarrow> sc) delta)"
  shows "returns (cmdZIncrBy e [k, w, m] d) (\<lambda>(r, d'). wf_db d' \<and> zsets_ok d' \<and>
    (case zset_of (keyspace e d) k of
       None \<Rightarrow> r = wrongTypeErr \<and> keyspace e d' = keyspace e d
     | Some s \<Rightarrow> (let sc = f_add (case s m of None \<Rightarrow> 0 | Some sc \<Rightarrow> sc) delta in
         r = bulkResp (FormatFloat sc)
         \<and> keyspace e d' = (keyspace e d)(k \<mapsto> (LZSet (s(m \<mapsto> sc)), expiry_of (keyspace e d) k)))))"
proof -
  have a: "ArgStr [k, w, m] 0 = k" "ArgStr [k, w, m] 1 = w" "ArgStr [k, w, m] 2 = m" by (simp_all add: ArgStr_def)
  have n: "\<not> length [k, w, m] \<noteq> 3" by simp
  show ?thesis
    unfolding cmdZIncrBy_def if_not_P[OF n] a assms(4) option.case returns_or_reply
  proof (rule zset_create[OF assms(1-3)], goal_cases)
    case (2 d' b z es)
    let ?sc = "f_add (case map_of es m of None \<Rightarrow> 0 | Some sc \<Rightarrow> sc) delta"
    have old: "ZSet_Score m z = map_of es m" by (rule ZSet_Score_rel[OF 2(3)])
    obtain es' where es': "zset_rel (snd (ZSet_Add (randomLevel (coin e 0)) ?sc m z)) es'" "map_of es' = (map_of es)(m \<mapsto> ?sc)"
      using zset_model.add_lookup[OF 2(3) assms(5)[OF 2(4)], of "coin e 0" m] by blast
    from 2(5)[OF es'(1)] 2(2,4) old es'(2) show ?case by (simp add: Let_def)
  qed auto
qed

lemma zrem_loop_rel:
  "zset_rel z es \<Longrightarrow> \<exists>es'. zset_rel (snd (zrem_loop ms n z)) es' \<and> map_of es' = map_of es |` (- set ms)
    \<and> fst (zrem_loop ms n z) = n + int (card (set ms \<inter> dom (map_of es)))"
proof (induction ms n z arbitrary: es rule: zrem_loop.induct)
  case (2 m ms n z)
  obtain g z' where z': "ZSet_Remove m z = (g, z')" by fastforce
  obtain es1 where es1: "zset_rel z' es1" "map_of es1 = (map_of es)(m := None)"
    using zset_model.remove_lookup[OF "2.prems", of m] z' by auto
  have g: "g = (map_of es m \<noteq> None)"
    using zset_model.remove[OF "2.prems", of m] z' by (simp add: map_of_eq_None_iff)
  obtain es' where es': "zset_rel (snd (zrem_loop ms (if g then n + 1 else n) z')) es'" "map_of es' = map_of es1 |` (- set ms)"
    "fst (zrem_loop ms (if g then n + 1 else n) z') = (if g then n + 1 else n) + int (card (set ms \<inter> dom (map_of es1)))"
    using "2.IH"[OF z'[symmetric] es1(1)] by blast
  have "map_of es1 |` (- set ms) = map_of es |` (- set (m # ms))" by (auto simp: es1(2) restrict_map_def)
  moreover have "int (card (insert m (set ms) \<inter> dom (map_of es))) = (if g then 1 else 0) + int (card (set ms \<inter> dom (map_of es1)))"
  proof (cases g)
    case True
    have "insert m (set ms) \<inter> dom (map_of es) = insert m (set ms \<inter> dom (map_of es1))"
      using True g by (auto simp: es1(2) split: if_splits)
    moreover have "m \<notin> set ms \<inter> dom (map_of es1)" by (simp add: es1(2))
    ultimately show ?thesis using True by simp
  next
    case False
    have "insert m (set ms) \<inter> dom (map_of es) = set ms \<inter> dom (map_of es1)"
      using False g by (auto simp: es1(2) split: if_splits)
    then show ?thesis using False by simp
  qed
  ultimately show ?case using es' z' by (cases g) auto
next
  case (1 n z)
  have "map_of es |` UNIV = map_of es" by (simp add: restrict_map_def)
  with 1 show ?case by auto
qed

lemma cmdZRem_spec:
  assumes "wf_db d" and "alone d k" and "zsets_ok d" and "ms \<noteq> []"
  shows "returns (cmdZRem e (k # ms) d) (\<lambda>(r, d'). wf_db d' \<and> zsets_ok d' \<and>
    (case zset_of (keyspace e d) k of
       None \<Rightarrow> r = wrongTypeErr \<and> keyspace e d' = keyspace e d
     | Some s \<Rightarrow> r = intResp (int (card (set ms \<inter> dom s))) \<and> keyspace e d' = put_zset (keyspace e d) k (s |` (- set ms))))"
proof -
  have n: "\<not> length (k # ms) < 2" using assms(4) by (cases ms) auto
  have a: "ArgStr (k # ms) 0 = k" "tl (k # ms) = ms" by (simp_all add: ArgStr_def)
  show ?thesis
    unfolding cmdZRem_def if_not_P[OF n] a returns_or_reply
  proof (rule zset_modify[OF assms(1-3)], goal_cases)
    case (3 d' b z es)
    from zrem_loop_rel[OF 3(4), of ms 0] obtain es' where es': "zset_rel (snd (zrem_loop ms 0 z)) es'"
      "map_of es' = map_of es |` (- set ms)" "fst (zrem_loop ms 0 z) = 0 + int (card (set ms \<inter> dom (map_of es)))" by blast
    from 3(6)[OF es'(1)] 3(3,5) es'(2,3) show ?case by (simp add: split_beta)
  qed auto
qed

text \<open>Popping from either end.\<close>

lemma z_without_absent: "m \<notin> fst ` set ps \<Longrightarrow> z_without m ps = ps"
  unfolding z_without_def filter_id_conv by (metis imageI)

lemma distinct_keys_append:
  assumes "distinct (map fst (xs @ ys))"
  shows "(m, sc) \<in> set ys \<longleftrightarrow> (m, sc) \<in> set (xs @ ys) \<and> m \<notin> fst ` set xs"
proof -
  have "(m, sc) \<in> set ys \<Longrightarrow> m \<notin> fst ` set xs"
    using assms by (metis IntI distinct_append empty_iff fst_conv imageI map_append set_map)
  moreover have "(m, sc) \<in> set xs \<Longrightarrow> m \<in> fst ` set xs" by (metis fst_conv imageI)
  ultimately show ?thesis by auto
qed

lemma zpop_loop_First:
  "zset_rel z es \<Longrightarrow> fst (zpop_loop First n z) = take n es \<and> zset_rel (snd (zpop_loop First n z)) (drop n es)"
proof (induction n arbitrary: z es)
  case (Suc n)
  note f = First_Last_rel(1)[OF zset_rel_facts(4)[OF Suc.prems]]
  show ?case
  proof (cases es)
    case Nil
    with f have "First (zlist z) = None" by simp
    with Nil Suc.prems show ?thesis by simp
  next
    case (Cons p ps)
    with f obtain x where x: "First (zlist z) = Some x" "entry (zlist z) x = p" by auto
    have "fst p \<notin> fst ` set ps" using zset_rel_distinct[OF Suc.prems] Cons by simp
    then have "z_without (fst p) es = ps" using z_without_absent[of "fst p" ps] by (simp add: z_without_def Cons)
    then have "zset_rel (snd (ZSet_Remove (fst p) z)) ps" using zset_model.remove[OF Suc.prems, of "fst p"] by simp
    moreover have "member (snodes (zlist z) x) = fst p" using x(2) by (simp add: entry_def) (metis fst_conv)
    ultimately show ?thesis using Suc.IH[of _ ps] x Cons by (simp add: split_beta)
  qed
qed simp

lemma zpop_loop_Last:
  "zset_rel z es \<Longrightarrow> fst (zpop_loop Last n z) = take n (rev es) \<and> zset_rel (snd (zpop_loop Last n z)) (rev (drop n (rev es)))"
proof (induction n arbitrary: z es)
  case (Suc n)
  note f = First_Last_rel(2)[OF zset_rel_facts(4)[OF Suc.prems]]
  show ?case
  proof (cases es rule: rev_cases)
    case Nil
    with f have "Last (zlist z) = None" by simp
    with Nil Suc.prems show ?thesis by simp
  next
    case (snoc ps p)
    with f obtain x where x: "Last (zlist z) = Some x" "entry (zlist z) x = p" by auto
    have "fst p \<notin> fst ` set ps" using zset_rel_distinct[OF Suc.prems] snoc by simp
    then have "z_without (fst p) es = ps" using z_without_absent[of "fst p" ps] by (simp add: z_without_def snoc)
    then have "zset_rel (snd (ZSet_Remove (fst p) z)) ps" using zset_model.remove[OF Suc.prems, of "fst p"] by simp
    moreover have "member (snodes (zlist z) x) = fst p" using x(2) by (simp add: entry_def) (metis fst_conv)
    ultimately show ?thesis using Suc.IH[of _ ps] x snoc by (simp add: split_beta)
  qed
qed simp

lemma zpop_spec:
  assumes "wf_db d" and "alone d k" and "zsets_ok d" and "parsed (Atoi w) = Some n" and "0 \<le> n"
    and pop: "\<And>z es. zset_rel z es \<Longrightarrow> fst (zpop_loop pick (nat n) z) = take (nat n) (f es)
      \<and> zset_rel (snd (zpop_loop pick (nat n) z)) (f (drop (nat n) (f es)))"
    and perm: "\<And>es. mset (f es) = mset es"
  shows "returns (zpop name pick e [k, w] d) (\<lambda>(r, d'). wf_db d' \<and> zsets_ok d' \<and>
    (case zset_of (keyspace e d) k of
       None \<Rightarrow> r = wrongTypeErr \<and> keyspace e d' = keyspace e d
     | Some s \<Rightarrow> \<exists>es. listing s es \<and> r = zsetEntriesToResp (take (nat n) (f es)) True
         \<and> keyspace e d' = put_zset (keyspace e d) k (s |` (- fst ` set (take (nat n) (f es))))))"
proof -
  have l: "\<not> length [k, w] < 1" by simp
  have a: "ArgStr [k, w] 0 = k" by (simp add: ArgStr_def)
  have c: "zpop_count [k, w] = Some n" using assms(4,5) by (simp add: zpop_count_def ArgStr_def)
  have f: "set (f es) = set es" for es using perm[of es] by (metis set_mset_mset)
  have rest: "map_of (f (drop i (f es))) = map_of es |` (- fst ` set (take i (f es)))" if "zset_rel z es" "zset_rel z' (f (drop i (f es)))" for z z' es i
  proof (rule ext, rule option_eqI)
    fix m sc
    have d: "distinct (map fst es)" "distinct (map fst (f (drop i (f es))))"
      by (rule zset_rel_distinct[OF that(1)], rule zset_rel_distinct[OF that(2)])
    have "map_of (f (drop i (f es))) m = Some sc \<longleftrightarrow> (m, sc) \<in> set (drop i (f es))" using d(2) f by simp
    also have "\<dots> \<longleftrightarrow> (m, sc) \<in> set es \<and> m \<notin> fst ` set (take i (f es))"
    proof -
      have "mset (map fst (f es)) = mset (map fst es)" by (simp add: perm)
      then have "distinct (map fst (f es))" using d(1) by (metis mset_eq_imp_distinct_iff)
      then have "distinct (map fst (take i (f es) @ drop i (f es)))" by (simp only: append_take_drop_id)
      from distinct_keys_append[OF this, of m sc] show ?thesis by (simp only: append_take_drop_id f)
    qed
    finally show "map_of (f (drop i (f es))) m = Some sc \<longleftrightarrow> (map_of es |` (- fst ` set (take i (f es)))) m = Some sc"
      using d(1) by (auto simp: restrict_map_def)
  qed
  show ?thesis
    unfolding zpop_def if_not_P[OF l] a c option.case returns_or_reply
  proof (rule zset_modify[OF assms(1-3)], goal_cases)
    case (3 d' b z es)
    have "listing (map_of es) es" by (rule zset_rel_facts(5)[OF 3(4)])
    with 3(6)[of _ "f (drop (nat n) (f es))"] pop[OF 3(4)] 3(3,5) rest[OF 3(4), of _ "nat n"] show ?case
      by (auto simp: split_beta)
  next
    case (2 d')
    have "listing Map.empty []" by (simp add: listing_def)
    moreover have "f [] = []" using f[of "[]"] by simp
    ultimately show ?case using 2 by (auto simp: zsetEntriesToResp_def intro!: exI[of _ "[]"])
  qed auto
qed

section \<open>Readers\<close>

text \<open>The rule for a reader: its reply is a function of the listing.\<close>

lemma zset_reader:
  assumes "wf_db d" and "zsets_ok d" and "R Map.empty []  empty_reply"
    and "\<And>z es. zset_rel z es \<Longrightarrow> zset_of (keyspace e d) k = Some (map_of es) \<Longrightarrow> R (map_of es) es (f z)"
  shows "returns (or_reply (getZSet e k d) (\<lambda>r d. case r of None \<Rightarrow> Ret (empty_reply, d) | Some a \<Rightarrow> Ret (f (zset_at d a), d)))
    (\<lambda>(r, d'). wf_db d' \<and> keyspace e d' = keyspace e d \<and>
      (case zset_of (keyspace e d) k of None \<Rightarrow> r = wrongTypeErr | Some s \<Rightarrow> \<exists>es. listing s es \<and> R s es r))"
  unfolding returns_or_reply
proof (rule zset_read[OF assms(1,2)], goal_cases)
  case (2 d')
  have "listing Map.empty []" by (simp add: listing_def)
  with 2 assms(3) show ?case by auto
next
  case (3 d' a z es)
  with assms(4)[OF 3(4,5)] zset_rel_facts(5)[OF 3(4)] show ?case by auto
qed auto

lemma cmdZScore_spec:
  assumes "wf_db d" and "zsets_ok d"
  shows "returns (cmdZScore e [k, m] d) (\<lambda>(r, d'). wf_db d' \<and> keyspace e d' = keyspace e d \<and>
    (case zset_of (keyspace e d) k of None \<Rightarrow> r = wrongTypeErr | Some s \<Rightarrow> \<exists>es. listing s es \<and>
      r = (case s m of None \<Rightarrow> nullBulkResp | Some sc \<Rightarrow> bulkResp (FormatFloat sc))))"
proof -
  have n: "\<not> length [k, m] \<noteq> 2" and a: "ArgStr [k, m] 0 = k" "ArgStr [k, m] 1 = m" by (simp_all add: ArgStr_def)
  show ?thesis unfolding cmdZScore_def if_not_P[OF n] a
    by (rule zset_reader[OF assms]) (simp_all add: ZSet_Score_rel)
qed

text \<open>The rank of a member is its position in the listing.\<close>

lemma zrank_spec:
  assumes "wf_db d" and "zsets_ok d" and "m \<noteq> []"
    and f: "\<And>z es. zset_rel z es \<Longrightarrow> m \<notin> fst ` set es \<Longrightarrow> f m z = None"
    and g: "\<And>z es i. zset_rel z es \<Longrightarrow> i < length es \<Longrightarrow> fst (es ! i) = m \<Longrightarrow> f m z = Some (g (length es) i)"
  shows "returns (zrank name f e [k, m] d) (\<lambda>(r, d'). wf_db d' \<and> keyspace e d' = keyspace e d \<and>
    (case zset_of (keyspace e d) k of None \<Rightarrow> r = wrongTypeErr | Some s \<Rightarrow> \<exists>es. listing s es \<and>
      (s m = None \<longrightarrow> r = nullBulkResp) \<and> (\<forall>i<length es. fst (es ! i) = m \<longrightarrow> r = intResp (g (length es) i))))"
proof -
  have n: "\<not> length [k, m] \<noteq> 2" and a: "ArgStr [k, m] 0 = k" "ArgStr [k, m] 1 = m" by (simp_all add: ArgStr_def)
  have "\<lbrakk>zset_rel z es; map_of es m = None\<rbrakk> \<Longrightarrow> f m z = None" for z es
    using f[of z es] by (simp add: map_of_eq_None_iff)
  with g show ?thesis unfolding zrank_def if_not_P[OF n] a
    by (intro zset_reader[OF assms(1,2)]) auto
qed

lemma ZSet_Rank_None: "zset_rel z es \<Longrightarrow> m \<notin> fst ` set es \<Longrightarrow> ZSet_Rank m z = None \<and> ZSet_RevRank m z = None"
  using ZSet_Score_rel[of z es m] by (simp add: ZSet_Rank_def ZSet_RevRank_def ZSet_Score_def flip: map_of_eq_None_iff)

lemma zset_size: "zset_rel z es \<Longrightarrow> card (dom (map_of es)) = length es"
  using zset_rel_distinct[of z es] distinct_card[of "map fst es"] by (simp add: dom_map_of_conv_image_fst)

lemma cmdZRange_spec:
  assumes "wf_db d" and "zsets_ok d" and "parsed (Atoi a) = Some start" "parsed (Atoi b) = Some stop"
    and "start \<noteq> max_int64" and "\<And>s. zset_of (keyspace e d) k = Some s \<Longrightarrow> int (card (dom s)) \<le> max_int64"
  shows "returns (cmdZRange e (k # a # b # opts) d) (\<lambda>(r, d'). wf_db d' \<and> keyspace e d' = keyspace e d \<and>
    (case zset_of (keyspace e d) k of None \<Rightarrow> r = wrongTypeErr | Some s \<Rightarrow> \<exists>es. listing s es \<and>
      r = zsetEntriesToResp (seq_slice start stop es) (with_scores_at (k # a # b # opts))))"
proof -
  have n: "\<not> length (k # a # b # opts) < 3" and arg: "ArgStr (k # a # b # opts) 0 = k"
    "ArgStr (k # a # b # opts) 1 = a" "ArgStr (k # a # b # opts) 2 = b" by (simp_all add: ArgStr_def)
  let ?args = "k # a # b # opts"
  have "returns (or_reply (getZSet e k d) (\<lambda>r d. case r of None \<Rightarrow> Ret (array_value [], d)
      | Some a \<Rightarrow> Ret ((\<lambda>z. case zrange_bounds (ZSet_Len z) start stop of (i, j) \<Rightarrow>
          zsetEntriesToResp (RangeByRank i j (zlist z)) (with_scores_at ?args)) (zset_at d a), d)))
    (\<lambda>(r, d'). wf_db d' \<and> keyspace e d' = keyspace e d \<and>
      (case zset_of (keyspace e d) k of None \<Rightarrow> r = wrongTypeErr | Some s \<Rightarrow> \<exists>es. listing s es \<and>
        r = zsetEntriesToResp (seq_slice start stop es) (with_scores_at ?args)))"
  proof (rule zset_reader[OF assms(1,2)], goal_cases)
    case 1
    then show ?case by (simp add: seq_slice_def zsetEntriesToResp_def)
  next
    case (2 z es)
    note fz = zset_rel_facts[OF 2(1)]
    have "int (length es) \<le> max_int64" using assms(6)[OF 2(2)] zset_size[OF 2(1)] by simp
    from zrange_slice[OF fz(4) parsed_Atoi_range[OF assms(3)] parsed_Atoi_range[OF assms(4)] assms(5) this] show ?case
      by (simp add: fz(2) split_beta)
  qed
  then show ?thesis unfolding cmdZRange_def if_not_P[OF n] arg assms(3,4) split_beta fst_conv snd_conv option.case .
qed

lemma cmdZRevRange_spec:
  assumes "wf_db d" and "zsets_ok d" and "parsed (Atoi a) = Some start" "parsed (Atoi b) = Some stop"
    and "stop \<noteq> min_int64" and "\<And>s. zset_of (keyspace e d) k = Some s \<Longrightarrow> int (card (dom s)) \<le> max_int64"
  shows "returns (cmdZRevRange e (k # a # b # opts) d) (\<lambda>(r, d'). wf_db d' \<and> keyspace e d' = keyspace e d \<and>
    (case zset_of (keyspace e d) k of None \<Rightarrow> r = wrongTypeErr | Some s \<Rightarrow> \<exists>es. listing s es \<and>
      r = zsetEntriesToResp (seq_slice start stop (rev es)) (with_scores_at (k # a # b # opts))))"
proof -
  have n: "\<not> length (k # a # b # opts) < 3" and arg: "ArgStr (k # a # b # opts) 0 = k"
    "ArgStr (k # a # b # opts) 1 = a" "ArgStr (k # a # b # opts) 2 = b" by (simp_all add: ArgStr_def)
  let ?args = "k # a # b # opts"
  have "returns (or_reply (getZSet e k d) (\<lambda>r d. case r of None \<Rightarrow> Ret (array_value [], d)
      | Some a \<Rightarrow> Ret ((\<lambda>z. case zrevrange_bounds (ZSet_Len z) start stop of (i, j) \<Rightarrow>
          zsetEntriesToResp (rev (RangeByRank i j (zlist z))) (with_scores_at ?args)) (zset_at d a), d)))
    (\<lambda>(r, d'). wf_db d' \<and> keyspace e d' = keyspace e d \<and>
      (case zset_of (keyspace e d) k of None \<Rightarrow> r = wrongTypeErr | Some s \<Rightarrow> \<exists>es. listing s es \<and>
        r = zsetEntriesToResp (seq_slice start stop (rev es)) (with_scores_at ?args)))"
  proof (rule zset_reader[OF assms(1,2)], goal_cases)
    case 1
    then show ?case by (simp add: seq_slice_def zsetEntriesToResp_def)
  next
    case (2 z es)
    note fz = zset_rel_facts[OF 2(1)]
    have "int (length es) \<le> max_int64" using assms(6)[OF 2(2)] zset_size[OF 2(1)] by simp
    from zrevrange_slice[OF fz(4) parsed_Atoi_range[OF assms(3)] parsed_Atoi_range[OF assms(4)] assms(5) this] show ?case
      by (simp add: fz(2) split_beta)
  qed
  then show ?thesis unfolding cmdZRevRange_def if_not_P[OF n] arg assms(3,4) split_beta fst_conv snd_conv option.case .
qed

text \<open>Ranges by score and their count.\<close>

lemma zrange_by_score_spec:
  assumes "wf_db d" and "zsets_ok d" and "parseScoreRange a b = Some (lo, hi)"
    and "parseLimitClause opts = (offset, cnt, err)"
    and f: "\<And>sl es. sl_view sl es \<Longrightarrow> f lo hi offset cnt sl = paged offset cnt (g es)" and g: "g [] = []"
  shows "returns (zrange_by_score name f e (k # a # b # opts) d) (\<lambda>(r, d'). wf_db d' \<and> keyspace e d' = keyspace e d \<and>
    (case zset_of (keyspace e d) k of None \<Rightarrow> r = wrongTypeErr | Some s \<Rightarrow> \<exists>es. listing s es \<and>
      r = zsetEntriesToResp (paged offset cnt (g es)) (list_ex (\<lambda>s. ToUpper s = ''WITHSCORES'') opts)))"
proof -
  have n: "\<not> length (k # a # b # opts) < 3" and arg: "ArgStr (k # a # b # opts) 0 = k"
    "ArgStr (k # a # b # opts) 1 = a" "ArgStr (k # a # b # opts) 2 = b" "drop 3 (k # a # b # opts) = opts"
    by (simp_all add: ArgStr_def)
  show ?thesis
    unfolding zrange_by_score_def if_not_P[OF n] arg assms(3,4) option.case prod.case Let_def
  proof (rule zset_reader[OF assms(1,2)], goal_cases)
    case 1
    then show ?case by (simp add: zsetEntriesToResp_def paged_def g)
  next
    case (2 z es)
    then show ?case by (simp add: f[OF zset_rel_facts(4)[OF 2(1)]])
  qed
qed

lemma cmdZCount_spec:
  assumes "wf_db d" and "zsets_ok d" and "parseScoreRange a b = Some (lo, hi)" and "\<not> f_nan lo"
  shows "returns (cmdZCount e [k, a, b] d) (\<lambda>(r, d'). wf_db d' \<and> keyspace e d' = keyspace e d \<and>
    (case zset_of (keyspace e d) k of None \<Rightarrow> r = wrongTypeErr | Some s \<Rightarrow> \<exists>es. listing s es \<and>
      r = intResp (int (length (z_in_scores lo hi es)))))"
proof -
  have n: "\<not> length [k, a, b] \<noteq> 3" and arg: "ArgStr [k, a, b] 0 = k" "ArgStr [k, a, b] 1 = a" "ArgStr [k, a, b] 2 = b"
    by (simp_all add: ArgStr_def)
  show ?thesis
    unfolding cmdZCount_def if_not_P[OF n] arg assms(3) option.case prod.case
    by (rule zset_reader[OF assms(1,2)]) (simp_all add: RangeByScore_rel(2)[OF zset_rel_facts(4) assms(4)] z_in_scores_def)
qed

text \<open>Lexical ranges: the members in the range, sorted.\<close>

lemma cmdZRangeByLex_spec:
  assumes "wf_db d" and "zsets_ok d" and "env_ok e"
  shows "returns (cmdZRangeByLex e (k # a # b # opts) d) (\<lambda>(r, d'). wf_db d' \<and> keyspace e d' = keyspace e d \<and>
    (case zset_of (keyspace e d) k of None \<Rightarrow> r = wrongTypeErr | Some s \<Rightarrow> \<exists>es. listing s es \<and>
      r = stringsToArray (sorted_list_of_set {m \<in> dom s. lexInRange m a b})))"
proof -
  have n: "\<not> length (k # a # b # opts) < 3" and arg: "ArgStr (k # a # b # opts) 0 = k"
    "ArgStr (k # a # b # opts) 1 = a" "ArgStr (k # a # b # opts) 2 = b" by (simp_all add: ArgStr_def)
  show ?thesis
    unfolding cmdZRangeByLex_def if_not_P[OF n] arg Let_def
  proof (rule zset_reader[OF assms(1,2)], goal_cases)
    case 1
    then show ?case by (simp add: stringsToArray_def)
  next
    case (2 z es)
    note fz = zset_rel_facts[OF 2(1)]
    let ?ms = "filter (\<lambda>m. lexInRange m a b) (iter e (map fst (zscores z)))"
    have "distinct ?ms" using fz(3) by (simp add: map_wf_def env_ok_iter_distinct[OF assms(3)])
    then have "sorted_list_of_set (set ?ms) = sort ?ms"
      by (simp only: sorted_list_of_set_sort_remdups distinct_remdups_id)
    moreover have "set ?ms = {m \<in> dom (map_of es). lexInRange m a b}"
    proof -
      have "set (iter e (map fst (zscores z))) = dom (map_of es)"
        by (simp only: env_ok_iter_set[OF assms(3)] dom_map_of_conv_image_fst set_map flip: fz(1))
      then show ?thesis by (simp only: set_filter)
    qed
    ultimately have "sort ?ms = sorted_list_of_set {m \<in> dom (map_of es). lexInRange m a b}" by simp
    then show ?case by (simp add: sortStrings_sort)
  qed
qed

end
