(* ===== verification/Cmd_Key.thy ===== *)
theory Cmd_Key
  imports Cmd_Base Go_Float_Text
begin

text \<open>
  The key commands (commands/key.go): one definition per handler, then the proof
  that they keep the invariant and what \<open>RENAMENX\<close> and \<open>COPY\<close> do to the abstract
  database.
\<close>

section \<open>Deleting, counting, expiring\<close>

definition cmdDel :: handler where
  "cmdDel e args d =
     (if length args < 1 then Ret (wrongArgCount ''DEL'', d)
      else case db_Del args d of (n, d) \<Rightarrow> Ret (intResp n, d))"

definition cmdExists :: handler where
  "cmdExists e args d =
     (if length args < 1 then Ret (wrongArgCount ''EXISTS'', d) else Ret (intResp (db_Exists e args d), d))"

definition bool_reply :: "bool \<times> db \<Rightarrow> (resp_value \<times> db) go" where
  "bool_reply r = (case r of (b, d) \<Rightarrow> Ret (intResp (if b then 1 else 0), d))"

definition cmdExpire :: handler where
  "cmdExpire e args d =
     (if length args \<noteq> 2 then Ret (wrongArgCount ''EXPIRE'', d)
      else need_int (ArgStr args 1) d (\<lambda>secs. bool_reply (db_SetExpiry e (ArgStr args 0) (now e + Seconds secs) d)))"

definition cmdExpireAt :: handler where
  "cmdExpireAt e args d =
     (if length args \<noteq> 2 then Ret (wrongArgCount ''EXPIREAT'', d)
      else need_int (ArgStr args 1) d (\<lambda>ts. bool_reply (db_SetExpiry e (ArgStr args 0) (time_Unix ts) d)))"

definition cmdPExpire :: handler where
  "cmdPExpire e args d =
     (if length args \<noteq> 2 then Ret (wrongArgCount ''PEXPIRE'', d)
      else need_int (ArgStr args 1) d (\<lambda>ms. bool_reply (db_SetExpiry e (ArgStr args 0) (now e + Milliseconds ms) d)))"

definition cmdPExpireAt :: handler where
  "cmdPExpireAt e args d =
     (if length args \<noteq> 2 then Ret (wrongArgCount ''PEXPIREAT'', d)
      else need_int (ArgStr args 1) d (\<lambda>ms. bool_reply (db_SetExpiry e (ArgStr args 0) (time_UnixMilli ms) d)))"

definition cmdTTL :: handler where
  "cmdTTL e args d =
     (if length args \<noteq> 1 then Ret (wrongArgCount ''TTL'', d)
      else let t = db_TTL e (ArgStr args 0) d in
        Ret (if t = - 2 then intResp (- 2) else if t = - 1 then intResp (- 1) else intResp (to_seconds t), d))"

definition cmdPTTL :: handler where
  "cmdPTTL e args d =
     (if length args \<noteq> 1 then Ret (wrongArgCount ''PTTL'', d)
      else let t = db_TTL e (ArgStr args 0) d in
        Ret (if t = - 2 then intResp (- 2) else if t = - 1 then intResp (- 1) else intResp (go_quot t (10 ^ 6)), d))"

definition cmdPersist :: handler where
  "cmdPersist e args d =
     (if length args \<noteq> 1 then Ret (wrongArgCount ''PERSIST'', d)
      else bool_reply (db_RemoveExpiry (ArgStr args 0) d))"

section \<open>Renaming\<close>

definition noKeyErr :: resp_value where "noKeyErr = errResp ''ERR no such key''"

definition cmdRename :: handler where
  "cmdRename e args d =
     (if length args \<noteq> 2 then Ret (wrongArgCount ''RENAME'', d)
      else case db_Rename e (ArgStr args 0) (ArgStr args 1) d of (b, d) \<Rightarrow>
        Ret (if b then okResp else noKeyErr, d))"

definition cmdRenameNX :: handler where
  "cmdRenameNX e args d =
     (if length args \<noteq> 2 then Ret (wrongArgCount ''RENAMENX'', d)
      else if db_Exists e [ArgStr args 0] d = 0 then Ret (noKeyErr, d)
      else if 0 < db_Exists e [ArgStr args 1] d then Ret (intResp 0, d)
      else case db_Rename e (ArgStr args 0) (ArgStr args 1) d of (b, d) \<Rightarrow> Ret (intResp 1, d))"

section \<open>Looking at the keyspace\<close>

definition cmdType :: handler where
  "cmdType e args d =
     (if length args \<noteq> 1 then Ret (wrongArgCount ''TYPE'', d)
      else case db_Type e (ArgStr args 0) d of (t, d) \<Rightarrow> Ret (simple_value t, d))"

definition cmdKeys :: handler where
  "cmdKeys e args d =
     (if length args \<noteq> 1 then Ret (wrongArgCount ''KEYS'', d)
      else Ret (stringsToArray (db_Keys e (ArgStr args 0) d), d))"

text \<open>The options of \<open>SCAN\<close>: pattern, count, type. Unknown words are skipped, a word
  without its value is ignored, and the error of the count is dropped.\<close>

fun scan_options :: "string list \<Rightarrow> string \<times> int \<times> string \<Rightarrow> string \<times> int \<times> string" where
  "scan_options [] o1 = o1"
| "scan_options (a # rest) (pattern, cnt, typFilter) =
     (let opt = ToUpper a in
      if opt \<in> {''MATCH'', ''COUNT'', ''TYPE''} then
        (case rest of
           [] \<Rightarrow> (pattern, cnt, typFilter)
         | v # rest' \<Rightarrow>
             if opt = ''MATCH'' then scan_options rest' (v, cnt, typFilter)
             else if opt = ''COUNT'' then scan_options rest' (pattern, fst (Atoi v), typFilter)
             else scan_options rest' (pattern, cnt, v))
      else scan_options rest (pattern, cnt, typFilter))"

definition cmdScan :: handler where
  "cmdScan e args d =
     (if length args < 1 then Ret (wrongArgCount ''SCAN'', d)
      else case parsed (Atoi (ArgStr args 0)) of
        None \<Rightarrow> Ret (notIntErr, d)
      | Some cursor \<Rightarrow>
          (case scan_options (tl args) ([], 10, []) of (pattern, cnt, typFilter) \<Rightarrow>
             go_bind (db_Scan e cursor cnt pattern typFilter d) (\<lambda>(next_cursor, keys).
               Ret (arrayResp [bulkResp (Itoa next_cursor), stringsToArray keys], d))))"

definition cmdRandomKey :: handler where
  "cmdRandomKey e args d =
     (let k = db_RandomKey e d in Ret (if k = [] then nullBulkResp else bulkResp k, d))"

section \<open>COPY and OBJECT\<close>

text \<open>The value for the copy: strings, hashes and sets are copied; lists and sorted sets
  are shared.\<close>

definition deepCopyValue :: "object \<Rightarrow> db \<Rightarrow> (val \<times> db) go" where
  "deepCopyValue o1 d =
     (case oType o1 of
        TypeString \<Rightarrow> go_bind (assert_string (oValue o1)) (\<lambda>s. Ret (VStr s, d))
      | TypeHash \<Rightarrow> go_bind (assert_cell TypeHash d (oValue o1)) (\<lambda>a.
          case new_cell (CHash (hash_at d a)) d of (b, d) \<Rightarrow> Ret (VRef b, d))
      | TypeSet \<Rightarrow> go_bind (assert_cell TypeSet d (oValue o1)) (\<lambda>a.
          case new_cell (CSet (set_at d a)) d of (b, d) \<Rightarrow> Ret (VRef b, d))
      | _ \<Rightarrow> Ret (oValue o1, d))"

definition cmdCopy :: handler where
  "cmdCopy e args d =
     (if length args < 2 then Ret (wrongArgCount ''COPY'', d)
      else let dst = ArgStr args 1; replaces = (\<exists>a \<in> set (drop 2 args). ToUpper a = ''REPLACE'') in
        case db_Get e (ArgStr args 0) d of
          (None, d) \<Rightarrow> Ret (intResp 0, d)
        | (Some o1, d) \<Rightarrow>
            if \<not> replaces \<and> 0 < db_Exists e [dst] d then Ret (intResp 0, d)
            else go_bind (deepCopyValue o1 d) (\<lambda>(v, d).
              Ret (intResp 1, db_Set e dst
                ((new_object (oType o1) v)\<lparr>oHasExpiry := oHasExpiry o1, oExpiry := oExpiry o1\<rparr>) d)))"

definition encodingForType :: "ValueType \<Rightarrow> string" where
  "encodingForType t =
     (case t of TypeString \<Rightarrow> ''embstr'' | TypeList \<Rightarrow> ''linkedlist'' | TypeHash \<Rightarrow> ''hashtable''
      | TypeSet \<Rightarrow> ''hashtable'' | TypeZSet \<Rightarrow> ''skiplist'')"

definition cmdObject :: handler where
  "cmdObject e args d =
     (if length args < 2 then Ret (wrongArgCount ''OBJECT'', d)
      else let sub = ToUpper (ArgStr args 0) in
        case db_Get e (ArgStr args 1) d of
          (None, d) \<Rightarrow> Ret (noKeyErr, d)
        | (Some o1, d) \<Rightarrow> Ret (
            if sub = ''REFCOUNT'' then intResp 1
            else if sub = ''IDLETIME'' then
              intResp (to_seconds (time_Sub (now e) (oLastAccess o1 + unix_to_internal * 10 ^ 9)))
            else if sub = ''FREQ'' then intResp (uint (oAccessFreq o1))
            else if sub = ''ENCODING'' then bulkResp (encodingForType (oType o1))
            else if sub = ''HELP'' then stringsToArray
              [''OBJECT <subcommand> [<arg> [value] [opt] ...]. subcommands are:'', ''ENCODING <key>'',
               ''FREQ <key>'', ''IDLETIME <key>'', ''REFCOUNT <key>'']
            else errResp (''ERR unknown subcommand '' @ [quote] @ ArgStr args 0 @ [quote]), d))"

section \<open>They keep the invariant\<close>

lemma reads_key:
  "reads cmdExists" "reads cmdTTL" "reads cmdPTTL" "reads cmdType" "reads cmdKeys" "reads cmdScan"
  "reads cmdRandomKey" "reads cmdObject"
proof -
  show "reads cmdExists" "reads cmdTTL" "reads cmdPTTL" "reads cmdKeys" "reads cmdRandomKey"
    by (rule readsI, simp add: cmdExists_def cmdTTL_def cmdPTTL_def cmdKeys_def cmdRandomKey_def Let_def)+
  show "reads cmdType"
    by (rule readsI) (auto simp: cmdType_def db_Type_def split_beta db_Get_wf db_Get_keyspace split: option.split)
  show "reads cmdObject"
    by (rule readsI) (auto simp: cmdObject_def Let_def intro!: guards_get)
  have loop: "guards (scan_loop K w cnt start n i r) (\<lambda>_. True)" for K w cnt start n i r
    by (induction K w cnt start n i r rule: scan_loop.induct) (auto simp: Let_def conversion_panic_def)
  have "guards (db_Scan e c n p t d) (\<lambda>_. True)" for e c n p t d
    by (auto simp: db_Scan_def Let_def intro!: guards_mono[OF loop])
  then show "reads cmdScan"
    by (intro readsI) (auto simp: cmdScan_def split: option.split prod.split intro!: guards_mono[of _ "\<lambda>_. True"])
qed

lemma keeps_expiry:
  "keeps cmdExpire" "keeps cmdExpireAt" "keeps cmdPExpire" "keeps cmdPExpireAt" "keeps cmdPersist"
  by (rule keepsI, auto simp: cmdExpire_def cmdExpireAt_def cmdPExpire_def cmdPExpireAt_def cmdPersist_def bool_reply_def
      split_beta db_SetExpiry_wf db_RemoveExpiry_wf intro!: guards_need_int)+

lemma keeps_rename: "keeps cmdDel" "keeps cmdRename" "keeps cmdRenameNX"
  by (rule keepsI, auto simp: cmdDel_def cmdRename_def cmdRenameNX_def split_beta db_Del_wf db_Rename_wf simp del: db_Del.simps)+

text \<open>The value of a copy is sound and looks like the original.\<close>

lemma deepCopyValue_ok:
  assumes "wf_db d" and "obj_ok (heap d) o1"
  shows "returns (deepCopyValue o1 d) (\<lambda>(v, d'). wf_db d' \<and> keyspace e d' = keyspace e d \<and> dat d' = dat d
    \<and> val_type (heap d') v = Some (oType o1) \<and> val_view (heap d') v = val_view (heap d) (oValue o1)
    \<and> (oType o1 \<in> {TypeHash, TypeSet} \<longrightarrow> (\<exists>b. v = VRef b \<and> (\<forall>k. refs d' k \<noteq> Some b))))"
proof -
  have t: "val_type (heap d) (oValue o1) = Some (oType o1)" using assms(2) by (simp add: obj_ok_def)
  have fresh: "wf_db d' \<and> keyspace e d' = keyspace e d \<and> dat d' = dat d \<and> heap d' b = Some c \<and> (\<forall>k. refs d' k \<noteq> Some b)"
    if "new_cell c d = (b, d')" "cell_ok c" for c b d'
  proof -
    have d': "d' = d\<lparr>heap := (heap d)(next_ref d \<mapsto> c), next_ref := Suc (next_ref d)\<rparr>" "b = next_ref d"
      using that(1) by (auto simp: new_cell_def)
    have free: "heap d (next_ref d) = None" using wf_dbD(4)[OF assms(1)] by (cases "heap d (next_ref d)") auto
    have old: "obj_view e (heap d') o2 = obj_view e (heap d) o2" if "obj_ok (heap d) o2" for o2
      using that free by (auto simp: d' obj_view_def val_view_def obj_ok_def val_type_def split: val.splits)
    have "keyspace e d' k = keyspace e d k" for k
      using old[OF wf_dbD(2)[OF assms(1)]] by (cases "map_of (dat d) k") (auto simp: keyspace_def d'(1))
    moreover have "refs d' k \<noteq> Some b" for k
      using refs_allocated[OF assms(1), of k] by (auto simp: d' refs_def)
    ultimately show ?thesis using wf_new_cell[OF assms(1) that(2)] by (auto simp: d')
  qed
  show ?thesis
  proof (cases "oType o1")
    case TypeString
    with t show ?thesis using assms
      by (auto simp: deepCopyValue_def assert_string_def val_type_def cell_type_iff split: val.splits option.splits)
  next
    case TypeHash
    with t obtain a h where a: "oValue o1 = VRef a" "heap d a = Some (CHash h)"
      by (auto simp: val_type_def cell_type_iff split: val.splits option.splits)
    obtain b d' where n: "new_cell (CHash h) d = (b, d')" by fastforce
    have "cell_ok (CHash h)" using wf_dbD(3)[OF assms(1) a(2)] .
    with fresh[OF n] a n TypeHash show ?thesis
      by (simp add: deepCopyValue_def assert_cell_def hash_at_def val_type_def val_view_def)
  next
    case TypeSet
    with t obtain a h where a: "oValue o1 = VRef a" "heap d a = Some (CSet h)"
      by (auto simp: val_type_def cell_type_iff split: val.splits option.splits)
    obtain b d' where n: "new_cell (CSet h) d = (b, d')" by fastforce
    have "cell_ok (CSet h)" using wf_dbD(3)[OF assms(1) a(2)] .
    with fresh[OF n] a n TypeSet show ?thesis
      by (simp add: deepCopyValue_def assert_cell_def set_at_def val_type_def val_view_def)
  qed (use assms t in \<open>simp_all add: deepCopyValue_def\<close>)
qed

text \<open>\<open>COPY\<close> to a key that is free, or with \<open>REPLACE\<close>.\<close>

lemma cmdCopy_spec:
  assumes "wf_db d"
  shows "returns (cmdCopy e (src # dst # opts) d) (\<lambda>(r, d'). wf_db d' \<and>
    (if keyspace e d src = None \<or> (\<forall>a \<in> set opts. ToUpper a \<noteq> ''REPLACE'') \<and> keyspace e d dst \<noteq> None
     then r = intResp 0 \<and> keyspace e d' = keyspace e d
     else r = intResp 1 \<and> keyspace e d' = (keyspace e d)(dst := keyspace e d src)
       \<and> (\<forall>v t. keyspace e d src = Some (v, t) \<longrightarrow> lval_tag v \<in> {TypeHash, TypeSet} \<longrightarrow>
            (\<forall>k a. refs d' dst = Some a \<longrightarrow> refs d' k = Some a \<longrightarrow> k = dst))))"
proof (cases "db_Get e src d")
  case (Pair r d1)
  note f = db_Get_facts[OF assms Pair]
  have ex: "db_Exists e [dst] d1 = (if keyspace e d dst = None then 0 else 1)"
    using f by (auto simp: db_Exists_keyspace)
  show ?thesis
  proof (cases r)
    case None
    with f Pair show ?thesis by (simp add: cmdCopy_def ArgStr_def)
  next
    case (Some o1)
    then have o1: "obj_ok (heap d1) o1" "keyspace e d src = obj_view e (heap d1) o1" "\<not> IsExpired e o1" using f by auto
    let ?new = "\<lambda>v. (new_object (oType o1) v)\<lparr>oHasExpiry := oHasExpiry o1, oExpiry := oExpiry o1\<rparr>"
    obtain v d2 where v: "deepCopyValue o1 d1 = Ret (v, d2)" "wf_db d2" "keyspace e d2 = keyspace e d1"
      "val_type (heap d2) v = Some (oType o1)" "val_view (heap d2) v = val_view (heap d1) (oValue o1)"
      "oType o1 \<in> {TypeHash, TypeSet} \<longrightarrow> (\<exists>b. v = VRef b \<and> (\<forall>k. refs d2 k \<noteq> Some b))"
      using deepCopyValue_ok[OF conjunct1[OF f] o1(1), of e] by (auto simp: returns_iff)
    have "obj_ok (heap d2) (?new v)" using v(4) by (simp add: obj_ok_def new_object_def)
    then have "wf_db (db_Set e dst (?new v) d2)" by (rule db_Set_wf[OF v(2)])
    moreover have "obj_view e (heap d2) (?new v) = keyspace e d src"
      using o1 v(5) by (simp add: obj_view_def new_object_def IsExpired_def)
    then have "keyspace e (db_Set e dst (?new v) d2) = (keyspace e d)(dst := keyspace e d src)"
      using v(3) f by (simp add: db_Set_keyspace)
    moreover have "k = dst" if "refs (db_Set e dst (?new v) d2) dst = Some a" "refs (db_Set e dst (?new v) d2) k = Some a"
      "keyspace e d src = Some (w, t)" and tag: "lval_tag w \<in> {TypeHash, TypeSet}" for k a w t
    proof (rule ccontr)
      assume k: "k \<noteq> dst"
      have "lval_tag w = oType o1" using that(3) o1 lval_tag_obj[OF o1(1)] by (simp add: obj_view_def)
      then obtain b where b: "v = VRef b" "\<forall>k. refs d2 k \<noteq> Some b" using v(6) tag by auto
      have "refs (db_Set e dst (?new v) d2) dst = Some b" by (simp add: refs_def db_Set_def new_object_def b)
      moreover have "refs (db_Set e dst (?new v) d2) k = refs d2 k" using k by (simp add: refs_def db_Set_def)
      ultimately have "refs d2 k = Some b" using that(1,2) by metis
      with b(2) show False by blast
    qed
    ultimately show ?thesis using f Pair Some ex o1 v(1)
      by (auto simp: cmdCopy_def ArgStr_def Let_def obj_view_def)
  qed
qed

text \<open>The copy of a list or of a sorted set is no copy: both keys have the same value.\<close>

lemma cmdCopy_shares:
  assumes "wf_db d" and "keyspace e d src = Some (v, t)" and "lval_tag v \<in> {TypeList, TypeZSet}"
    and "keyspace e d dst = None \<or> (\<exists>a \<in> set opts. ToUpper a = ''REPLACE'')"
  shows "returns (cmdCopy e (src # dst # opts) d) (\<lambda>(r, d'). refs d' dst = refs d src \<and> (src \<noteq> dst \<longrightarrow> refs d' src = refs d src)
    \<and> refs d src \<noteq> None \<and> heap d' = heap d)"
proof (cases "db_Get e src d")
  case (Pair r d1)
  note f = db_Get_facts[OF assms(1) Pair]
  obtain o1 where r: "r = Some o1" using f assms(2) by (cases r) auto
  then have o1: "obj_ok (heap d1) o1" "keyspace e d src = obj_view e (heap d1) o1" using f by auto
  have ex: "db_Exists e [dst] d1 = (if keyspace e d dst = None then 0 else 1)"
    using f by (auto simp: db_Exists_keyspace)
  have tag: "oType o1 \<in> {TypeList, TypeZSet}" using assms(2,3) o1 lval_tag_obj[OF o1(1)] by (auto simp: obj_view_def split: if_splits)
  then obtain a where a: "oValue o1 = VRef a" using o1(1) by (cases "oValue o1") (auto simp: obj_ok_def val_type_def)
  have dc: "deepCopyValue o1 d1 = Ret (oValue o1, d1)" using tag by (auto simp: deepCopyValue_def)
  have s: "refs d src = Some a" "refs d1 src = Some a" "heap d1 = heap d"
    using Pair r a by (auto simp: db_Get_def refs_def Touch_def split: option.splits if_splits)
  show ?thesis
    using Pair r ex dc assms(4) s a
    by (auto simp: cmdCopy_def ArgStr_def Let_def refs_def db_Set_def new_object_def)
qed

lemma keeps_copy: "keeps cmdCopy"
proof (rule keepsI)
  fix e args d assume d: "wf_db d"
  show "guards (cmdCopy e args d) (\<lambda>p. wf_db (snd p))"
  proof (cases "length args < 2")
    case False
    then obtain src dst opts where "args = src # dst # opts"
      by (cases args; cases "tl args") auto
    with cmdCopy_spec[OF d, of e src dst opts] show ?thesis by (auto simp: returns_iff)
  qed (simp add: cmdCopy_def d)
qed

lemmas keeps_key = reads_key[THEN reads_keeps] keeps_expiry keeps_rename keeps_copy

lemma cmdRenameNX_spec:
  "cmdRenameNX e [src, dst] d =
    (if keyspace e d src = None then Ret (noKeyErr, d)
     else if keyspace e d dst \<noteq> None then Ret (intResp 0, d)
     else Ret (intResp 1, snd (db_Rename e src dst d)))"
  by (auto simp: cmdRenameNX_def ArgStr_def db_Exists_keyspace split_beta)

end
