(* ===== verification/Cmd_Server.thy ===== *)
theory Cmd_Server
  imports Cmd_Base Go_Float_Text
begin

text \<open>
  The server commands (commands/server_cmd.go). \<open>SELECT\<close> and \<open>FLUSHALL\<close> are
  placeholders here: the server handles them before it looks a command up.
\<close>

definition cmdPing :: handler where
  "cmdPing e args d = Ret (if length args = 0 then simple_value ''PONG'' else bulkResp (ArgStr args 0), d)"

definition cmdEcho :: handler where
  "cmdEcho e args d = Ret (if length args \<noteq> 1 then wrongArgCount ''ECHO'' else bulkResp (ArgStr args 0), d)"

definition cmdSelect :: handler where "cmdSelect e args d = Ret (okResp, d)"
definition cmdDBSize :: handler where "cmdDBSize e args d = Ret (intResp (db_Size e d), d)"
definition cmdFlushDB :: handler where "cmdFlushDB e args d = Ret (okResp, db_Flush d)"
definition cmdFlushAll :: handler where "cmdFlushAll e args d = Ret (okResp, db_Flush d)"

section \<open>Numbers on the wire\<close>

text \<open>The one serializer of resp/writer.go that prints a floating point number.\<close>

definition WriteFloat :: "float64 \<Rightarrow> string" where "WriteFloat x = WriteBulkString (FormatFloat x)"

section \<open>INFO\<close>

text \<open>\<open>int64(d.Hours()/24)\<close>; the quotient of a double is that of its mantissa and exponent.\<close>

definition f_div_nat :: "float64 \<Rightarrow> nat \<Rightarrow> float64" where
  "f_div_nat x q =
     (case f_parts x of (m, ex) \<Rightarrow>
        case scale m q (- ex) of (p', q') \<Rightarrow> f_pack (f_sign x) (round_mag p' q'))"

definition to_days :: "int \<Rightarrow> int" where
  "to_days d =
     (let h = go_quot d (3600 * 10 ^ 9); nsec = d - h * (3600 * 10 ^ 9)
      in f_trunc (f_div_nat (f_add (f_of_quot h 1) (f_of_quot nsec (3600 * 10 ^ 9))) 24))"

definition info_line :: "string \<Rightarrow> string" where "info_line s = s @ crlf"

definition info_number :: "string \<Rightarrow> int \<Rightarrow> string" where
  "info_number name n = info_line (name @ '':'' @ FormatInt n)"

definition info_section :: "string \<Rightarrow> string \<Rightarrow> string \<Rightarrow> string" where
  "info_section wanted name body = (if wanted = ''all'' \<or> wanted = name then body else [])"

definition cmdInfo :: handler where
  "cmdInfo e args d =
     (let wanted = (if 1 \<le> length args then ToLower (ArgStr args 0) else ''all'');
          uptime = time_Sub (now e) (start_time e) in
      Ret (bulkResp (
        info_section wanted ''server''
          (info_line ''# Server'' @ info_line ''redis_version:7.0.0-qwikstore'' @ info_line ''os:linux''
           @ info_line ''arch_bits:64'' @ info_number ''uptime_in_seconds'' (to_seconds uptime)
           @ info_number ''uptime_in_days'' (to_days uptime) @ info_line ''hz:10'' @ crlf)
        @ info_section wanted ''clients'' (info_line ''# Clients'' @ info_line ''connected_clients:1'' @ crlf)
        @ info_section wanted ''memory''
          (info_line ''# Memory'' @ info_number ''used_memory'' (mem_alloc e)
           @ info_line (''used_memory_human:'' @ FormatInt (mem_alloc e div 1024) @ ''K'')
           @ info_number ''used_memory_rss'' (mem_sys e) @ crlf)
        @ info_section wanted ''stats''
          (info_line ''# Stats'' @ info_line ''total_connections_received:0'' @ info_line ''total_commands_processed:0'' @ crlf)
        @ info_section wanted ''keyspace''
          (info_line ''# Keyspace'' @ info_line (''db0:keys='' @ FormatInt (db_Size e d)) @ crlf)), d))"

section \<open>The others\<close>

definition cmdConfig :: handler where
  "cmdConfig e args d =
     Ret (if length args < 1 then wrongArgCount ''CONFIG''
          else let sub = ToUpper (ArgStr args 0) in
            if sub = ''GET'' then (if length args < 2 then wrongArgCount ''CONFIG GET'' else array_value [])
            else if sub = ''SET'' then (if length args < 3 then wrongArgCount ''CONFIG SET'' else okResp)
            else if sub = ''RESETSTAT'' then okResp
            else if sub = ''REWRITE'' then okResp
            else errResp (''ERR unknown subcommand '' @ [quote] @ ArgStr args 0 @ [quote]), d)"

definition cmdCommand :: handler where
  "cmdCommand e args d =
     Ret (if length args = 0 then array_value []
          else if ToUpper (ArgStr args 0) = ''COUNT'' then intResp 0 else array_value [], d)"

text \<open>\<open>DEBUG SLEEP\<close> takes its time and changes nothing.\<close>

definition cmdDebug :: handler where "cmdDebug e args d = Ret (okResp, d)"
definition cmdSave :: handler where "cmdSave e args d = Ret (okResp, d)"
definition cmdBgSave :: handler where "cmdBgSave e args d = Ret (simple_value ''Background saving started'', d)"

text \<open>\<open>startTime.Unix()\<close>.\<close>

definition cmdLastSave :: handler where
  "cmdLastSave e args d = Ret (intResp (start_time e div 10 ^ 9 - unix_to_internal), d)"

lemmas server_cmd_defs = cmdPing_def cmdEcho_def cmdSelect_def cmdDBSize_def cmdInfo_def cmdConfig_def cmdCommand_def
  cmdDebug_def cmdSave_def cmdBgSave_def cmdLastSave_def

section \<open>Their effect\<close>

lemma reads_server:
  "reads cmdPing" "reads cmdEcho" "reads cmdSelect" "reads cmdDBSize" "reads cmdInfo" "reads cmdConfig" "reads cmdCommand"
  "reads cmdDebug" "reads cmdSave" "reads cmdBgSave" "reads cmdLastSave"
  by (rule readsI, simp add: server_cmd_defs Let_def)+

lemma keeps_flush: "keeps cmdFlushDB" "keeps cmdFlushAll"
  by (rule keepsI, simp add: cmdFlushDB_def cmdFlushAll_def db_Flush_wf)+

lemmas keeps_server = reads_server[THEN reads_keeps] keeps_flush

lemma flush_spec: "cmdFlushDB e args d = Ret (okResp, db_Flush d)" "keyspace e (db_Flush d) = Map.empty"
  by (simp_all add: cmdFlushDB_def db_Flush_keyspace)

end
