(* ===== verification/Registry.thy ===== *)
theory Registry
  imports Cmd_String_Correct Cmd_List Cmd_Hash Cmd_Set Cmd_ZSet_Correct Cmd_Key Cmd_Server
begin

text \<open>
  The command table (commands/registry.go), the list of the commands that go to the
  append-only file (\<open>isWriteCommand\<close> of server/server.go), and what holds of every
  command: none breaks the invariant of the database or fails a type assertion, and
  those that are not written to the file change nothing that can be seen.
\<close>

section \<open>The table\<close>

definition string_commands :: "(string \<times> handler) list" where
  "string_commands =
   [(''SET'', cmdSet), (''GET'', cmdGet), (''GETSET'', cmdGetSet), (''MSET'', cmdMSet), (''MGET'', cmdMGet),
    (''MSETNX'', cmdMSetNX), (''SETNX'', cmdSetNX), (''SETEX'', cmdSetEX), (''PSETEX'', cmdPSetEX),
    (''INCR'', cmdIncr), (''INCRBY'', cmdIncrBy), (''DECR'', cmdDecr), (''DECRBY'', cmdDecrBy),
    (''INCRBYFLOAT'', cmdIncrByFloat), (''APPEND'', cmdAppend), (''STRLEN'', cmdStrLen),
    (''GETRANGE'', cmdGetRange), (''SUBSTR'', cmdGetRange), (''SETRANGE'', cmdSetRange),
    (''GETDEL'', cmdGetDel)]"

definition list_commands :: "(string \<times> handler) list" where
  "list_commands =
   [(''LPUSH'', cmdLPush), (''RPUSH'', cmdRPush), (''LPUSHX'', cmdLPushX), (''RPUSHX'', cmdRPushX),
    (''LPOP'', cmdLPop), (''RPOP'', cmdRPop), (''LLEN'', cmdLLen), (''LRANGE'', cmdLRange),
    (''LINDEX'', cmdLIndex), (''LSET'', cmdLSet), (''LINSERT'', cmdLInsert), (''LREM'', cmdLRem),
    (''LTRIM'', cmdLTrim), (''RPOPLPUSH'', cmdRPopLPush), (''LMOVE'', cmdLMove)]"

definition hash_commands :: "(string \<times> handler) list" where
  "hash_commands =
   [(''HSET'', cmdHSet), (''HGET'', cmdHGet), (''HMSET'', cmdHMSet), (''HMGET'', cmdHMGet),
    (''HDEL'', cmdHDel), (''HEXISTS'', cmdHExists), (''HGETALL'', cmdHGetAll), (''HKEYS'', cmdHKeys),
    (''HVALS'', cmdHVals), (''HLEN'', cmdHLen), (''HINCRBY'', cmdHIncrBy),
    (''HINCRBYFLOAT'', cmdHIncrByFloat), (''HSETNX'', cmdHSetNX)]"

definition set_commands :: "(string \<times> handler) list" where
  "set_commands =
   [(''SADD'', cmdSAdd), (''SREM'', cmdSRem), (''SMEMBERS'', cmdSMembers), (''SISMEMBER'', cmdSIsMember),
    (''SMISMEMBER'', cmdSMIsMember), (''SCARD'', cmdSCard), (''SUNION'', cmdSUnion), (''SINTER'', cmdSInter),
    (''SDIFF'', cmdSDiff), (''SUNIONSTORE'', cmdSUnionStore), (''SINTERSTORE'', cmdSInterStore),
    (''SDIFFSTORE'', cmdSDiffStore), (''SMOVE'', cmdSMove), (''SPOP'', cmdSPop),
    (''SRANDMEMBER'', cmdSRandMember)]"

definition zset_commands :: "(string \<times> handler) list" where
  "zset_commands =
   [(''ZADD'', cmdZAdd), (''ZREM'', cmdZRem), (''ZSCORE'', cmdZScore), (''ZINCRBY'', cmdZIncrBy),
    (''ZRANK'', cmdZRank), (''ZREVRANK'', cmdZRevRank), (''ZRANGE'', cmdZRange),
    (''ZREVRANGE'', cmdZRevRange), (''ZRANGEBYSCORE'', cmdZRangeByScore),
    (''ZREVRANGEBYSCORE'', cmdZRevRangeByScore), (''ZCARD'', cmdZCard), (''ZCOUNT'', cmdZCount),
    (''ZPOPMIN'', cmdZPopMin), (''ZPOPMAX'', cmdZPopMax), (''ZRANGEBYLEX'', cmdZRangeByLex)]"

definition key_commands :: "(string \<times> handler) list" where
  "key_commands =
   [(''DEL'', cmdDel), (''UNLINK'', cmdDel), (''EXISTS'', cmdExists), (''EXPIRE'', cmdExpire),
    (''EXPIREAT'', cmdExpireAt), (''PEXPIRE'', cmdPExpire), (''PEXPIREAT'', cmdPExpireAt), (''TTL'', cmdTTL),
    (''PTTL'', cmdPTTL), (''PERSIST'', cmdPersist), (''RENAME'', cmdRename), (''RENAMENX'', cmdRenameNX),
    (''TYPE'', cmdType), (''KEYS'', cmdKeys), (''SCAN'', cmdScan), (''RANDOMKEY'', cmdRandomKey),
    (''COPY'', cmdCopy), (''OBJECT'', cmdObject)]"

definition server_commands :: "(string \<times> handler) list" where
  "server_commands =
   [(''PING'', cmdPing), (''ECHO'', cmdEcho), (''SELECT'', cmdSelect), (''DBSIZE'', cmdDBSize),
    (''FLUSHDB'', cmdFlushDB), (''FLUSHALL'', cmdFlushAll), (''INFO'', cmdInfo), (''CONFIG'', cmdConfig),
    (''COMMAND'', cmdCommand), (''DEBUG'', cmdDebug), (''SAVE'', cmdSave), (''BGSAVE'', cmdBgSave),
    (''LASTSAVE'', cmdLastSave)]"

definition registerAll :: "(string \<times> handler) list" where
  "registerAll =
     string_commands @ list_commands @ hash_commands @ set_commands @ zset_commands @ key_commands @ server_commands"

text \<open>\<open>Registry.Get\<close>: names are looked up in upper case.\<close>

definition Registry_Get :: "string \<Rightarrow> handler option" where
  "Registry_Get name = map_of registerAll (ToUpper name)"

section \<open>Which commands are written\<close>

definition write_commands :: "string list" where
  "write_commands =
   [''SET'', ''SETNX'', ''SETEX'', ''PSETEX'', ''MSET'', ''MSETNX'', ''GETSET'', ''GETDEL'', ''INCR'',
    ''INCRBY'', ''DECR'', ''DECRBY'', ''INCRBYFLOAT'', ''APPEND'', ''SETRANGE'', ''DEL'', ''UNLINK'',
    ''EXPIRE'', ''EXPIREAT'', ''PEXPIRE'', ''PEXPIREAT'', ''PERSIST'', ''RENAME'', ''RENAMENX'', ''COPY'',
    ''LPUSH'', ''RPUSH'', ''LPUSHX'', ''RPUSHX'', ''LPOP'', ''RPOP'', ''LSET'', ''LINSERT'', ''LREM'',
    ''LTRIM'', ''RPOPLPUSH'', ''LMOVE'', ''HSET'', ''HMSET'', ''HDEL'', ''HINCRBY'', ''HINCRBYFLOAT'',
    ''HSETNX'', ''SADD'', ''SREM'', ''SMOVE'', ''SPOP'', ''SUNIONSTORE'', ''SINTERSTORE'', ''SDIFFSTORE'',
    ''ZADD'', ''ZREM'', ''ZINCRBY'', ''ZPOPMIN'', ''ZPOPMAX'', ''FLUSHDB'', ''FLUSHALL'', ''SELECT'']"

definition isWriteCommand :: "string \<Rightarrow> bool" where
  "isWriteCommand cmd \<longleftrightarrow> cmd \<in> set write_commands"

section \<open>What holds of all commands\<close>

lemmas table_defs = string_commands_def list_commands_def hash_commands_def set_commands_def zset_commands_def
  key_commands_def server_commands_def

lemmas keeps_all = keeps_string keeps_list keeps_hash keeps_set keeps_zset keeps_key keeps_server

lemma table_keeps:
  "list_all (\<lambda>c. keeps (snd c)) string_commands" "list_all (\<lambda>c. keeps (snd c)) list_commands"
  "list_all (\<lambda>c. keeps (snd c)) hash_commands" "list_all (\<lambda>c. keeps (snd c)) set_commands"
  "list_all (\<lambda>c. keeps (snd c)) zset_commands" "list_all (\<lambda>c. keeps (snd c)) key_commands"
  "list_all (\<lambda>c. keeps (snd c)) server_commands"
  by (simp_all only: table_defs list.pred_inject snd_conv keeps_all simp_thms)

lemma registered_keeps: "Registry_Get name = Some h \<Longrightarrow> keeps h"
proof -
  assume "Registry_Get name = Some h"
  then have "(ToUpper name, h) \<in> set registerAll" unfolding Registry_Get_def by (rule map_of_SomeD)
  moreover have "list_all (\<lambda>c. keeps (snd c)) registerAll"
    using table_keeps by (simp only: registerAll_def list_all_append simp_thms)
  ultimately show "keeps h" by (auto simp: list_all_iff)
qed

definition logged_or_reads :: "string \<times> handler \<Rightarrow> bool" where
  "logged_or_reads c \<longleftrightarrow> isWriteCommand (fst c) \<or> reads (snd c)"

lemma table_logged:
  "list_all logged_or_reads string_commands" "list_all logged_or_reads list_commands"
  "list_all logged_or_reads hash_commands" "list_all logged_or_reads set_commands"
  "list_all logged_or_reads zset_commands" "list_all logged_or_reads key_commands"
  "list_all logged_or_reads server_commands"
proof -
  show "list_all logged_or_reads string_commands"
    by (simp add: string_commands_def logged_or_reads_def isWriteCommand_def write_commands_def reads_string)
  show "list_all logged_or_reads list_commands"
    by (simp add: list_commands_def logged_or_reads_def isWriteCommand_def write_commands_def reads_list)
  show "list_all logged_or_reads hash_commands"
    by (simp add: hash_commands_def logged_or_reads_def isWriteCommand_def write_commands_def reads_hash)
  show "list_all logged_or_reads set_commands"
    by (simp add: set_commands_def logged_or_reads_def isWriteCommand_def write_commands_def reads_set)
  show "list_all logged_or_reads zset_commands"
    by (simp add: zset_commands_def logged_or_reads_def isWriteCommand_def write_commands_def reads_zset)
  show "list_all logged_or_reads key_commands"
    by (simp add: key_commands_def logged_or_reads_def isWriteCommand_def write_commands_def reads_key)
  show "list_all logged_or_reads server_commands"
    by (simp add: server_commands_def logged_or_reads_def isWriteCommand_def write_commands_def reads_server)
qed

lemma registered_logged: "Registry_Get name = Some h \<Longrightarrow> \<not> isWriteCommand (ToUpper name) \<Longrightarrow> reads h"
proof -
  assume h: "Registry_Get name = Some h" and n: "\<not> isWriteCommand (ToUpper name)"
  from h have "(ToUpper name, h) \<in> set registerAll" unfolding Registry_Get_def by (rule map_of_SomeD)
  moreover have "list_all logged_or_reads registerAll"
    using table_logged by (simp only: registerAll_def list_all_append simp_thms)
  ultimately show "reads h" using n by (auto simp: list_all_iff logged_or_reads_def)
qed

end
