(* ===== verification/Cmd_Invariant.thy ===== *)
theory Cmd_Invariant
  imports Registry Eviction
begin

text \<open>
  Further invariants of a database. The locale \<open>db_invariant\<close> says what an invariant must
  stand: keys that go or change their expiry, new values, writes through a pointer, renaming. Every
  command of the table but \<open>COPY\<close>, \<open>ZADD\<close> and \<open>ZINCRBY\<close> keeps every such invariant. There are
  two: no two keys share a value (which only \<open>COPY\<close> breaks), and every sorted set is
  in step with its skip list (which only a NaN breaks).
\<close>

section \<open>The interface\<close>

definition preserves :: "(db \<Rightarrow> bool) \<Rightarrow> handler \<Rightarrow> bool" where
  "preserves I h \<longleftrightarrow> (\<forall>e args d. env_ok e \<longrightarrow> wf_db d \<longrightarrow> I d \<longrightarrow> guards (h e args d) (\<lambda>p. I (snd p)))"

lemma preservesI:
  "(\<And>e args d. env_ok e \<Longrightarrow> wf_db d \<Longrightarrow> I d \<Longrightarrow> guards (h e args d) (\<lambda>p. I (snd p))) \<Longrightarrow> preserves I h"
  by (simp add: preserves_def)

text \<open>The database with a fresh cell behind key \<open>k\<close>.\<close>

definition with_new :: "env \<Rightarrow> string \<Rightarrow> ValueType \<Rightarrow> cell \<Rightarrow> db \<Rightarrow> db" where
  "with_new e k t c d = db_Set e k (new_object t (VRef (next_ref d)))
     (d\<lparr>heap := (heap d)(next_ref d \<mapsto> c), next_ref := Suc (next_ref d)\<rparr>)"

text \<open>A lookup for reading gives the database of \<open>Get\<close>, one for writing that or one with a fresh cell.\<close>

lemma get_value_db: "get_value t e k d = Ret (r, d') \<Longrightarrow> d' = snd (db_Get e k d)"
  by (auto simp: get_value_def go_bind_eq_Ret split: prod.splits option.splits if_splits)

lemma get_or_create_db:
  "get_or_create t c e k d = Ret (r, d') \<Longrightarrow> d' = snd (db_Get e k d) \<or> d' = with_new e k t c (snd (db_Get e k d))"
  by (auto simp: get_or_create_def with_new_def new_cell_def go_bind_eq_Ret split: prod.splits option.splits if_splits)

context container
begin

lemma guards_get_value_inv:
  assumes "wf_db d" and "I (snd (db_Get e k d))"
    and "\<And>d'. wf_db d' \<Longrightarrow> I d' \<Longrightarrow> Q (Inl wrongTypeErr, d')" and "\<And>d'. wf_db d' \<Longrightarrow> I d' \<Longrightarrow> Q (Inr None, d')"
    and "\<And>d' a x. wf_db d' \<Longrightarrow> I d' \<Longrightarrow> heap d' a = Some (wrap x) \<Longrightarrow> ok x \<Longrightarrow> value_at d' a = x \<Longrightarrow> Q (Inr (Some a), d')"
  shows "guards (get_value tag e k d) Q"
  using assms get_value_db[of tag e k d] by (cases rule: get_value_cases[of d e k]) auto

lemma guards_get_or_create_inv:
  assumes "wf_db d" and "I (snd (db_Get e k d))" and "I (with_new e k tag (wrap init) (snd (db_Get e k d)))"
    and "\<And>d'. wf_db d' \<Longrightarrow> I d' \<Longrightarrow> Q (Inl wrongTypeErr, d')"
    and "\<And>d' a x. wf_db d' \<Longrightarrow> I d' \<Longrightarrow> heap d' a = Some (wrap x) \<Longrightarrow> ok x \<Longrightarrow> value_at d' a = x \<Longrightarrow> Q (Inr a, d')"
  shows "guards (get_or_create tag (wrap init) e k d) Q"
proof -
  have I: "I d'" if "get_or_create tag (wrap init) e k d = Ret (r, d')" for r d'
    using get_or_create_db[OF that] assms(2,3) by auto
  from assms(1) show ?thesis
    using assms(4,5) I ok_empty by (cases rule: get_or_create_cases[of d e k]) auto
qed

end

lemma zadd_options_subset: "set (snd (zadd_options args opts)) \<subseteq> set args"
  by (induction args opts rule: zadd_options.induct) (auto simp: Let_def)

locale db_invariant =
  fixes I :: "db \<Rightarrow> bool" and zok :: "zset \<Rightarrow> bool" and sok :: "float64 \<Rightarrow> bool"
  assumes fewer: "I d \<Longrightarrow> heap d' = heap d \<Longrightarrow> (\<And>k a. refs d' k = Some a \<Longrightarrow> refs d k = Some a) \<Longrightarrow> I d'"
    and make: "wf_db d \<Longrightarrow> I d \<Longrightarrow> (\<And>z. c = CZSet z \<Longrightarrow> zok z) \<Longrightarrow> I (with_new e k t c d)"
    and put: "I d \<Longrightarrow> (\<And>z. c = CZSet z \<Longrightarrow> zok z) \<Longrightarrow> I (put_cell a c d)"
    and moved: "I d \<Longrightarrow> I (snd (db_Rename e k k' d))"
    and stored: "I d \<Longrightarrow> heap d a = Some (CZSet z) \<Longrightarrow> zok z"
    and zok_New: "zok NewZSet" and zok_Remove: "zok z \<Longrightarrow> zok (snd (ZSet_Remove m z))"
    and zok_Add: "zok z \<Longrightarrow> sok sc \<Longrightarrow> zok (snd (ZSet_Add (randomLevel coins) sc m z))"
begin

text \<open>The operations of a database.\<close>

lemma inv_Get: "I d \<Longrightarrow> I (snd (db_Get e k d))"
  by (erule fewer) (auto simp: refs_def db_Get_def split: option.splits if_splits)

lemma inv_Set: "I d \<Longrightarrow> (\<And>a. oValue o1 \<noteq> VRef a) \<Longrightarrow> I (db_Set e k o1 d)"
proof (erule fewer)
  assume "\<And>a. oValue o1 \<noteq> VRef a"
  then obtain s where "oValue o1 = VStr s" by (cases "oValue o1") auto
  then show "refs (db_Set e k o1 d) k' = Some a \<Longrightarrow> refs d k' = Some a" for k' a
    by (cases "k' = k") (simp_all add: refs_def db_Set_def)
qed (simp add: db_Set_def)

lemma inv_Del: "I d \<Longrightarrow> I (snd (db_Del ks d))"
proof (erule fewer)
  show "refs (snd (db_Del ks d)) k = Some a \<Longrightarrow> refs d k = Some a" for k a by (rule refs_Del)
  show "heap (snd (db_Del ks d)) = heap d" by (rule db_Del_heap)
qed

lemma inv_drop: "I d \<Longrightarrow> I (drop_empty k b d)"
  by (simp add: drop_empty_def inv_Del del: db_Del.simps)

lemma inv_expiry: "I d \<Longrightarrow> I (snd (db_SetExpiry e k t d))" "I d \<Longrightarrow> I (snd (db_RemoveExpiry k d))"
  by (erule fewer; auto simp: refs_def db_SetExpiry_def db_RemoveExpiry_def split: option.splits if_splits)+

lemma inv_Flush: "I d \<Longrightarrow> I (db_Flush d)"
  by (erule fewer) (simp_all add: refs_def db_Flush_def)

lemma inv_put: "I d \<Longrightarrow> I (put_cell a (CList l) d)" "I d \<Longrightarrow> I (put_cell a (CHash h) d)" "I d \<Longrightarrow> I (put_cell a (CSet s) d)"
    "I d \<Longrightarrow> zok z \<Longrightarrow> I (put_cell a (CZSet z) d)"
  by (erule put; simp)+

lemma inv_make: "wf_db d \<Longrightarrow> I d \<Longrightarrow> I (with_new e k TypeList (CList NewList) d)" "wf_db d \<Longrightarrow> I d \<Longrightarrow> I (with_new e k TypeHash (CHash h) d)"
    "wf_db d \<Longrightarrow> I d \<Longrightarrow> I (with_new e k TypeSet (CSet s) d)" "wf_db d \<Longrightarrow> I d \<Longrightarrow> I (with_new e k TypeZSet (CZSet NewZSet) d)"
  by (erule make; simp add: zok_New)+

lemma inv_get:
  assumes "wf_db d" and "I d"
    and "\<And>r d'. wf_db d' \<Longrightarrow> I d' \<Longrightarrow> (\<And>o1. r = Some o1 \<Longrightarrow> obj_ok (heap d') o1) \<Longrightarrow> guards (f r d') Q"
  shows "guards (case_prod f (db_Get e k d)) Q"
  using assms inv_Get[of d e k] db_Get_facts[OF assms(1)] by (cases "db_Get e k d") auto

lemma inv_present:
  assumes "wf_db d" and "I d" and "\<And>b d'. wf_db d' \<Longrightarrow> I d' \<Longrightarrow> guards (f b d') Q"
  shows "guards (case_prod f (present e k d)) Q"
  unfolding present_def
  using inv_get[OF assms(1,2), of "\<lambda>r d. f (r \<noteq> None) d" Q e k] assms(3)
  by (cases "db_Get e k d") (auto split: option.splits)

lemma inv_Evict: "I d \<Longrightarrow> I (snd (Evict e policy d))"
proof -
  assume I: "I d"
  then have "I (snd (evict_key r d))" for r
  proof (rule fewer)
    show "heap (snd (evict_key r d)) = heap d" by (simp add: evict_key_def split: option.split)
    show "refs (snd (evict_key r d)) k = Some a \<Longrightarrow> refs d k = Some a" for k a
      by (auto simp: evict_key_def refs_def split: option.splits if_splits)
  qed
  with I show ?thesis
    by (cases policy) (simp_all add: Evict_def evictLRU_def evictLFU_def evictRandom_def evictByTTL_def Let_def)
qed

text \<open>Commands on strings.\<close>

lemma inv_mset_loop: "I d \<Longrightarrow> I (mset_loop e args d)"
  by (induction e args d rule: mset_loop.induct) (simp_all add: string_object_def new_object_def inv_Set)

lemma inv_incrBy: "preserves I (incrBy n)"
  by (rule preservesI) (auto simp: incrBy_def Let_def string_object_def new_object_def intro!: inv_get guards_assert_string inv_Set
      split: option.split)

lemma string_preserves:
  "preserves I cmdSet" "preserves I cmdGetSet" "preserves I cmdGetDel" "preserves I cmdMSet" 
  "preserves I cmdSetNX" "preserves I cmdSetEX" "preserves I cmdPSetEX"
proof -
  show "preserves I cmdSet"
    by (rule preservesI) (auto simp: cmdSet_def Let_def string_object_def new_object_def intro!: inv_present inv_Set split: sum.split)
  show "preserves I cmdGetSet" "preserves I cmdGetDel"
    by (rule preservesI, auto simp: cmdGetSet_def cmdGetDel_def Let_def string_object_def new_object_def simp del: db_Del.simps
        intro!: inv_get guards_assert_string inv_Set inv_Del split: option.split)+
  show "preserves I cmdMSet"
    by (rule preservesI) (auto simp: cmdMSet_def inv_mset_loop)
  show "preserves I cmdSetNX"
    by (rule preservesI) (auto simp: cmdSetNX_def string_object_def new_object_def intro!: inv_present inv_Set)
  show "preserves I cmdSetEX" "preserves I cmdPSetEX"
    by (rule preservesI, auto simp: cmdSetEX_def cmdPSetEX_def string_object_def new_object_def intro!: inv_Set split: option.split)+
qed

lemma inv_mget_loop: "wf_db d \<Longrightarrow> I d \<Longrightarrow> guards (mget_loop e ks d) (\<lambda>p. I (snd p))"
proof (induction ks arbitrary: d)
  case (Cons k ks)
  note IH = guards_mono[OF Cons.IH]
  show ?case using Cons.prems
    by (auto intro!: inv_get IH guards_assert_string split: option.split)
qed simp

lemma inv_msetnx_check: "I d \<Longrightarrow> I (snd (msetnx_check e args d))"
proof (induction e args d rule: msetnx_check.induct)
  case (1 e k v rest d)
  obtain p d1 where p: "present e k d = (p, d1)" by fastforce
  then have "I d1" using inv_Get[OF "1.prems", of e k] by (auto simp: present_def split: prod.splits)
  with 1(1)[OF p[symmetric]] p show ?case by (cases p) simp_all
qed simp_all

lemma string_preserves_others:
  "preserves I cmdGet" "preserves I cmdMGet" "preserves I cmdStrLen" "preserves I cmdIncr" "preserves I cmdDecr"
  "preserves I cmdIncrBy" "preserves I cmdDecrBy" "preserves I cmdIncrByFloat" "preserves I cmdAppend"
  "preserves I cmdGetRange" "preserves I cmdSetRange" "preserves I cmdMSetNX"
proof -
  show "preserves I cmdGet" "preserves I cmdStrLen" "preserves I cmdGetRange"
    by (rule preservesI, auto simp: cmdGet_def cmdStrLen_def cmdGetRange_def intro!: inv_get guards_assert_string
        split: option.split)+
  show "preserves I cmdMGet"
    by (rule preservesI) (auto simp: cmdMGet_def intro!: guards_mono[OF inv_mget_loop])
  show "preserves I cmdIncr" "preserves I cmdDecr"
    by (simp_all add: cmdIncr_def cmdDecr_def inv_incrBy)
  show "preserves I cmdIncrBy" "preserves I cmdDecrBy"
    using inv_incrBy by (auto simp: preserves_def cmdIncrBy_def cmdDecrBy_def split: option.split)
  show "preserves I cmdIncrByFloat"
    by (rule preservesI) (auto simp: cmdIncrByFloat_def Let_def string_object_def new_object_def
        intro!: inv_get guards_assert_string inv_Set split: option.split sum.split)
  show "preserves I cmdAppend"
    by (rule preservesI) (auto simp: cmdAppend_def Let_def string_object_def new_object_def
        intro!: inv_get guards_string_or_empty inv_Set split: sum.split)
  show "preserves I cmdSetRange"
    by (rule preservesI) (auto simp: cmdSetRange_def Let_def string_object_def new_object_def
        intro!: inv_get guards_string_or_empty inv_Set copy_at_guards split: sum.split)
  show "preserves I cmdMSetNX"
  proof (rule preservesI)
    fix e args d assume d: "I d"
    from inv_msetnx_check[OF d, of e args] d show "guards (cmdMSetNX e args d) (\<lambda>p. I (snd p))"
      by (auto simp: cmdMSetNX_def inv_mset_loop split: prod.split)
  qed
qed

lemmas string_preserves_all = string_preserves string_preserves_others

text \<open>Commands on lists.\<close>

lemmas inv_getList = list_value.guards_get_value_inv[where I = I, folded getList_def, OF _ inv_Get]
lemmas inv_getHash = hash_value.guards_get_value_inv[where I = I, folded getHash_def, OF _ inv_Get]
lemmas inv_getSet = set_value.guards_get_value_inv[where I = I, folded getSet_def, OF _ inv_Get]
lemmas inv_getZSet = zset_value.guards_get_value_inv[where I = I, folded getZSet_def, OF _ inv_Get]
lemmas inv_getOrCreateList = list_value.guards_get_or_create_inv[where I = I, folded getOrCreateList_def,
  OF _ inv_Get inv_make(1)[OF db_Get_wf inv_Get]]
lemmas inv_getOrCreateHash = hash_value.guards_get_or_create_inv[where I = I, folded getOrCreateHash_def,
  OF _ inv_Get inv_make(2)[OF db_Get_wf inv_Get]]
lemmas inv_getOrCreateSet = set_value.guards_get_or_create_inv[where I = I, folded getOrCreateSet_def,
  OF _ inv_Get inv_make(3)[OF db_Get_wf inv_Get]]
lemmas inv_getOrCreateZSet = zset_value.guards_get_or_create_inv[where I = I, folded getOrCreateZSet_def,
  OF _ inv_Get inv_make(4)[OF db_Get_wf inv_Get]]

lemma inv_pop:
  assumes "I d"
  shows "guards (pop_many pop k n a d) (\<lambda>p. I (snd p))" and "guards (pop_one pop k a d) (\<lambda>p. I (snd p))"
  using assms by (auto simp: pop_many_def pop_one_def Let_def split_beta intro!: make_slice_guards inv_drop inv_put)

lemma list_preserves:
  "preserves I cmdLPush" "preserves I cmdRPush" "preserves I cmdLPushX" "preserves I cmdRPushX"
  "preserves I cmdLPop" "preserves I cmdRPop" "preserves I cmdLSet" "preserves I cmdLInsert" "preserves I cmdLRem"
  "preserves I cmdLTrim" "preserves I cmdLLen" "preserves I cmdLRange" "preserves I cmdLIndex"
proof -
  show "preserves I cmdLPush" "preserves I cmdRPush" "preserves I cmdLPushX" "preserves I cmdRPushX"
    by (rule preservesI, auto simp: cmdLPush_def cmdRPush_def cmdLPushX_def cmdRPushX_def Let_def
      simp del: LPush.simps RPush.simps intro!: inv_getOrCreateList inv_getList inv_put)+
  show "preserves I cmdLPop" "preserves I cmdRPop"
    by (rule preservesI, auto simp: cmdLPop_def cmdRPop_def intro!: inv_getList inv_pop split: sum.split option.split)+
  show "preserves I cmdLSet" "preserves I cmdLInsert" "preserves I cmdLRem" "preserves I cmdLTrim"
    by (rule preservesI, auto simp: cmdLSet_def cmdLInsert_def cmdLRem_def cmdLTrim_def Let_def split_beta
      intro!: inv_getList inv_drop inv_put split: option.split)+
  show "preserves I cmdLLen" "preserves I cmdLRange" "preserves I cmdLIndex"
    by (rule preservesI, auto simp: cmdLLen_def cmdLRange_def cmdLIndex_def intro!: inv_getList split: option.split)+
qed

lemma inv_take:
  assumes "wf_db d" and "I d" and "heap d a = Some (CList l)" and "list_wf (snd p)"
    and "\<And>val d. wf_db d \<Longrightarrow> I d \<Longrightarrow> guards (g val d) (\<lambda>p. I (snd p))"
  shows "guards (case p of (None, l) \<Rightarrow> Ret (nullBulkResp, put_cell a (CList l) d)
      | (Some val, l) \<Rightarrow> let d = drop_empty k (Len l = 0) (put_cell a (CList l) d) in g val d) (\<lambda>p. I (snd p))"
  using assms list_value.put_wf[OF assms(1,3,4)] inv_put(1)[OF assms(2)]
  by (cases p) (auto simp: drop_empty_wf inv_drop Let_def split: option.split)

lemma inv_push:
  "wf_db d \<Longrightarrow> I d \<Longrightarrow> guards (or_reply (getOrCreateList e k d) (\<lambda>b d.
      Ret (r, put_cell b (CList (LPush [v] (list_at d b))) d))) (\<lambda>p. I (snd p))"
  "wf_db d \<Longrightarrow> I d \<Longrightarrow> guards (or_reply (getOrCreateList e k d) (\<lambda>b d.
      if left then Ret (r, put_cell b (CList (LPush [v] (list_at d b))) d)
      else if right then Ret (r, put_cell b (CList (RPush [v] (list_at d b))) d) else Ret (r', d)))
    (\<lambda>p. I (snd p))"
  by (auto simp del: LPush.simps RPush.simps intro!: inv_getOrCreateList inv_put)

lemma move_preserves: "preserves I cmdRPopLPush" "preserves I cmdLMove"
proof -
  show "preserves I cmdRPopLPush"
  proof (rule preservesI)
    fix e args d assume d: "wf_db d" "I d"
    show "guards (cmdRPopLPush e args d) (\<lambda>p. I (snd p))"
    proof (cases "length args = 2")
      case True
      then show ?thesis
        unfolding cmdRPopLPush_def guards_or_reply if_not_P[OF iffD2[OF not_not True]]
        using d by (intro inv_getList) (auto simp del: guards_or_reply LPush.simps intro!: inv_take inv_push list_op_wf)
    qed (simp add: cmdRPopLPush_def d)
  qed
  show "preserves I cmdLMove"
  proof (rule preservesI)
    fix e args d assume d: "wf_db d" "I d"
    have two: "list_wf (snd ((if left then LPop else RPop) l))" if "list_wf l" for l left
      using list_op_wf(3,4)[OF that] by simp
    show "guards (cmdLMove e args d) (\<lambda>p. I (snd p))"
    proof (cases "length args = 4")
      case True
      then show ?thesis
        unfolding cmdLMove_def Let_def[of "ToUpper _"] guards_or_reply if_not_P[OF iffD2[OF not_not True]]
        using d by (intro inv_getList) (simp_all add: inv_take inv_push two del: guards_or_reply)
    qed (simp add: cmdLMove_def d)
  qed
qed

text \<open>Commands on hashes and sets.\<close>

lemma inv_hash_range: "preserves I (hash_range name f)"
  by (rule preservesI) (auto simp: hash_range_def intro!: inv_getHash split: option.split)

lemma hash_preserves:
  "preserves I cmdHGet" "preserves I cmdHMGet" "preserves I cmdHExists" "preserves I cmdHLen" "preserves I cmdHGetAll"
  "preserves I cmdHKeys" "preserves I cmdHVals" "preserves I cmdHSet" "preserves I cmdHMSet" "preserves I cmdHSetNX"
  "preserves I cmdHDel" "preserves I cmdHIncrBy" "preserves I cmdHIncrByFloat"
proof -
  show "preserves I cmdHGet" "preserves I cmdHMGet" "preserves I cmdHExists" "preserves I cmdHLen"
    by (rule preservesI, auto simp: cmdHGet_def cmdHMGet_def cmdHExists_def cmdHLen_def intro!: inv_getHash split: option.split)+
  show "preserves I cmdHGetAll" "preserves I cmdHKeys" "preserves I cmdHVals"
    by (simp_all add: cmdHGetAll_def cmdHKeys_def cmdHVals_def inv_hash_range)
  show "preserves I cmdHSet" "preserves I cmdHMSet" "preserves I cmdHSetNX"
    "preserves I cmdHDel" "preserves I cmdHIncrBy" "preserves I cmdHIncrByFloat"
    by (rule preservesI, auto simp: cmdHSet_def cmdHMSet_def cmdHSetNX_def cmdHDel_def cmdHIncrBy_def cmdHIncrByFloat_def
        split_beta Let_def intro!: guards_need_int inv_getOrCreateHash inv_getHash inv_put inv_drop split: option.split)+
qed

lemma inv_collectSets:
  "wf_db d \<Longrightarrow> I d \<Longrightarrow> guards (collectSets e ks d) (\<lambda>p. wf_db (snd p) \<and> I (snd p))"
proof (induction ks arbitrary: d)
  case (Cons k ks)
  note IH = guards_mono[OF Cons.IH]
  show ?case using Cons.prems
    by (auto intro!: inv_getSet IH split: option.split sum.split)
qed simp

lemma inv_storeSetResult:
  assumes "wf_db d" and "I d"
  shows "I (snd (storeSetResult e k s d))"
proof -
  have "I (snd (db_Del [k] d))" "wf_db (snd (db_Del [k] d))"
    using inv_Del[OF assms(2)] db_Del_wf[OF assms(1)] .
  with inv_make(3)[of "snd (db_Del [k] d)" e k s] show ?thesis
    by (simp add: storeSetResult_def Let_def new_cell_def with_new_def del: db_Del.simps)
qed

lemma inv_combine: "preserves I (set_combine name f)" "preserves I (set_combine_store name g)"
proof -
  show "preserves I (set_combine name f)"
    by (rule preservesI) (auto simp: set_combine_def intro!: guards_mono[OF inv_collectSets] split: sum.split)
  show "preserves I (set_combine_store name g)"
    by (rule preservesI) (auto simp: set_combine_store_def inv_storeSetResult
        intro!: guards_mono[OF inv_collectSets] split: sum.split)
qed

lemma set_preserves:
  "preserves I cmdSMembers" "preserves I cmdSIsMember" "preserves I cmdSMIsMember" "preserves I cmdSCard"
  "preserves I cmdSUnion" "preserves I cmdSInter" "preserves I cmdSDiff" "preserves I cmdSRandMember" "preserves I cmdSAdd"
  "preserves I cmdSRem" "preserves I cmdSMove" "preserves I cmdSPop" "preserves I cmdSUnionStore" "preserves I cmdSInterStore"
  "preserves I cmdSDiffStore"
proof -
  show "preserves I cmdSMembers" "preserves I cmdSIsMember" "preserves I cmdSMIsMember" "preserves I cmdSCard"
    by (rule preservesI, auto simp: cmdSMembers_def cmdSIsMember_def cmdSMIsMember_def cmdSCard_def
        intro!: inv_getSet split: option.split)+
  show "preserves I cmdSUnion" "preserves I cmdSInter" "preserves I cmdSDiff" "preserves I cmdSUnionStore"
    "preserves I cmdSInterStore" "preserves I cmdSDiffStore"
    by (simp_all add: cmdSUnion_def cmdSInter_def cmdSDiff_def cmdSUnionStore_def cmdSInterStore_def cmdSDiffStore_def
        inv_combine)
  show "preserves I cmdSRandMember"
    by (rule preservesI) (auto simp: cmdSRandMember_def Let_def intro!: inv_getSet draw_guards make_slice_guards draws_guards
        split: option.split)
  show "preserves I cmdSAdd" "preserves I cmdSRem" "preserves I cmdSMove" "preserves I cmdSPop"
    by (rule preservesI, auto simp: cmdSAdd_def cmdSRem_def cmdSMove_def cmdSPop_def split_beta Let_def
        intro!: inv_getOrCreateSet inv_getSet inv_put inv_drop set_puts split: option.split)+
qed

text \<open>Commands on sorted sets.\<close>

lemma inv_zset_at: "I d \<Longrightarrow> heap d a = Some (CZSet (zset_at d a)) \<Longrightarrow> zok (zset_at d a)"
  by (rule stored)

lemma zok_zadd_loop:
  "zok z \<Longrightarrow> \<forall>w \<in> set ps. \<forall>sc. parseScore w = Some sc \<longrightarrow> sok sc \<Longrightarrow> zok (snd (zadd_loop e opts i ps added changed z))"
proof (induction e opts i ps added changed z rule: zadd_loop.induct)
  case (1 e opts i s m rest added changed z)
  show ?case
  proof (cases "parseScore s")
    case (Some sc)
    obtain w z' where z': "ZSet_Add (randomLevel (coin e i)) sc m z = (w, z')" by fastforce
    have "sok sc" using "1.prems"(2) Some by simp
    then have "zok z'" using zok_Add[OF "1.prems"(1)] z' by (metis snd_conv)
    with 1 Some z' show ?thesis by simp
  qed (use 1 in simp)
qed simp_all

lemma zok_zrem_loop: "zok z \<Longrightarrow> zok (snd (zrem_loop ms n z))"
proof (induction ms n z rule: zrem_loop.induct)
  case (2 m ms n z)
  then show ?case using zok_Remove[of z m] by (auto simp: split_beta)
qed simp

lemma zok_zpop_loop: "zok z \<Longrightarrow> zok (snd (zpop_loop pick n z))"
proof (induction pick n z rule: zpop_loop.induct)
  case (2 pick n z)
  then show ?case using zok_Remove by (auto simp: split_beta split: option.split)
qed simp

lemma inv_zrange: "preserves I (zrank name f)" "preserves I (zrange_by_score name g)" "preserves I (zpop name pick)"
proof -
  show "preserves I (zrank name f)"
    by (rule preservesI) (auto simp: zrank_def intro!: inv_getZSet split: option.split)
  show "preserves I (zrange_by_score name g)"
    by (rule preservesI) (auto simp: zrange_by_score_def split_beta Let_def intro!: inv_getZSet split: option.split)
  show "preserves I (zpop name pick)"
    by (rule preservesI) (auto simp: zpop_def split_beta intro!: inv_getZSet inv_drop inv_put zok_zpop_loop inv_zset_at
        split: option.split)
qed

lemma zset_preserves:
  "preserves I cmdZScore" "preserves I cmdZRank" "preserves I cmdZRevRank" "preserves I cmdZCard" "preserves I cmdZRange"
  "preserves I cmdZRevRange" "preserves I cmdZRangeByScore" "preserves I cmdZRevRangeByScore" "preserves I cmdZCount"
  "preserves I cmdZRangeByLex" "preserves I cmdZPopMin" "preserves I cmdZPopMax" "preserves I cmdZRem"
proof -
  show "preserves I cmdZScore" "preserves I cmdZCard" "preserves I cmdZRange" "preserves I cmdZRevRange"
    "preserves I cmdZCount" "preserves I cmdZRangeByLex"
    by (rule preservesI, auto simp: cmdZScore_def cmdZCard_def cmdZRange_def cmdZRevRange_def cmdZCount_def
        cmdZRangeByLex_def split_beta Let_def intro!: inv_getZSet split: option.split)+
  show "preserves I cmdZRank" "preserves I cmdZRevRank" "preserves I cmdZRangeByScore" "preserves I cmdZRevRangeByScore"
    "preserves I cmdZPopMin" "preserves I cmdZPopMax"
    by (simp_all add: cmdZRank_def cmdZRevRank_def cmdZRangeByScore_def cmdZRevRangeByScore_def cmdZPopMin_def
        cmdZPopMax_def inv_zrange)
  show "preserves I cmdZRem"
    by (rule preservesI) (auto simp: cmdZRem_def split_beta intro!: inv_getZSet inv_drop inv_put zok_zrem_loop inv_zset_at
        split: option.split)
qed

lemma zadd_preserves:
  assumes "wf_db d" and "I d" and "\<forall>w \<in> set args. \<forall>sc. parseScore w = Some sc \<longrightarrow> sok sc"
  shows "guards (cmdZAdd e args d) (\<lambda>p. I (snd p))"
proof -
  obtain opts ps where o: "zadd_options (tl args) no_zadd_opts = (opts, ps)" by fastforce
  have "set ps \<subseteq> set args"
    using zadd_options_subset[of "tl args" no_zadd_opts] o by (cases args) auto
  with assms(3) have "\<forall>w \<in> set ps. \<forall>sc. parseScore w = Some sc \<longrightarrow> sok sc" by blast
  with assms(1,2) o show ?thesis
    by (auto simp: cmdZAdd_def split_beta intro!: inv_getOrCreateZSet inv_put zok_zadd_loop inv_zset_at)
qed

lemma zincrby_preserves:
  assumes "\<And>x y. sok (f_add x y)"
  shows "preserves I cmdZIncrBy"
  by (rule preservesI) (auto simp: cmdZIncrBy_def Let_def intro!: inv_getOrCreateZSet inv_put zok_Add assms inv_zset_at
      split: option.split)

text \<open>Commands on keys and on the server.\<close>

lemma key_preserves:
  "preserves I cmdDel" "preserves I cmdExists" "preserves I cmdExpire" "preserves I cmdExpireAt" "preserves I cmdPExpire"
  "preserves I cmdPExpireAt" "preserves I cmdTTL" "preserves I cmdPTTL" "preserves I cmdPersist" "preserves I cmdRename"
  "preserves I cmdRenameNX" "preserves I cmdType" "preserves I cmdKeys" "preserves I cmdScan" "preserves I cmdRandomKey"
  "preserves I cmdObject"
proof -
  show "preserves I cmdExists" "preserves I cmdTTL" "preserves I cmdPTTL" "preserves I cmdKeys" "preserves I cmdRandomKey"
    by (rule preservesI, simp add: cmdExists_def cmdTTL_def cmdPTTL_def cmdKeys_def cmdRandomKey_def Let_def)+
  show "preserves I cmdDel" "preserves I cmdRename" "preserves I cmdRenameNX"
    by (rule preservesI, auto simp: cmdDel_def cmdRename_def cmdRenameNX_def split_beta inv_Del moved simp del: db_Del.simps)+
  show "preserves I cmdExpire" "preserves I cmdExpireAt" "preserves I cmdPExpire" "preserves I cmdPExpireAt"
    "preserves I cmdPersist"
    by (rule preservesI, auto simp: cmdExpire_def cmdExpireAt_def cmdPExpire_def cmdPExpireAt_def cmdPersist_def
        bool_reply_def split_beta inv_expiry intro!: guards_need_int)+
  show "preserves I cmdType"
    by (rule preservesI) (auto simp: cmdType_def db_Type_def split_beta inv_Get split: option.split)
  show "preserves I cmdObject"
    by (rule preservesI) (auto simp: cmdObject_def Let_def intro!: inv_get split: option.split)
  have loop: "guards (scan_loop K w cnt start n i r) (\<lambda>_. True)" for K w cnt start n i r
    by (induction K w cnt start n i r rule: scan_loop.induct) (auto simp: Let_def conversion_panic_def)
  have "guards (db_Scan e c n p t d) (\<lambda>_. True)" for e c n p t d
    by (auto simp: db_Scan_def Let_def intro!: guards_mono[OF loop])
  then show "preserves I cmdScan"
    by (intro preservesI) (auto simp: cmdScan_def split: option.split prod.split intro!: guards_mono[of _ "\<lambda>_. True"])
qed

lemma server_preserves:
  "preserves I cmdPing" "preserves I cmdEcho" "preserves I cmdSelect" "preserves I cmdDBSize" "preserves I cmdInfo"
  "preserves I cmdConfig" "preserves I cmdCommand" "preserves I cmdDebug" "preserves I cmdSave" "preserves I cmdBgSave"
  "preserves I cmdLastSave" "preserves I cmdFlushDB" "preserves I cmdFlushAll"
  by (rule preservesI, simp add: server_cmd_defs Let_def cmdFlushDB_def cmdFlushAll_def inv_Flush)+

lemmas all_preserve = string_preserves_all list_preserves move_preserves hash_preserves set_preserves zset_preserves
  key_preserves server_preserves

lemma table_preserves:
  "list_all (\<lambda>c. fst c \<in> {''COPY'', ''ZADD'', ''ZINCRBY''} \<or> preserves I (snd c)) string_commands"
  "list_all (\<lambda>c. fst c \<in> {''COPY'', ''ZADD'', ''ZINCRBY''} \<or> preserves I (snd c)) list_commands"
  "list_all (\<lambda>c. fst c \<in> {''COPY'', ''ZADD'', ''ZINCRBY''} \<or> preserves I (snd c)) hash_commands"
  "list_all (\<lambda>c. fst c \<in> {''COPY'', ''ZADD'', ''ZINCRBY''} \<or> preserves I (snd c)) set_commands"
  "list_all (\<lambda>c. fst c \<in> {''COPY'', ''ZADD'', ''ZINCRBY''} \<or> preserves I (snd c)) zset_commands"
  "list_all (\<lambda>c. fst c \<in> {''COPY'', ''ZADD'', ''ZINCRBY''} \<or> preserves I (snd c)) key_commands"
  "list_all (\<lambda>c. fst c \<in> {''COPY'', ''ZADD'', ''ZINCRBY''} \<or> preserves I (snd c)) server_commands"
  by (simp_all only: table_defs list.pred_inject fst_conv snd_conv insert_iff all_preserve simp_thms)

lemma registered_preserves:
  assumes "Registry_Get name = Some h" and "ToUpper name \<notin> {''COPY'', ''ZADD'', ''ZINCRBY''}"
  shows "preserves I h"
proof -
  have "(ToUpper name, h) \<in> set registerAll" using assms(1) unfolding Registry_Get_def by (rule map_of_SomeD)
  moreover have "list_all (\<lambda>c. fst c \<in> {''COPY'', ''ZADD'', ''ZINCRBY''} \<or> preserves I (snd c)) registerAll"
    using table_preserves by (simp only: registerAll_def list_all_append simp_thms)
  ultimately have "ToUpper name \<in> {''COPY'', ''ZADD'', ''ZINCRBY''} \<or> preserves I h"
    unfolding list_all_iff by (metis fst_conv snd_conv)
  with assms(2) show ?thesis by (simp only: simp_thms)
qed

end

section \<open>Values are apart\<close>

text \<open>\<open>apart d\<close>: no two keys have the same list, hash, set or sorted set as their value.\<close>

definition apart :: "db \<Rightarrow> bool" where
  "apart d \<longleftrightarrow> (\<forall>k. alone d k)"

lemma apart_iff: "apart d \<longleftrightarrow> (\<forall>k k' a. refs d k = Some a \<longrightarrow> refs d k' = Some a \<longrightarrow> k = k')"
  by (auto simp: apart_def alone_def)

lemma refs_with_new: "refs (with_new e k t c d) = (refs d)(k \<mapsto> next_ref d)"
  by (rule ext) (simp add: with_new_def refs_def db_Set_def new_object_def)

lemma refs_Rename:
  "refs (snd (db_Rename e src dst d)) = refs d
    \<or> refs (snd (db_Rename e src dst d)) = ((refs d)(src := None))(dst := refs d src)"
proof (cases "map_of (dat d) src")
  case (Some o1)
  then show ?thesis by (cases "IsExpired e o1") (auto simp: db_Rename_def refs_def fun_eq_iff)
qed (simp add: db_Rename_def)

lemma with_new_heap: "heap (with_new e k t c d) = (heap d)(next_ref d \<mapsto> c)"
  by (simp add: with_new_def db_Set_def)

lemma db_Rename_heap: "heap (snd (db_Rename e src dst d)) = heap d"
  by (simp add: db_Rename_def split: option.split)

interpretation values_apart: db_invariant apart "\<lambda>_. True" "\<lambda>_. True"
proof (unfold_locales, goal_cases)
  case (1 d d')
  then show ?case unfolding apart_iff by metis
next
  case (2 d c e k t)
  have "refs d k' \<noteq> Some (next_ref d)" for k' using refs_allocated[OF 2(1), of k' "next_ref d"] by auto
  with 2 show ?case unfolding apart_iff refs_with_new by (metis fun_upd_apply option.inject)
next
  case (3 d c a)
  then show ?case by (simp add: apart_def)
next
  case (4 d e k k')
  then show ?case using refs_Rename[of e k k' d] unfolding apart_iff
    by (metis fun_upd_apply option.distinct(1))
qed simp_all

interpretation zsets_in_step: db_invariant zsets_ok "\<lambda>z. \<exists>es. zset_rel z es" "\<lambda>sc. \<not> f_nan sc"
proof (unfold_locales, goal_cases)
  case (1 d d')
  then show ?case by (simp add: zsets_ok_def)
next
  case (2 d c e k t)
  then show ?case by (simp add: zsets_ok_def with_new_heap)
next
  case (3 d c a)
  then show ?case by (simp add: zsets_ok_def)
next
  case (4 d e k k')
  then show ?case by (simp add: zsets_ok_def db_Rename_heap)
next
  case (5 d a z)
  then show ?case by (simp add: zsets_ok_def)
next
  case 6
  show ?case using zset_rel_New by blast
next
  case (7 z m)
  then show ?case using ZSet_Remove_rel by blast
next
  case (8 z sc coins m)
  then show ?case using ZSet_Add_rel randomLevel_range by blast
qed

section \<open>What breaks them\<close>

text \<open>\<open>ZADD\<close> and \<open>ZINCRBY\<close> keep values apart; \<open>COPY\<close> of a list or a sorted set does not
  (\<open>cmdCopy_shares\<close>), but it keeps every sorted set in step.\<close>

lemma special_commands:
  "map_of registerAll ''COPY'' = Some cmdCopy" "map_of registerAll ''ZADD'' = Some cmdZAdd"
  "map_of registerAll ''ZINCRBY'' = Some cmdZIncrBy"
  by (simp_all add: registerAll_def table_defs)

lemma zset_writers_apart: "preserves apart cmdZAdd" "preserves apart cmdZIncrBy"
  by (rule preservesI) (simp_all add: values_apart.zadd_preserves values_apart.zincrby_preserves)

lemma registered_apart:
  assumes "Registry_Get name = Some h" and "ToUpper name \<noteq> ''COPY''"
  shows "preserves apart h"
proof (cases "ToUpper name = ''ZADD'' \<or> ToUpper name = ''ZINCRBY''")
  case True
  then have "h = cmdZAdd \<or> h = cmdZIncrBy"
    using assms(1) special_commands by (auto simp: Registry_Get_def)
  with zset_writers_apart show ?thesis by auto
next
  case False
  with assms(2) show ?thesis by (intro values_apart.registered_preserves[OF assms(1)]) (simp only: insert_iff empty_iff simp_thms)
qed

lemma copy_in_step: "preserves zsets_ok cmdCopy"
proof (rule preservesI)
  fix e args d assume d: "wf_db d" "zsets_ok d"
  have new: "zsets_ok d2" if "deepCopyValue o1 d1 = Ret (v, d2)" "zsets_ok d1" for o1 d1 v d2
    using that by (auto simp: deepCopyValue_def go_bind_eq_Ret zsets_ok_def new_cell_def split: ValueType.splits if_splits)
  have copy: "guards (deepCopyValue o1 d') (\<lambda>p. guards (case p of (v, d2) \<Rightarrow> Ret (r, db_Set e k (F v) d2)) (\<lambda>p. zsets_ok (snd p)))"
    if "zsets_ok d'" "wf_db d'" "obj_ok (heap d') o1" for o1 d' F k r
  proof -
    from deepCopyValue_ok[OF that(2,3), of e] obtain v d2 where v: "deepCopyValue o1 d' = Ret (v, d2)" by (auto simp: returns_iff)
    have "heap (db_Set e k (F v) d2) = heap d2" by (simp add: db_Set_def)
    with new[OF v that(1)] v show ?thesis by (simp add: zsets_ok_def)
  qed
  show "guards (cmdCopy e args d) (\<lambda>p. zsets_ok (snd p))"
    using d unfolding cmdCopy_def Let_def by (auto intro!: zsets_in_step.inv_get copy split: option.split)
qed

lemma registered_in_step:
  assumes "Registry_Get name = Some h" and "ToUpper name \<noteq> ''ZINCRBY''" and "env_ok e" and "wf_db d" and "zsets_ok d"
    and "ToUpper name = ''ZADD'' \<longrightarrow> (\<forall>w \<in> set args. \<forall>sc. parseScore w = Some sc \<longrightarrow> \<not> f_nan sc)"
  shows "guards (h e args d) (\<lambda>p. zsets_ok (snd p))"
proof -
  consider "ToUpper name = ''COPY''" | "ToUpper name = ''ZADD''" | "ToUpper name \<notin> {''COPY'', ''ZADD'', ''ZINCRBY''}"
    using assms(2) by (simp only: insert_iff empty_iff simp_thms) blast
  then show ?thesis
  proof cases
    case 1
    then have "h = cmdCopy" using assms(1) special_commands by (auto simp: Registry_Get_def)
    with copy_in_step assms(3-5) show ?thesis by (simp add: preserves_def)
  next
    case 2
    then have "h = cmdZAdd" using assms(1) special_commands by (auto simp: Registry_Get_def)
    with zsets_in_step.zadd_preserves[OF assms(4,5) mp[OF assms(6) 2]] show ?thesis by simp
  next
    case 3
    from zsets_in_step.registered_preserves[OF assms(1) 3] assms(3-5) show ?thesis by (simp add: preserves_def)
  qed
qed

end
