(* ===== verification/Container_Properties.thy ===== *)
theory Container_Properties
  imports Store_Properties Cmd_Invariant
begin

text \<open>
  The properties of the commands on lists, hashes, sets, sorted sets and expiries and of \<open>COPY\<close>,
  each with an example to which it applies. What such a command does is stated over the
  keyspace: what it finds at a key (nothing, the contents, or a value of another type) and
  what it leaves there. A command that writes through the pointer of a key is specified for
  a key that shares its value with no other (\<open>alone\<close>); \<open>COPY\<close> is the one way to get
  keys that do.
\<close>

section \<open>A database with a value of each type\<close>

definition box_object :: "ValueType \<Rightarrow> nat \<Rightarrow> object" where
  "box_object t a = new_object t (VRef a)"

definition box_db :: db where
  "box_db = \<lparr>dat = [(''l'', box_object TypeList 0), (''h'', box_object TypeHash 1), (''s'', box_object TypeSet 2),
      (''t'', box_object TypeSet 3), (''z'', box_object TypeZSet 4)],
    heap = [0 \<mapsto> CList (RPush [''x'', ''y''] NewList), 1 \<mapsto> CHash [(''f'', ''40'')], 2 \<mapsto> CSet [''a'', ''b''],
      3 \<mapsto> CSet [''b'', ''c''], 4 \<mapsto> CZSet (snd (ZSet_Add 1 0 ''m'' NewZSet))],
    next_ref = 5\<rparr>"

lemma box_list: "list_wf (RPush [''x'', ''y''] NewList)" "elems (RPush [''x'', ''y''] NewList) = [''x'', ''y'']"
  using RPush_wf[OF NewList_wf(1), of "[''x'', ''y'']"] NewList_wf by (simp_all del: RPush.simps)

lemma f_nan_zero: "\<not> f_nan (0 :: float64)"
  by code_simp

lemma box_zset: "zset_rel (snd (ZSet_Add 1 0 ''m'' NewZSet)) [(''m'', 0)]"
  using ZSet_Add_rel[OF zset_rel_New f_nan_zero, of 1 "''m''"] by (simp add: skiplistMaxLevel_def z_add_def z_without_def z_insert_def)

lemma box_db_wf: "wf_db box_db"
  using box_list(1) zset_rel_facts(3)[OF box_zset]
  by (auto simp: wf_db_def box_db_def map_wf_def obj_ok_def box_object_def new_object_def val_type_def
      simp del: RPush.simps split: if_splits)

lemma box_db_keyspace:
  "keyspace e box_db = [''l'' \<mapsto> (LList [''x'', ''y''], None), ''h'' \<mapsto> (LHash [''f'' \<mapsto> ''40''], None),
     ''s'' \<mapsto> (LSet {''a'', ''b''}, None), ''t'' \<mapsto> (LSet {''b'', ''c''}, None), ''z'' \<mapsto> (LZSet [''m'' \<mapsto> 0], None)]"
  using box_list(2) zset_rel_facts(1)[OF box_zset]
  by (auto simp: keyspace_def box_db_def box_object_def obj_view_def val_view_def new_object_def IsExpired_def fun_eq_iff
      simp del: RPush.simps)

lemma box_db_alone: "alone box_db k"
  by (auto simp: alone_def refs_def box_db_def box_object_def new_object_def split: if_splits)

lemma box_zsets_ok: "zsets_ok box_db"
  using box_zset by (auto simp: zsets_ok_def box_db_def split: if_splits)

section \<open>Lists\<close>

text \<open>
  C24. \<open>LPUSH\<close>, \<open>RPUSH\<close>, \<open>LPOP\<close> and \<open>RPOP\<close>: the values go to the front, the last one first,
  or to the back, and come from there; the reply is the new length or the value. A list that
  becomes empty is deleted, a key of another type is refused, and no other key is touched.
\<close>

theorem push_pop_commands:
  assumes "wf_db d" and "alone d k" and "vs \<noteq> []"
  shows "returns (cmdLPush e (k # vs) d) (\<lambda>(r, d'). wf_db d' \<and>
      (case list_of (keyspace e d) k of
         None \<Rightarrow> r = wrongTypeErr \<and> keyspace e d' = keyspace e d
       | Some xs \<Rightarrow> r = intResp (int (length vs + length xs)) \<and> keyspace e d' = put_list (keyspace e d) k (rev vs @ xs)))
    \<and> returns (cmdRPush e (k # vs) d) (\<lambda>(r, d'). wf_db d' \<and>
      (case list_of (keyspace e d) k of
         None \<Rightarrow> r = wrongTypeErr \<and> keyspace e d' = keyspace e d
       | Some xs \<Rightarrow> r = intResp (int (length xs + length vs)) \<and> keyspace e d' = put_list (keyspace e d) k (xs @ vs)))
    \<and> returns (cmdLPop e [k] d) (\<lambda>(r, d'). wf_db d' \<and>
      (case list_of (keyspace e d) k of
         None \<Rightarrow> r = wrongTypeErr \<and> keyspace e d' = keyspace e d
       | Some xs \<Rightarrow> r = (if xs = [] then nullBulkResp else bulkResp (hd xs))
           \<and> keyspace e d' = put_list (keyspace e d) k (tl xs)))
    \<and> returns (cmdRPop e [k] d) (\<lambda>(r, d'). wf_db d' \<and>
      (case list_of (keyspace e d) k of
         None \<Rightarrow> r = wrongTypeErr \<and> keyspace e d' = keyspace e d
       | Some xs \<Rightarrow> r = (if xs = [] then nullBulkResp else bulkResp (last xs))
           \<and> keyspace e d' = put_list (keyspace e d) k (butlast xs)))"
  using push_spec[OF assms] pop_one_spec[OF assms(1,2)] by (intro conjI)

theorem push_pop_commands_witness:
  "returns (cmdLPush (plain_env 0) [''l'', ''1'', ''2''] box_db) (\<lambda>(r, d').
     r = intResp 4 \<and> keyspace (plain_env 0) d' ''l'' = Some (LList [''2'', ''1'', ''x'', ''y''], None))"
  using conjunct1[OF push_pop_commands[OF box_db_wf box_db_alone, of "[''1'', ''2'']" "plain_env 0" "''l''"]]
  by (simp add: box_db_keyspace list_of_def put_list_def expiry_of_def returns_iff) force

text \<open>
  C25. The commands that look at or edit a list by index or by value: \<open>LRANGE\<close> returns and \<open>LTRIM\<close> keeps
  the slice between two indices, negative ones counted from the end and both clamped; \<open>LREM\<close> deletes
  the first occurrences from the head, from the tail or all of them; \<open>LSET\<close> replaces one value; \<open>LINSERT\<close> puts one
  before or behind the first occurrence of the pivot. The replies tell what was done, and no other key is touched.
\<close>

theorem list_commands_spec:
  assumes "wf_db d" and "alone d k" and "list_of (keyspace e d) k = Some xs" and "xs \<noteq> []"
    and "parsed (Atoi a) = Some i" and "parsed (Atoi b) = Some j" and "i \<noteq> min_int64" and "ToUpper w \<in> {''BEFORE'', ''AFTER''}"
  shows "returns (cmdLRange e [k, a, b] d) (\<lambda>(r, d'). r = stringsToArray (seq_slice i j xs) \<and> keyspace e d' = keyspace e d)
    \<and> returns (cmdLTrim e [k, a, b] d) (\<lambda>(r, d'). r = okResp \<and> wf_db d' \<and> keyspace e d' = put_list (keyspace e d) k (seq_slice i j xs))
    \<and> returns (cmdLRem e [k, a, v] d) (\<lambda>(r, d'). r = intResp (int (length xs) - int (length (seq_remove i v xs)))
        \<and> wf_db d' \<and> keyspace e d' = put_list (keyspace e d) k (seq_remove i v xs))
    \<and> returns (cmdLSet e [k, a, v] d) (\<lambda>(r, d'). r = (if seq_at i xs = None then errResp ''ERR index out of range'' else okResp)
        \<and> wf_db d' \<and> keyspace e d' = put_list (keyspace e d) k (seq_set i v xs))
    \<and> returns (cmdLInsert e [k, w, p, v] d) (\<lambda>(r, d'). r = intResp (if p \<in> set xs then int (length xs) + 1 else - 1) \<and> wf_db d'
        \<and> keyspace e d' = put_list (keyspace e d) k
            (if ToUpper w = ''BEFORE'' then seq_insert_before p v xs else seq_insert_after p v xs))"
proof -
  note r = list_readers_spec(2)[OF assms(1,5,6), of e k, unfolded assms(3) option.case]
  note t = list_writers_spec(1)[OF assms(1,2,5,6), of e, unfolded assms(3) option.case]
  note m = list_writers_spec(2)[OF assms(1,2,5,7), of e v, unfolded assms(3) option.case]
  note s = list_edit_spec(1)[OF assms(1-5), of v]
  note n = list_edit_spec(2)[OF assms(1-4,8), of p v]
  show ?thesis
    by (intro conjI returns_mono[OF r] returns_mono[OF t] returns_mono[OF m] returns_mono[OF s] returns_mono[OF n]) (simp_all add: split_beta)
qed

theorem list_commands_spec_witness:
  "returns (cmdLInsert (plain_env 0) [''l'', ''after'', ''x'', ''w''] box_db) (\<lambda>(r, d'). r = intResp 3
      \<and> keyspace (plain_env 0) d' ''l'' = Some (LList [''x'', ''w'', ''y''], None))
    \<and> returns (cmdLRem (plain_env 0) [''l'', ''-1'', ''y''] box_db) (\<lambda>(r, d'). r = intResp 1
      \<and> keyspace (plain_env 0) d' ''l'' = Some (LList [''x''], None))"
proof -
  have p: "parsed (Atoi ''-1'') = Some (- 1)" "parsed (Atoi ''1'') = Some 1" by code_simp+
  have w: "ToUpper ''after'' = ''AFTER''" by code_simp
  then have w': "ToUpper ''after'' \<in> {''BEFORE'', ''AFTER''}" by simp
  have l: "list_of (keyspace (plain_env 0) box_db) ''l'' = Some [''x'', ''y'']" "expiry_of (keyspace (plain_env 0) box_db) ''l'' = None"
    by (simp_all add: box_db_keyspace list_of_def expiry_of_def)
  have m: "(- 1 :: int) \<noteq> min_int64" by (simp add: int64_defs)
  note s = list_commands_spec[OF box_db_wf box_db_alone l(1) _ p m w']
  have i: "seq_insert_after ''x'' ''w'' [''x'', ''y''] = [''x'', ''w'', ''y'']" "seq_remove (- 1) ''y'' [''x'', ''y''] = [''x'']"
    by (simp_all add: seq_insert_after_def seq_remove_def)
  have one: "returns (cmdLInsert (plain_env 0) [''l'', ''after'', ''x'', ''w''] box_db) (\<lambda>(r, d'). r = intResp 3
      \<and> keyspace (plain_env 0) d' ''l'' = Some (LList [''x'', ''w'', ''y''], None))"
    using s[of "''w''" "''x''"] l(2) by (auto simp: w i(1) put_list_def elim!: returns_mono)
  have "returns (cmdLRem (plain_env 0) [''l'', ''-1'', ''y''] box_db) (\<lambda>(r, d'). r = intResp 1
      \<and> keyspace (plain_env 0) d' ''l'' = Some (LList [''x''], None))"
    using s[of "''y''" "''x''"] l(2) by (auto simp: i(2) put_list_def elim!: returns_mono)
  with one show ?thesis by blast
qed

text \<open>
  C19. \<open>RPOPLPUSH\<close> moves the last value of the source to the front of the destination, which
  may be the same list. When the destination has another type, the error comes after the value
  was taken: it is in neither list then.
\<close>

theorem rpoplpush_command:
  assumes "wf_db d" and "alone d src" and "alone d dst"
  shows "returns (cmdRPopLPush e [src, dst] d) (\<lambda>(r, d'). wf_db d' \<and>
    (case list_of (keyspace e d) src of
       None \<Rightarrow> r = wrongTypeErr \<and> keyspace e d' = keyspace e d
     | Some xs \<Rightarrow>
         if xs = [] then r = nullBulkResp \<and> keyspace e d' = keyspace e d
         else let ks = put_list (keyspace e d) src (butlast xs) in
           (case list_of ks dst of
              None \<Rightarrow> r = wrongTypeErr \<and> keyspace e d' = ks
            | Some ys \<Rightarrow> r = bulkResp (last xs) \<and> keyspace e d' = put_list ks dst (last xs # ys))))"
  by (rule rpoplpush_spec[OF assms])

theorem rpoplpush_command_witness:
  "returns (cmdRPopLPush (plain_env 0) [''l'', ''l''] box_db) (\<lambda>(r, d').
      r = bulkResp ''y'' \<and> keyspace (plain_env 0) d' ''l'' = Some (LList [''y'', ''x''], None))
   \<and> returns (cmdRPopLPush (plain_env 0) [''l'', ''h''] box_db) (\<lambda>(r, d').
      r = wrongTypeErr \<and> keyspace (plain_env 0) d' ''l'' = Some (LList [''x''], None)
      \<and> keyspace (plain_env 0) d' ''h'' = Some (LHash [''f'' \<mapsto> ''40''], None))"
  using rpoplpush_command[OF box_db_wf box_db_alone box_db_alone, of "plain_env 0" "''l''" "''l''"]
    rpoplpush_command[OF box_db_wf box_db_alone box_db_alone, of "plain_env 0" "''l''" "''h''"]
  by (auto simp: box_db_keyspace list_of_def put_list_def expiry_of_def elim!: returns_mono)

section \<open>Hashes\<close>

text \<open>
  C26. \<open>HSET\<close> sets all its fields, the last value of a field winning, and counts the new ones;
  \<open>HDEL\<close> removes exactly the fields named and counts those that were there; \<open>HGET\<close> reads one.
  An empty hash is deleted, a key of another type is refused.
\<close>

theorem hash_commands_spec:
  assumes "wf_db d" and "alone d k" and "2 \<le> length args" and "even (length args)" and "fs \<noteq> []"
  shows "returns (cmdHSet e (k # args) d) (\<lambda>(r, d'). wf_db d' \<and>
      (case hash_of (keyspace e d) k of
         None \<Rightarrow> r = wrongTypeErr \<and> keyspace e d' = keyspace e d
       | Some h \<Rightarrow> r = intResp (int (card (fst ` set (field_pairs args) - dom h)))
           \<and> keyspace e d' = put_hash (keyspace e d) k (h ++ map_of (rev (field_pairs args)))))
    \<and> returns (cmdHDel e (k # fs) d) (\<lambda>(r, d'). wf_db d' \<and>
      (case hash_of (keyspace e d) k of
         None \<Rightarrow> r = wrongTypeErr \<and> keyspace e d' = keyspace e d
       | Some h \<Rightarrow> r = intResp (int (card (set fs \<inter> dom h)))
           \<and> keyspace e d' = put_hash (keyspace e d) k (h |` (- set fs))))
    \<and> returns (cmdHGet e [k, f] d) (\<lambda>(r, d'). wf_db d' \<and> keyspace e d' = keyspace e d \<and>
      r = (case hash_of (keyspace e d) k of None \<Rightarrow> wrongTypeErr | Some h \<Rightarrow> field_reply (h f)))"
  using cmdHSet_spec[OF assms(1-4)] cmdHDel_spec[OF assms(1,2,5)] cmdHGet_spec[OF assms(1)] by (intro conjI)

theorem hash_commands_spec_witness:
  "returns (cmdHSet (plain_env 0) [''h'', ''f'', ''1'', ''g'', ''2''] box_db) (\<lambda>(r, d').
      r = intResp 1 \<and> keyspace (plain_env 0) d' ''h'' = Some (LHash [''f'' \<mapsto> ''1'', ''g'' \<mapsto> ''2''], None))
   \<and> returns (cmdHDel (plain_env 0) [''h'', ''f'', ''q''] box_db) (\<lambda>(r, d').
      r = intResp 1 \<and> keyspace (plain_env 0) d' ''h'' = None)
   \<and> returns (cmdHGet (plain_env 0) [''h'', ''f''] box_db) (\<lambda>(r, d'). r = bulkResp ''40'')"
proof -
  have m: "[''f'' \<mapsto> ''40'', ''f'' \<mapsto> ''1'', ''g'' \<mapsto> ''2''] = [''f'' \<mapsto> ''1'', ''g'' \<mapsto> (''2'' :: string)]"
    "[''f'' \<mapsto> ''40''] |` (- {''f'', ''q''}) = (Map.empty :: string \<rightharpoonup> string)" "[''f'' \<mapsto> ''1'', ''g'' \<mapsto> (''2'' :: string)] \<noteq> Map.empty"
    by (auto simp: fun_eq_iff restrict_map_def)
  have c: "fst ` set (field_pairs [''f'', ''1'', ''g'', ''2'']) - dom [''f'' \<mapsto> (''40'' :: string)] = {''g''}"
    "set [''f'', ''q''] \<inter> dom [''f'' \<mapsto> (''40'' :: string)] = {''f''}" by auto
  have h: "hash_of (keyspace (plain_env 0) box_db) ''h'' = Some [''f'' \<mapsto> ''40'']" "expiry_of (keyspace (plain_env 0) box_db) ''h'' = None"
    by (simp_all add: box_db_keyspace hash_of_def expiry_of_def)
  note p = hash_commands_spec[OF box_db_wf box_db_alone, of "[''f'', ''1'', ''g'', ''2'']" "[''f'', ''q'']" "plain_env 0" "''h''" "''f''",
      unfolded h(1) option.case c]
  have q: "[''f'' \<mapsto> ''40''] ++ map_of (rev (field_pairs [''f'', ''1'', ''g'', ''2''])) = [''f'' \<mapsto> ''1'', ''g'' \<mapsto> (''2'' :: string)]"
    by (auto simp: fun_eq_iff)
  show ?thesis
    using p m q h(2) by (auto simp: put_hash_def field_reply_def elim!: returns_mono)
qed

section \<open>Sets\<close>

text \<open>
  C20. \<open>SUNIONSTORE\<close>, \<open>SINTERSTORE\<close> and \<open>SDIFFSTORE\<close> store the union, the intersection and the
  difference of the sets at the keys, a missing key counting as empty, and reply with its
  size; an empty result leaves no key. When one of the keys has another type nothing changes.
  The destination may be one of the keys, and keys may share their values.
\<close>

theorem set_algebra_commands:
  assumes "wf_db d" and "env_ok e" and "keys \<noteq> []"
  shows "returns (cmdSUnionStore e (k # keys) d) (\<lambda>(r, d'). wf_db d' \<and>
      (if all_sets (keyspace e d) keys then
         (let s = \<Union> (set (sets_of (keyspace e d) keys)) in
          r = intResp (int (card s)) \<and> keyspace e d' = (keyspace e d)(k := if s = {} then None else Some (LSet s, None)))
       else r = wrongTypeErr \<and> keyspace e d' = keyspace e d))
    \<and> returns (cmdSInterStore e (k # keys) d) (\<lambda>(r, d'). wf_db d' \<and>
      (if all_sets (keyspace e d) keys then
         (let s = \<Inter> (set (sets_of (keyspace e d) keys)) in
          r = intResp (int (card s)) \<and> keyspace e d' = (keyspace e d)(k := if s = {} then None else Some (LSet s, None)))
       else r = wrongTypeErr \<and> keyspace e d' = keyspace e d))
    \<and> returns (cmdSDiffStore e (k # keys) d) (\<lambda>(r, d'). wf_db d' \<and>
      (if all_sets (keyspace e d) keys then
         (let s = hd (sets_of (keyspace e d) keys) - \<Union> (set (tl (sets_of (keyspace e d) keys))) in
          r = intResp (int (card s)) \<and> keyspace e d' = (keyspace e d)(k := if s = {} then None else Some (LSet s, None)))
       else r = wrongTypeErr \<and> keyspace e d' = keyspace e d))"
proof -
  obtain k2 rest where keys: "k2 # rest = keys" using assms(3) by (cases keys) auto
  show ?thesis using set_algebra_spec[OF assms(1,2) keys] by (intro conjI)
qed

theorem set_algebra_commands_witness:
  "returns (cmdSInterStore (plain_env 0) [''s'', ''s'', ''t''] box_db) (\<lambda>(r, d').
      r = intResp 1 \<and> keyspace (plain_env 0) d' ''s'' = Some (LSet {''b''}, None))
   \<and> returns (cmdSDiffStore (plain_env 0) [''q'', ''s'', ''t'', ''none''] box_db) (\<lambda>(r, d').
      r = intResp 1 \<and> keyspace (plain_env 0) d' ''q'' = Some (LSet {''a''}, None))"
proof -
  have s: "set_of (keyspace (plain_env 0) box_db) ''s'' = Some {''a'', ''b''}" "set_of (keyspace (plain_env 0) box_db) ''t'' = Some {''b'', ''c''}"
    "set_of (keyspace (plain_env 0) box_db) ''none'' = Some {}"
    by (simp_all add: box_db_keyspace set_of_def)
  have a: "{''a'', ''b''} \<inter> {''b'', ''c''} = {''b'' :: string}" "{''a'', ''b''} - ({''b'', ''c''} \<union> {}) = {''a'' :: string}" by auto
  have i: "\<Inter> (set (sets_of (keyspace (plain_env 0) box_db) [''s'', ''t''])) = {''b''}"
    "all_sets (keyspace (plain_env 0) box_db) [''s'', ''t'']"
    using a(1) by (simp_all add: sets_of_def all_sets_def s)
  have f: "hd (sets_of (keyspace (plain_env 0) box_db) [''s'', ''t'', ''none''])
      - \<Union> (set (tl (sets_of (keyspace (plain_env 0) box_db) [''s'', ''t'', ''none'']))) = {''a''}"
    "all_sets (keyspace (plain_env 0) box_db) [''s'', ''t'', ''none'']"
    using a(2) by (simp_all add: sets_of_def all_sets_def s)
  have ne: "[''s'', ''t''] \<noteq> []" "[''s'', ''t'', ''none''] \<noteq> []" by simp_all
  note p = set_algebra_commands[OF box_db_wf plain_env_ok]
  note inter = p[OF ne(1), of 0 "''s''", THEN conjunct2, THEN conjunct1, unfolded i(1) if_P[OF i(2)] Let_def]
    and diff = p[OF ne(2), of 0 "''q''", THEN conjunct2, THEN conjunct2, unfolded f(1) if_P[OF f(2)] Let_def]
  show ?thesis
    by (rule conjI[OF returns_mono[OF inter] returns_mono[OF diff]]) auto
qed

text \<open>
  C22. \<open>SPOP\<close> with a count: whatever the draw, the members in the reply are distinct, were in
  the set and are no longer; there are as many as asked for, or all.
\<close>

theorem spop_command:
  assumes "env_ok e" and "wf_db d" and "alone d k" and "parsed (Atoi w) = Some n" and "0 \<le> n"
  shows "returns (cmdSPop e [k, w] d) (\<lambda>(r, d'). wf_db d' \<and>
    (case set_of (keyspace e d) k of
       None \<Rightarrow> r = wrongTypeErr \<and> keyspace e d' = keyspace e d
     | Some s \<Rightarrow>
         (r = nullBulkResp \<and> s = {} \<and> keyspace e d' = keyspace e d) \<or>
         (\<exists>ms. distinct ms \<and> set ms \<subseteq> s \<and> length ms = min (nat n) (card s) \<and> r = stringsToArray ms
            \<and> keyspace e d' = put_set (keyspace e d) k (s - set ms))))"
  by (rule cmdSPop_spec[OF assms])

theorem spop_command_witness:
  "returns (cmdSPop (plain_env 0) [''s'', ''2''] box_db) (\<lambda>(r, d'). keyspace (plain_env 0) d' ''s'' = None)"
proof -
  have n: "parsed (Atoi ''2'') = Some 2" by code_simp
  have two: "ms = {''a'', ''b''}" if "ms \<subseteq> {''a'', ''b''}" "card ms = 2" for ms :: "string set"
    using that by (intro card_subset_eq) auto
  have all: "{''a'', ''b''} - set ms = {}" if "distinct ms" "set ms \<subseteq> {''a'', ''b''}" "length ms = 2" for ms :: "string list"
  proof -
    have "set ms = {''a'', ''b''}" using two[of "set ms"] that distinct_card[OF that(1)] by simp
    then show ?thesis by simp
  qed
  have s: "set_of (keyspace (plain_env 0) box_db) ''s'' = Some {''a'', ''b''}" by (simp add: box_db_keyspace set_of_def)
  show ?thesis
    by (rule returns_mono[OF spop_command[OF plain_env_ok box_db_wf box_db_alone n, of 0 "''s''", unfolded s option.case]])
      (auto simp: put_set_def dest: all)
qed

section \<open>Sorted sets\<close>

text \<open>
  C17. \<open>ZADD\<close> with options and scores that parse: pair by pair, \<open>NX\<close>, \<open>XX\<close>, \<open>GT\<close> and \<open>LT\<close>
  decide whether the score of the member is replaced (a new member is only kept out by
  \<open>XX\<close>); the reply counts the new members, with \<open>CH\<close> also the updated ones. The skip list
  and the map behind the key stay in step.
\<close>

theorem zadd_command:
  assumes "wf_db d" and "alone d k" and "zsets_ok d" and "2 \<le> length args"
    and "zadd_options args no_zadd_opts = (opts, ps)" and "even (length ps)"
    and "score_pairs ps = Some qs" and "list_all (\<lambda>q. \<not> f_nan (snd q)) qs"
  shows "returns (cmdZAdd e (k # args) d) (\<lambda>(r, d'). wf_db d' \<and> zsets_ok d' \<and>
    (case zset_of (keyspace e d) k of
       None \<Rightarrow> r = wrongTypeErr \<and> keyspace e d' = keyspace e d
     | Some s \<Rightarrow> (case zadd_scores opts qs (0, 0) s of ((added, changed), s') \<Rightarrow>
         r = intResp (if zCH opts then added + changed else added)
         \<and> keyspace e d' = (keyspace e d)(k \<mapsto> (LZSet s', expiry_of (keyspace e d) k)))))"
  by (rule cmdZAdd_spec[OF assms])

theorem zadd_command_witness:
  "returns (cmdZAdd (plain_env 0) [''z'', ''gt'', ''ch'', ''inf'', ''m'', ''-inf'', ''n''] box_db) (\<lambda>(r, d').
     r = intResp 2 \<and> keyspace (plain_env 0) d' ''z'' = Some (LZSet [''m'' \<mapsto> f_inf, ''n'' \<mapsto> f_neg_inf], None))"
proof -
  have u: "ToUpper ''gt'' = ''GT''" "ToUpper ''ch'' = ''CH''" "ToUpper ''inf'' = ''INF''" "ToLower ''inf'' = ''inf''" "ToLower ''-inf'' = ''-inf''"
    by code_simp+
  let ?opts = "\<lparr>zNX = False, zXX = False, zGT = True, zLT = False, zCH = True\<rparr>"
  let ?ps = "[''inf'', ''m'', ''-inf'', ''n'']"
  let ?qs = "[(''m'', f_inf), (''n'', f_neg_inf)]"
  have o: "zadd_options ([''gt'', ''ch''] @ ?ps) no_zadd_opts = (?opts, ?ps)"
    using u by (simp add: no_zadd_opts_def)
  have q: "score_pairs ?ps = Some ?qs" using u by (simp add: parseScore_def)
  have n: "list_all (\<lambda>q. \<not> f_nan (snd q)) ?qs" "f_lt 0 f_inf" by code_simp+
  have z: "zset_of (keyspace (plain_env 0) box_db) ''z'' = Some [''m'' \<mapsto> 0]" "expiry_of (keyspace (plain_env 0) box_db) ''z'' = None"
    by (simp_all add: box_db_keyspace zset_of_def expiry_of_def)
  have s: "zadd_scores ?opts ?qs (0, 0) [''m'' \<mapsto> 0] = ((1, 1), [''m'' \<mapsto> f_inf, ''n'' \<mapsto> f_neg_inf])"
    using n(2) by (simp add: zadd_applies_def)
  have "2 \<le> length ([''gt'', ''ch''] @ ?ps)" "even (length ?ps)" by simp_all
  note p = zadd_command[OF box_db_wf box_db_alone box_zsets_ok this(1) o this(2) q n(1), of "plain_env 0" "''z''", unfolded z(1) option.case s prod.case]
  from p z(2) show ?thesis by (auto elim!: returns_mono)
qed

text \<open>
  C18. \<open>ZRANGE\<close> and \<open>ZREVRANGE\<close> return the slice between two clamped indices of the members
  in the order of score and name, or of its reverse -- except at the two ends of the 64-bit
  range, where the arithmetic on the indices wraps around: a start of \<open>2^63 - 1\<close> in the one
  and a stop of \<open>-2^63\<close> in the other return the whole set (for which an empty range is due).
\<close>

theorem zrange_commands:
  assumes "wf_db d" and "zsets_ok d" and "parsed (Atoi a) = Some start" and "parsed (Atoi b) = Some stop"
    and "\<And>s. zset_of (keyspace e d) k = Some s \<Longrightarrow> int (card (dom s)) \<le> max_int64"
  shows "(start \<noteq> max_int64 \<longrightarrow> returns (cmdZRange e (k # a # b # opts) d) (\<lambda>(r, d'). wf_db d' \<and> keyspace e d' = keyspace e d \<and>
      (case zset_of (keyspace e d) k of None \<Rightarrow> r = wrongTypeErr | Some s \<Rightarrow> \<exists>es. listing s es \<and>
        r = zsetEntriesToResp (seq_slice start stop es) (with_scores_at (k # a # b # opts)))))
    \<and> (stop \<noteq> min_int64 \<longrightarrow> returns (cmdZRevRange e (k # a # b # opts) d) (\<lambda>(r, d'). wf_db d' \<and> keyspace e d' = keyspace e d \<and>
      (case zset_of (keyspace e d) k of None \<Rightarrow> r = wrongTypeErr | Some s \<Rightarrow> \<exists>es. listing s es \<and>
        r = zsetEntriesToResp (seq_slice start stop (rev es)) (with_scores_at (k # a # b # opts)))))
    \<and> (sl_view sl es \<longrightarrow> int (length es) \<le> max_int64 \<longrightarrow>
        (case zrange_bounds (int (length es)) max_int64 (- 1) of (i, j) \<Rightarrow> RangeByRank i j sl) = es \<and>
        (case zrevrange_bounds (int (length es)) 0 min_int64 of (i, j) \<Rightarrow> RangeByRank i j sl) = es)"
  using cmdZRange_spec[OF assms(1-4) _ assms(5)] cmdZRevRange_spec[OF assms(1-4) _ assms(5)] range_wraps by blast

theorem zrange_commands_witness:
  "returns (cmdZRange (plain_env 0) [''z'', ''-5'', ''7''] box_db) (\<lambda>(r, d'). r = array_value [bulkResp ''m''])"
proof -
  have p: "parsed (Atoi ''-5'') = Some (- 5)" "parsed (Atoi ''7'') = Some 7" by code_simp+
  have z: "zset_of (keyspace (plain_env 0) box_db) ''z'' = Some [''m'' \<mapsto> 0]" by (simp add: box_db_keyspace zset_of_def)
  have l: "es = [(''m'', 0)]" if "listing [''m'' \<mapsto> 0] es" for es
    using listing_unique[OF that] by (simp add: listing_def)
  have c: "int (card (dom s)) \<le> max_int64" if "zset_of (keyspace (plain_env 0) box_db) ''z'' = Some s" for s
    using that z by (auto simp: max_int64_def)
  have ne: "- 5 \<noteq> max_int64" by (simp add: max_int64_def)
  note q = mp[OF conjunct1[OF zrange_commands[where e = "plain_env 0" and k = "''z''" and opts = "[]", OF box_db_wf box_zsets_ok p c]] ne,
      unfolded z option.case]
  show ?thesis
    by (rule returns_mono[OF q]) (auto dest!: l simp: seq_slice_def with_scores_at_def zsetEntriesToResp_def)
qed

text \<open>
  C27. \<open>ZPOPMIN\<close> and \<open>ZPOPMAX\<close> with a count take the first, or the last, members in the order
  of score and name, as many as asked for or all, return them in the order in which they were
  taken, and leave the others; an empty sorted set is deleted.
\<close>

theorem zpop_commands:
  assumes "wf_db d" and "alone d k" and "zsets_ok d" and "parsed (Atoi w) = Some n" and "0 \<le> n"
  shows "returns (cmdZPopMin e [k, w] d) (\<lambda>(r, d'). wf_db d' \<and> zsets_ok d' \<and>
      (case zset_of (keyspace e d) k of
         None \<Rightarrow> r = wrongTypeErr \<and> keyspace e d' = keyspace e d
       | Some s \<Rightarrow> \<exists>es. listing s es \<and> r = zsetEntriesToResp (take (nat n) es) True
           \<and> keyspace e d' = put_zset (keyspace e d) k (s |` (- fst ` set (take (nat n) es)))))
    \<and> returns (cmdZPopMax e [k, w] d) (\<lambda>(r, d'). wf_db d' \<and> zsets_ok d' \<and>
      (case zset_of (keyspace e d) k of
         None \<Rightarrow> r = wrongTypeErr \<and> keyspace e d' = keyspace e d
       | Some s \<Rightarrow> \<exists>es. listing s es \<and> r = zsetEntriesToResp (take (nat n) (rev es)) True
           \<and> keyspace e d' = put_zset (keyspace e d) k (s |` (- fst ` set (take (nat n) (rev es))))))"
  unfolding cmdZPopMin_def cmdZPopMax_def
  by (rule conjI[OF zpop_spec[OF assms, of First "\<lambda>es. es"] zpop_spec[OF assms, of Last rev]])
    (simp_all add: zpop_loop_First zpop_loop_Last)

theorem zpop_commands_witness:
  "returns (cmdZPopMin (plain_env 0) [''z'', ''3''] box_db) (\<lambda>(r, d').
     r = array_value [bulkResp ''m'', bulkResp (FormatFloat 0)] \<and> keyspace (plain_env 0) d' ''z'' = None)"
proof -
  have n: "parsed (Atoi ''3'') = Some 3" by code_simp
  have z: "zset_of (keyspace (plain_env 0) box_db) ''z'' = Some [''m'' \<mapsto> 0]" by (simp add: box_db_keyspace zset_of_def)
  have l: "es = [(''m'', 0)]" if "listing [''m'' \<mapsto> 0] es" for es
    using listing_unique[OF that] by (simp add: listing_def)
  have e: "[''m'' \<mapsto> (0 :: float64)] |` (- {''m''}) = Map.empty" by (simp add: fun_eq_iff restrict_map_def)
  have "0 \<le> (3 :: int)" by simp
  note p = conjunct1[OF zpop_commands[OF box_db_wf box_db_alone box_zsets_ok n this, of "plain_env 0" "''z''", unfolded z option.case]]
  show ?thesis
    by (rule returns_mono[OF p]) (auto dest!: l simp: zsetEntriesToResp_def put_zset_def e)
qed

text \<open>
  C28. \<open>ZRANGEBYLEX\<close>: the insertion sort written out in the code is sorting, so the reply is
  the sorted list of the members within the bounds, whatever the order in which the map is
  ranged over.
\<close>

theorem zrangebylex_command:
  assumes "wf_db d" and "zsets_ok d" and "env_ok e"
  shows "sortStrings ms = sort ms \<and>
    returns (cmdZRangeByLex e (k # a # b # opts) d) (\<lambda>(r, d'). wf_db d' \<and> keyspace e d' = keyspace e d \<and>
      (case zset_of (keyspace e d) k of None \<Rightarrow> r = wrongTypeErr | Some s \<Rightarrow>
        r = stringsToArray (sorted_list_of_set {m \<in> dom s. lexInRange m a b})))"
proof (rule conjI[OF sortStrings_sort])
  show "returns (cmdZRangeByLex e (k # a # b # opts) d) (\<lambda>(r, d'). wf_db d' \<and> keyspace e d' = keyspace e d \<and>
      (case zset_of (keyspace e d) k of None \<Rightarrow> r = wrongTypeErr | Some s \<Rightarrow>
        r = stringsToArray (sorted_list_of_set {m \<in> dom s. lexInRange m a b})))"
    by (rule returns_mono[OF cmdZRangeByLex_spec[OF assms]]) (auto split: option.splits)
qed

theorem zrangebylex_command_witness:
  "sortStrings [''b'', ''a'', ''ab''] = [''a'', ''ab'', ''b'']
   \<and> returns (cmdZRangeByLex (plain_env 0) [''z'', ''[m'', ''(n''] box_db) (\<lambda>(r, d'). r = array_value [bulkResp ''m''])
   \<and> returns (cmdZRangeByLex (plain_env 0) [''z'', ''(m'', ''+''] box_db) (\<lambda>(r, d'). r = array_value [])"
proof -
  have i: "lexInRange ''m'' ''[m'' ''(n''" "\<not> lexInRange ''m'' ''(m'' ''+''" by code_simp+
  have z: "zset_of (keyspace (plain_env 0) box_db) ''z'' = Some [''m'' \<mapsto> 0]" by (simp add: box_db_keyspace zset_of_def)
  have s: "{m \<in> dom [''m'' \<mapsto> (0 :: float64)]. lexInRange m ''[m'' ''(n''} = {''m''}"
    "{m \<in> dom [''m'' \<mapsto> (0 :: float64)]. lexInRange m ''(m'' ''+''} = {}" using i by auto
  note p = zrangebylex_command[OF box_db_wf box_zsets_ok plain_env_ok]
  have o: "sort [''b'', ''a'', ''ab''] = [''a'', ''ab'', ''b'']" by code_simp
  note q = p[of "[''b'', ''a'', ''ab'']" 0 "''z''" "''[m''" "''(n''" "[]", unfolded z option.case s o]
    and r = conjunct2[OF p[of "[]" 0 "''z''" "''(m''" "''+''" "[]", unfolded z option.case s]]
  show ?thesis
    by (intro conjI conjunct1[OF q] returns_mono[OF conjunct2[OF q]] returns_mono[OF r]) (auto simp: stringsToArray_def)
qed

section \<open>COPY\<close>

text \<open>
  C21. \<open>COPY\<close> gives the destination the value and the expiry of the source when the destination
  is free or \<open>REPLACE\<close> is given, and otherwise changes nothing. The copy of a hash or a set is
  a value of its own; the copy of a list or of a sorted set is none: both keys
  lead to the same value, and a change through one is a change of the other.
\<close>

theorem copy_command:
  assumes "wf_db d"
  shows "returns (cmdCopy e (src # dst # opts) d) (\<lambda>(r, d'). wf_db d' \<and>
    (if keyspace e d src = None \<or> (\<forall>a \<in> set opts. ToUpper a \<noteq> ''REPLACE'') \<and> keyspace e d dst \<noteq> None
     then r = intResp 0 \<and> keyspace e d' = keyspace e d
     else r = intResp 1 \<and> keyspace e d' = (keyspace e d)(dst := keyspace e d src)
       \<and> (\<forall>v t. keyspace e d src = Some (v, t) \<longrightarrow> lval_tag v \<in> {TypeHash, TypeSet} \<longrightarrow>
            (\<forall>k a. refs d' dst = Some a \<longrightarrow> refs d' k = Some a \<longrightarrow> k = dst))
       \<and> (\<forall>v t. keyspace e d src = Some (v, t) \<longrightarrow> lval_tag v \<in> {TypeList, TypeZSet} \<longrightarrow>
            refs d' dst = refs d' src \<and> refs d' dst \<noteq> None)))"
proof (cases "keyspace e d src = None \<or> (\<forall>a \<in> set opts. ToUpper a \<noteq> ''REPLACE'') \<and> keyspace e d dst \<noteq> None")
  case True
  with cmdCopy_spec[OF assms, of e src dst opts] show ?thesis by (simp add: split_beta)
next
  case False
  then obtain v t where "keyspace e d src = Some (v, t)" by auto
  moreover have "keyspace e d dst = None \<or> (\<exists>a \<in> set opts. ToUpper a = ''REPLACE'')" using False by blast
  ultimately have v: "keyspace e d src = Some (v, t)" "keyspace e d dst = None \<or> (\<exists>a \<in> set opts. ToUpper a = ''REPLACE'')" .
  show ?thesis
  proof (cases "lval_tag v \<in> {TypeList, TypeZSet}")
    case tag: True
    have shares: "returns (cmdCopy e (src # dst # opts) d) (\<lambda>(r, d'). refs d' dst = refs d' src \<and> refs d' dst \<noteq> None)"
      by (rule returns_mono[OF cmdCopy_shares[OF assms v(1) tag v(2)]]) (cases "src = dst"; simp add: split_beta)
    show ?thesis
      unfolding if_not_P[OF False]
      by (rule returns_mp[OF shares returns_mono[OF cmdCopy_spec[OF assms, of e src dst opts, unfolded if_not_P[OF False]]]])
        auto
  next
    case tag: False
    show ?thesis
      unfolding if_not_P[OF False]
      by (rule returns_mono[OF cmdCopy_spec[OF assms, of e src dst opts, unfolded if_not_P[OF False]]])
        (use tag v(1) in \<open>simp add: split_beta\<close>)
  qed
qed

theorem copy_command_witness:
  "returns (cmdCopy (plain_env 0) [''l'', ''q''] box_db) (\<lambda>(r, d'). r = intResp 1 \<and>
     keyspace (plain_env 0) d' ''q'' = Some (LList [''x'', ''y''], None) \<and> refs d' ''q'' = refs d' ''l'')
   \<and> returns (cmdCopy (plain_env 0) [''l'', ''h''] box_db) (\<lambda>(r, d'). r = intResp 0)"
  using copy_command[OF box_db_wf, of "plain_env 0" "''l''" "''q''" "[]"] copy_command[OF box_db_wf, of "plain_env 0" "''l''" "''h''" "[]"]
  by (auto simp: box_db_keyspace elim!: returns_mono)

section \<open>Expiry\<close>

text \<open>
  C33. \<open>EXPIRE\<close> and \<open>PEXPIRE\<close> on a live key: at every later time the key is there with its value until
  the time has come and is gone after it, \<open>PTTL\<close> tells the milliseconds that are left, \<open>PERSIST\<close> on the live key
  takes the expiry away, and no other key is touched. The duration is counted in
  nanoseconds of 64 bits and wraps around: more than 292 years may delete the key at once.
\<close>

theorem expiry_commands:
  assumes "wf_db d" and "keyspace e d k = Some (v, x)" and "now e \<le> now e'" and "parsed (ParseInt w) = Some n"
    and "cmd = cmdExpire \<and> unit = 10 ^ 9 \<or> cmd = cmdPExpire \<and> unit = 10 ^ 6" and "t = now e + wrap64 (n * unit)"
  shows "returns (cmd e [k, w] d) (\<lambda>(r, d'). r = intResp 1 \<and> wf_db d'
    \<and> keyspace e' d' k = (if t < now e' then None else Some (v, Some t))
    \<and> (\<forall>k'. k' \<noteq> k \<longrightarrow> keyspace e d' k' = keyspace e d k')
    \<and> cmdPTTL e' [k] d' = Ret (intResp (if t < now e' then - 2 else min max_int64 (t - now e') div 10 ^ 6), d')
    \<and> (now e' \<le> t \<longrightarrow> returns (cmdPersist e' [k] d') (\<lambda>(r, d''). r = intResp 1 \<and> keyspace e' d'' = (keyspace e' d')(k \<mapsto> (v, None)))))"
proof -
  obtain b d' where s: "db_SetExpiry e k t d = (b, d')" by fastforce
  have b: "b" "keyspace e d' = (keyspace e d)(k := if t < now e then None else Some (v, Some t))" "wf_db d'"
    using db_SetExpiry_keyspace[OF s] db_SetExpiry_wf[OF assms(1), of e k t] assms(2) s by auto
  have later: "keyspace e' d' k = (if t < now e' then None else Some (v, Some t))"
    "db_TTL e' k d' = (if t < now e' then - 2 else min max_int64 (t - now e'))"
    using expiry_kept[OF assms(2,3), of t] s by simp_all
  have "cmd e [k, w] d = Ret (intResp 1, d')"
    using assms(4-6) s b(1) by (auto simp: cmdExpire_def cmdPExpire_def need_int_def bool_reply_def ArgStr_def Seconds_def Milliseconds_def)
  moreover have "cmdPTTL e' [k] d' = Ret (intResp (if t < now e' then - 2 else min max_int64 (t - now e') div 10 ^ 6), d')"
    using later(2) by (auto simp: cmdPTTL_def ArgStr_def Let_def go_quot_def int64_defs)
  moreover have "returns (cmdPersist e' [k] d') (\<lambda>(r, d''). r = intResp 1 \<and> keyspace e' d'' = (keyspace e' d')(k \<mapsto> (v, None)))"
    if "now e' \<le> t"
    using db_RemoveExpiry_keyspace[of e' d' k v "Some t"] later(1) that
    by (auto simp: cmdPersist_def ArgStr_def bool_reply_def split_beta)
  ultimately show ?thesis using b later(1) by simp
qed

theorem expiry_commands_witness:
  "returns (cmdExpire (plain_env 10) [''a'', ''100''] sample_db) (\<lambda>(r, d').
      cmdPTTL (plain_env (10 + 4 * 10 ^ 10)) [''a''] d' = Ret (intResp 60000, d'))
    \<and> returns (cmdExpire (plain_env 10) [''a'', ''9223372037''] sample_db) (\<lambda>(r, d'). r = intResp 1 \<and> keyspace (plain_env 10) d' ''a'' = None)"
proof -
  have p: "parsed (ParseInt ''100'') = Some 100" "parsed (ParseInt ''9223372037'') = Some 9223372037" by code_simp+
  have w: "wrap64 (100 * 10 ^ 9) = 10 ^ 11" "wrap64 (9223372037 * 10 ^ 9) < - 1000" by code_simp+
  have a: "keyspace (plain_env 10) sample_db ''a'' = Some (LStr ''1'', None)" by (simp add: sample_db_keyspace)
  note x = expiry_commands[OF sample_db_wf a _ _ disjI1[OF conjI[OF refl refl]] refl]
  have one: "returns (cmdExpire (plain_env 10) [''a'', ''100''] sample_db) (\<lambda>(r, d').
      cmdPTTL (plain_env (10 + 4 * 10 ^ 10)) [''a''] d' = Ret (intResp 60000, d'))"
    by (rule returns_mono[OF x[OF _ p(1), of "plain_env (10 + 4 * 10 ^ 10)"]]) (auto simp: w(1)[simplified] int64_defs)
  have "returns (cmdExpire (plain_env 10) [''a'', ''9223372037''] sample_db) (\<lambda>(r, d'). r = intResp 1 \<and> keyspace (plain_env 10) d' ''a'' = None)"
    by (rule returns_mono[OF x[OF _ p(2), of "plain_env 10"]]) (use w(2)[simplified] in auto)
  with one show ?thesis by blast
qed

section \<open>Why the conditions hold\<close>

text \<open>
  Values stay apart: at the start no two keys share a value, and no command of the
  table but \<open>COPY\<close>, and no eviction, makes two keys share one. Nor does one break the type
  invariant.
\<close>

theorem commands_keep_apart:
  assumes "Registry_Get name = Some h" and "ToUpper name \<noteq> ''COPY''" and "env_ok e" and "wf_db d" and "\<forall>k. alone d k"
  shows "(\<forall>k. alone newDB k) \<and> (\<forall>k. alone (snd (Evict e policy d)) k)
    \<and> guards (h e args d) (\<lambda>(r, d'). wf_db d' \<and> (\<forall>k. alone d' k))"
proof -
  have a: "apart d" using assms(5) by (simp add: apart_def)
  have "guards (h e args d) (\<lambda>p. wf_db (snd p))" using registered_keeps[OF assms(1)] assms(3,4) by (simp add: keeps_def)
  moreover have "guards (h e args d) (\<lambda>p. apart (snd p))"
    using registered_apart[OF assms(1,2)] assms(3,4) a by (simp add: preserves_def)
  ultimately have "guards (h e args d) (\<lambda>(r, d'). wf_db d' \<and> (\<forall>k. alone d' k))"
    by (cases "h e args d") (auto simp: apart_def)
  moreover have "alone newDB k" for k by (simp add: alone_def refs_def newDB_def)
  ultimately show ?thesis using values_apart.inv_Evict[OF a, of e policy] by (simp add: apart_def)
qed

lemma Registry_RENAME: "Registry_Get ''rename'' = Some cmdRename" "ToUpper ''rename'' \<noteq> ''COPY''"
proof -
  have u: "ToUpper ''rename'' = ''RENAME''" by code_simp
  then show "ToUpper ''rename'' \<noteq> ''COPY''" by simp
  show "Registry_Get ''rename'' = Some cmdRename" unfolding Registry_Get_def u by (simp add: registerAll_def table_defs)
qed

theorem commands_keep_apart_witness:
  "case cmdRename (plain_env 0) [''l'', ''m''] box_db of
     Ret (r, d') \<Rightarrow> r = okResp \<and> refs d' ''m'' = Some 0 \<and> alone d' ''m'' | Panic msg \<Rightarrow> False"
proof -
  have "guards (cmdRename (plain_env 0) [''l'', ''m''] box_db) (\<lambda>(r, d'). wf_db d' \<and> (\<forall>k. alone d' k))"
    using commands_keep_apart[where args = "[''l'', ''m'']", OF Registry_RENAME plain_env_ok[of 0] box_db_wf] box_db_alone by blast
  then show ?thesis
    by (simp add: cmdRename_def ArgStr_def db_Rename_def box_db_def box_object_def new_object_def IsExpired_def refs_def)
qed

text \<open>
  Sorted sets stay in step: when no argument of \<open>ZADD\<close> is a NaN, no command of the table but
  \<open>ZINCRBY\<close> (the sum of two infinities is a NaN), and no eviction, takes the map of the scores of
  a sorted set and its skip list out of step.
\<close>

theorem commands_keep_in_step:
  assumes "Registry_Get name = Some h" and "ToUpper name \<noteq> ''ZINCRBY''" and "env_ok e" and "wf_db d" and "zsets_ok d"
    and "ToUpper name = ''ZADD'' \<longrightarrow> (\<forall>w \<in> set args. \<forall>sc. parseScore w = Some sc \<longrightarrow> \<not> f_nan sc)"
  shows "zsets_ok newDB \<and> zsets_ok (snd (Evict e policy d))
    \<and> guards (h e args d) (\<lambda>(r, d'). wf_db d' \<and> zsets_ok d')"
proof -
  have "guards (h e args d) (\<lambda>p. wf_db (snd p))" using registered_keeps[OF assms(1)] assms(3,4) by (simp add: keeps_def)
  moreover have "guards (h e args d) (\<lambda>p. zsets_ok (snd p))" by (rule registered_in_step[OF assms])
  ultimately have "guards (h e args d) (\<lambda>(r, d'). wf_db d' \<and> zsets_ok d')" by (cases "h e args d") auto
  then show ?thesis using zsets_in_step.inv_Evict[OF assms(5), of e policy] by (simp add: zsets_ok_def newDB_def)
qed

lemma Registry_ZADD: "Registry_Get ''zadd'' = Some cmdZAdd" "ToUpper ''zadd'' \<noteq> ''ZINCRBY''"
proof -
  have u: "ToUpper ''zadd'' = ''ZADD''" by code_simp
  then show "ToUpper ''zadd'' \<noteq> ''ZINCRBY''" by simp
  show "Registry_Get ''zadd'' = Some cmdZAdd" unfolding Registry_Get_def u by (simp add: registerAll_def table_defs)
qed

theorem commands_keep_in_step_witness:
  "guards (cmdZAdd (plain_env 0) [''z'', ''inf'', ''n''] box_db) (\<lambda>(r, d'). wf_db d' \<and> zsets_ok d')"
proof -
  have "list_all (\<lambda>w. case parseScore w of None \<Rightarrow> True | Some sc \<Rightarrow> \<not> f_nan sc) [''z'', ''inf'', ''n'']"
    by code_simp
  then have "ToUpper ''zadd'' = ''ZADD'' \<longrightarrow> (\<forall>w \<in> set [''z'', ''inf'', ''n'']. \<forall>sc. parseScore w = Some sc \<longrightarrow> \<not> f_nan sc)"
    unfolding list_all_iff by (metis option.case(2))
  from commands_keep_in_step[OF Registry_ZADD plain_env_ok box_db_wf box_zsets_ok this] show ?thesis by blast
qed

end
