(* ===== verification/Aof.thy ===== *)
theory Aof
  imports Eviction Resp
begin

text \<open>
  The append-only file (persistence/aof.go): the buffered writer in front of the
  file, the format of a command, the synchronisation policy and the replay.

  The file system takes what it is given; the model has the bytes in the file and
  those still in the buffer. The background goroutine is a step of its own, \<open>bgSync\<close>.
\<close>

section \<open>Writing\<close>

record aof =
  afile :: string
  abuf :: string
  async :: AOFSync

definition aof_bufsize :: nat where "aof_bufsize = 64 * 1024"

definition NewAOF :: "string \<Rightarrow> AOFSync \<Rightarrow> aof" where
  "NewAOF contents policy = \<lparr>afile = contents, abuf = [], async = policy\<rparr>"

text \<open>
  \<open>bufio.Writer\<close>: what fits goes to the buffer; otherwise the buffer is filled and
  flushed, and what is left is buffered, or goes to the file at once when it is larger
  than the buffer.
\<close>

definition aof_Flush :: "aof \<Rightarrow> aof" where
  "aof_Flush a = a\<lparr>afile := afile a @ abuf a, abuf := []\<rparr>"

definition aof_direct :: "string \<Rightarrow> aof \<Rightarrow> aof" where
  "aof_direct p a = (if aof_bufsize < length p then a\<lparr>afile := afile a @ p\<rparr> else a\<lparr>abuf := p\<rparr>)"

definition bufio_Write :: "string \<Rightarrow> aof \<Rightarrow> aof" where
  "bufio_Write p a =
     (let avail = aof_bufsize - length (abuf a) in
      if length p \<le> avail then a\<lparr>abuf := abuf a @ p\<rparr>
      else if abuf a = [] then aof_direct p a
      else aof_direct (drop avail p) (aof_Flush (a\<lparr>abuf := abuf a @ take avail p\<rparr>)))"

definition aof_header :: "nat \<Rightarrow> string" where
  "aof_header n = CHR ''*'' # FormatInt (int n) @ crlf"

definition aof_arg :: "string \<Rightarrow> string" where
  "aof_arg arg = CHR ''$'' # FormatInt (int (length arg)) @ crlf @ arg @ crlf"

definition aof_Write :: "string list \<Rightarrow> aof \<Rightarrow> aof" where
  "aof_Write args a =
     (let a = fold bufio_Write (map aof_arg args) (bufio_Write (aof_header (length args)) a) in
      if async a = AOFSyncAlways then aof_Flush a else a)"

definition bgSync :: "aof \<Rightarrow> aof" where
  "bgSync a = (if async a = AOFSyncEverySec then aof_Flush a else a)"

definition aof_Close :: "aof \<Rightarrow> string" where "aof_Close a = afile (aof_Flush a)"

section \<open>Replay\<close>

text \<open>
  The handler takes the command in upper case and its arguments; it gives an error
  flag and the new state. The loop ends at the end of the file and at the first value
  that does not parse; a value that is no command is skipped.
\<close>

type_synonym 's replay_handler = "string \<Rightarrow> string list \<Rightarrow> 's \<Rightarrow> (bool \<times> 's) go"

function Replay :: "'s replay_handler \<Rightarrow> string \<Rightarrow> 's \<Rightarrow> (bool \<times> 's) go" where
  "Replay h s st =
     (case ReadValue s of
        Panic m \<Rightarrow> Panic m
      | Ret (Inl err) \<Rightarrow> Ret (False, st)
      | Ret (Inr (v, rest)) \<Rightarrow>
          (case ToCommand v of
             Inl err \<Rightarrow> Replay h rest st
           | Inr (cmd, args) \<Rightarrow>
               (case h (ToUpper cmd) (map Str args) st of
                  Panic m \<Rightarrow> Panic m
                | Ret (failed, st) \<Rightarrow> if failed then Ret (True, st) else Replay h rest st)))"
  by pat_completeness auto
termination
proof (relation "measure (\<lambda>(h, s, st). length s)", goal_cases)
  case 1
  show ?case by simp
next
  case (2 h s st x p v rest)
  then show ?case using ReadValue_consumes[of s] by (auto simp: consumes_def)
next
  case (3 h s st x p v rest)
  then show ?case using ReadValue_consumes[of s] by (auto simp: consumes_def)
qed

declare Replay.simps [simp del]

section \<open>What is written\<close>

text \<open>The bytes of one command and of a log of commands.\<close>

definition aof_bytes :: "string list \<Rightarrow> string" where
  "aof_bytes args = aof_header (length args) @ concat (map aof_arg args)"

definition aof_log :: "string list list \<Rightarrow> string" where
  "aof_log cmds = concat (map aof_bytes cmds)"

text \<open>All that has been written, in the file or on its way.\<close>

definition aof_contents :: "aof \<Rightarrow> string" where "aof_contents a = afile a @ abuf a"

definition aof_ok :: "aof \<Rightarrow> bool" where "aof_ok a \<longleftrightarrow> length (abuf a) \<le> aof_bufsize"

lemma aof_Flush_contents [simp]: "aof_contents (aof_Flush a) = aof_contents a" "aof_ok (aof_Flush a)" "async (aof_Flush a) = async a"
    "abuf (aof_Flush a) = []" "afile (aof_Flush a) = aof_contents a"
  by (simp_all add: aof_Flush_def aof_contents_def aof_ok_def)

lemma aof_direct_contents:
  "abuf a = [] \<Longrightarrow> aof_contents (aof_direct p a) = aof_contents a @ p \<and> aof_ok (aof_direct p a) \<and> async (aof_direct p a) = async a"
  by (simp add: aof_direct_def aof_contents_def aof_ok_def)

lemma bufio_Write_contents:
  "aof_ok a \<Longrightarrow> aof_contents (bufio_Write p a) = aof_contents a @ p \<and> aof_ok (bufio_Write p a) \<and> async (bufio_Write p a) = async a"
  using aof_direct_contents[of a p]
    aof_direct_contents[of "aof_Flush (a\<lparr>abuf := abuf a @ take (aof_bufsize - length (abuf a)) p\<rparr>)" "drop (aof_bufsize - length (abuf a)) p"]
  by (auto simp: bufio_Write_def Let_def aof_contents_def aof_ok_def aof_Flush_def)

text \<open>A file only grows.\<close>

lemma aof_file_prefix: "\<exists>x. afile (bufio_Write p a) = afile a @ x" "\<exists>x. afile (aof_Flush a) = afile a @ x"
  by (auto simp: bufio_Write_def aof_direct_def aof_Flush_def Let_def)

lemma fold_bufio_Write:
  "aof_ok a \<Longrightarrow> aof_contents (fold bufio_Write ps a) = aof_contents a @ concat ps \<and> aof_ok (fold bufio_Write ps a)
    \<and> async (fold bufio_Write ps a) = async a"
  by (induction ps arbitrary: a) (simp_all add: bufio_Write_contents)

lemma aof_Write_contents:
  assumes "aof_ok a"
  shows "aof_contents (aof_Write args a) = aof_contents a @ aof_bytes args" "aof_ok (aof_Write args a)"
    "async (aof_Write args a) = async a" "async a = AOFSyncAlways \<Longrightarrow> abuf (aof_Write args a) = []"
proof -
  let ?b = "bufio_Write (aof_header (length args)) a"
  have b: "aof_contents ?b = aof_contents a @ aof_header (length args)" "aof_ok ?b" "async ?b = async a"
    using bufio_Write_contents[OF assms] by auto
  note f = fold_bufio_Write[OF b(2), of "map aof_arg args"]
  show "aof_contents (aof_Write args a) = aof_contents a @ aof_bytes args" "aof_ok (aof_Write args a)"
    "async (aof_Write args a) = async a" "async a = AOFSyncAlways \<Longrightarrow> abuf (aof_Write args a) = []"
    using b f by (simp_all add: aof_Write_def aof_bytes_def Let_def)
qed

lemma aof_bytes_value: "aof_bytes args = fst (WriteValue (array_value (map bulk_value args)))"
proof -
  have "write_elems (map bulk_value args) = (concat (map aof_arg args), True)"
    by (induction args) (simp_all add: bulk_value_def aof_arg_def WriteBulkString_def type_defs)
  then show ?thesis by (simp add: aof_bytes_def aof_header_def array_value_def WriteArrayLen_def type_defs)
qed

section \<open>Reading it back\<close>

text \<open>A command that can be read back: the sizes are within what the reader allocates.\<close>

definition loggable :: "string list \<Rightarrow> bool" where
  "loggable args \<longleftrightarrow> args \<noteq> [] \<and> 8 * int (length args) \<le> max_alloc \<and> list_all (\<lambda>s. int (length s) + 2 \<le> max_alloc) args"

lemma loggable_wire: "loggable args \<Longrightarrow> wire_ok (array_value (map bulk_value args))"
  by (auto simp: loggable_def array_value_def bulk_value_def type_defs list_all_iff)

lemma read_logged: "loggable args \<Longrightarrow> ReadValue (aof_bytes args @ rest) = Ret (Inr (array_value (map bulk_value args), rest))"
  using ReadValue_write[OF loggable_wire] by (simp add: aof_bytes_value)

lemma Replay_step:
  assumes "loggable (cmd # args)"
  shows "Replay h (aof_bytes (cmd # args) @ rest) st =
    (case h (ToUpper cmd) args st of
       Panic m \<Rightarrow> Panic m | Ret (failed, st) \<Rightarrow> if failed then Ret (True, st) else Replay h rest st)"
proof -
  have "ToCommand (array_value (map bulk_value (cmd # args))) = Inr (cmd, map bulk_value args)"
    by (simp add: ToCommand_def array_value_def bulk_value_def)
  moreover have "map Str (map bulk_value args) = args" by (induction args) (simp_all add: bulk_value_def)
  ultimately show ?thesis
    by (subst Replay.simps) (simp only: read_logged[OF assms] go.case sum.case prod.case)
qed

text \<open>The commands of a log, one after the other.\<close>

fun run_log :: "'s replay_handler \<Rightarrow> string list list \<Rightarrow> 's \<Rightarrow> (bool \<times> 's) go" where
  "run_log h [] st = Ret (False, st)"
| "run_log h (c # cs) st =
     (case h (ToUpper (hd c)) (tl c) st of
        Panic m \<Rightarrow> Panic m | Ret (failed, st) \<Rightarrow> if failed then Ret (True, st) else run_log h cs st)"

lemma Replay_stop: "ReadValue s = Ret (Inl err) \<Longrightarrow> Replay h s st = Ret (False, st)"
  by (subst Replay.simps) simp

lemma Replay_log_then:
  "list_all loggable cmds \<Longrightarrow> ReadValue tail_bytes = Ret (Inl err) \<Longrightarrow> Replay h (aof_log cmds @ tail_bytes) st = run_log h cmds st"
proof (induction cmds arbitrary: st)
  case Nil
  then show ?case by (simp add: aof_log_def Replay_stop)
next
  case (Cons c cmds)
  from Cons.prems(1) obtain cmd args where c: "c = cmd # args" by (cases c) (auto simp: loggable_def)
  have "aof_log (c # cmds) @ tail_bytes = aof_bytes (cmd # args) @ aof_log cmds @ tail_bytes" by (simp add: aof_log_def c)
  moreover have "loggable (cmd # args)" "list_all loggable cmds" using Cons.prems(1) c by simp_all
  ultimately show ?case
    using Cons.IH[OF _ Cons.prems(2)]
    by (simp add: Replay_step c split: go.split prod.split)
qed

lemma ReadValue_Nil: "ReadValue [] = Ret (Inl EOF)"
  by (simp add: ReadValue_def)

lemma Replay_log: "list_all loggable cmds \<Longrightarrow> Replay h (aof_log cmds) st = run_log h cmds st"
  using Replay_log_then[of cmds "[]" EOF h st] ReadValue_Nil by simp

text \<open>A log that was cut off anywhere replays to a prefix of its commands.\<close>

lemma log_prefix:
  assumes "list_all loggable cmds" and "aof_log cmds = p @ t"
  shows "\<exists>n r err. p = aof_log (take n cmds) @ r \<and> ReadValue r = Ret (Inl err)
    \<and> (\<forall>m. m \<le> length cmds \<longrightarrow> length (aof_log (take m cmds)) \<le> length p \<longrightarrow> m \<le> n)"
  using assms
proof (induction cmds arbitrary: p)
  case Nil
  then show ?case using ReadValue_Nil by (intro exI[of _ 0] exI[of _ "[]"] exI[of _ EOF]) (simp add: aof_log_def)
next
  case (Cons c cmds)
  have l: "aof_bytes c @ aof_log cmds = p @ t" using Cons.prems(2) by (simp add: aof_log_def)
  show ?case
  proof (cases "length p < length (aof_bytes c)")
    case True
    then obtain u where u: "aof_bytes c = p @ u" "u \<noteq> []"
      using l by (auto simp: append_eq_append_conv2)
    have "loggable c" using Cons.prems(1) by simp
    from ReadValue_prefix[OF loggable_wire[OF this] u(1)[unfolded aof_bytes_value] u(2)]
    obtain err where err: "ReadValue p = Ret (Inl err)" by blast
    have "m = 0" if "length (aof_log (take m (c # cmds))) \<le> length p" for m
      using that True by (cases m) (simp_all add: aof_log_def)
    with err show ?thesis by (intro exI[of _ 0] exI[of _ p] exI[of _ err]) (auto simp: aof_log_def)
  next
    case False
    then obtain u where u: "p = aof_bytes c @ u" "aof_log cmds = u @ t"
      using l by (auto simp: append_eq_append_conv2)
    from Cons.IH[OF _ u(2)] Cons.prems(1) obtain n r err where n:
      "u = aof_log (take n cmds) @ r" "ReadValue r = Ret (Inl err)"
      "\<And>m. m \<le> length cmds \<Longrightarrow> length (aof_log (take m cmds)) \<le> length u \<Longrightarrow> m \<le> n" by auto
    have "m \<le> Suc n" if "m \<le> length (c # cmds)" "length (aof_log (take m (c # cmds))) \<le> length p" for m
      using that n(3)[of "m - 1"] u(1) by (cases m) (simp_all add: aof_log_def)
    with n(1,2) u(1) show ?thesis by (intro exI[of _ "Suc n"] exI[of _ r] exI[of _ err]) (simp add: aof_log_def)
  qed
qed

lemma Replay_crash:
  assumes "list_all loggable cmds" and "aof_log cmds = p @ t"
  shows "\<exists>n \<le> length cmds. Replay h p st = run_log h (take n cmds) st \<and> length (aof_log (take n cmds)) \<le> length p
    \<and> (\<forall>m. m \<le> length cmds \<longrightarrow> length (aof_log (take m cmds)) \<le> length p \<longrightarrow> m \<le> n)"
proof -
  from log_prefix[OF assms] obtain n r err where r: "p = aof_log (take n cmds) @ r" "ReadValue r = Ret (Inl err)"
    "\<And>m. m \<le> length cmds \<Longrightarrow> length (aof_log (take m cmds)) \<le> length p \<Longrightarrow> m \<le> n" by blast
  let ?n = "min n (length cmds)"
  have t: "take ?n cmds = take n cmds" by (simp add: min_def)
  have "list_all loggable (take n cmds)" using assms(1) by (auto simp: list_all_iff dest: in_set_takeD)
  from Replay_log_then[OF this r(2), of h st] r(1) have "Replay h p st = run_log h (take n cmds) st" by simp
  then show ?thesis using r(1,3) by (intro exI[of _ ?n]) (auto simp: t)
qed

end
