(* ===== verification/Server.thy ===== *)
theory Server
  imports Registry Aof
begin

text \<open>
  The server (server/server.go and server/client.go): a client with its selected
  database and its transaction, the dispatch of one command, the transaction, the
  replay at start, and the event loop as steps of a state machine. A client's
  \<open>reader\<close> are the bytes it sent that have not been parsed, \<open>writer\<close> the bytes flushed
  to it, and \<open>hungup\<close> says that the peer has closed its end; sockets and epoll are in
  Event_Loop. Each execution of a command gets an environment of its own.

  The one thread of the server does not leave \<open>io.ReadFull\<close> (resp/reader.go) while the body of a
  bulk string has not arrived, because a read of the connection gives no bytes and no error then
  (server/rawconn.go): \<open>sbusy\<close> is the descriptor for whose bytes it waits there. Nobody else is
  served meanwhile.
\<close>

section \<open>Clients\<close>

record client =
  dbIndex :: int
  inMulti :: bool
  queue :: "(string \<times> resp_value list) list"
  reader :: string
  writer :: string
  hungup :: bool

definition NewClient :: client where
  "NewClient = \<lparr>dbIndex = 0, inMulti = False, queue = [], reader = [], writer = [], hungup = False\<rparr>"

definition StartMulti :: "client \<Rightarrow> client" where "StartMulti c = c\<lparr>inMulti := True, queue := []\<rparr>"
definition DiscardMulti :: "client \<Rightarrow> client" where "DiscardMulti c = c\<lparr>inMulti := False, queue := []\<rparr>"
definition Enqueue :: "string \<Rightarrow> resp_value list \<Rightarrow> client \<Rightarrow> client" where
  "Enqueue name args c = c\<lparr>queue := queue c @ [(name, args)]\<rparr>"
definition FlushQueue :: "client \<Rightarrow> (string \<times> resp_value list) list \<times> client" where
  "FlushQueue c = (queue c, c\<lparr>queue := [], inMulti := False\<rparr>)"

definition send :: "string \<Rightarrow> client \<Rightarrow> client" where "send bytes c = c\<lparr>writer := writer c @ bytes\<rparr>"

section \<open>Executing a command\<close>

record server =
  sdbs :: "db list"
  saof :: "aof option"
  sclients :: "(nat \<times> client) list"
  sbusy :: "nat option"

definition nil_dereference :: string where "nil_dereference = ''nil pointer dereference''"

text \<open>What follows the handler: a write command goes to the append-only file.\<close>

definition log_command :: "string \<Rightarrow> resp_value list \<Rightarrow> server \<Rightarrow> server" where
  "log_command cmdName args s =
     (case saof s of
        None \<Rightarrow> s
      | Some a \<Rightarrow> if isWriteCommand cmdName then s\<lparr>saof := Some (aof_Write (cmdName # map Str args) a)\<rparr> else s)"

text \<open>
  \<open>SELECT\<close> and \<open>FLUSHALL\<close> never reach the command table. A client without a
  database cannot occur when there is at least one (the invariant below); the model
  panics there for every command, the code for those that look at the database.
\<close>

definition execute :: "config \<Rightarrow> env \<Rightarrow> string \<Rightarrow> resp_value list \<Rightarrow> client \<Rightarrow> server \<Rightarrow> (resp_value \<times> client \<times> server) go" where
  "execute cfg e cmdName args c s =
     (if cmdName = ''SELECT'' then
        Ret (if length args \<noteq> 1 then (wrongArgCount ''select'', c, s)
             else (case parsed (Atoi (Str (hd args))) of
                 None \<Rightarrow> (error_value ''ERR DB index is out of range'', c, s)
               | Some idx \<Rightarrow>
                   if idx < 0 \<or> Databases cfg \<le> idx then (error_value ''ERR DB index is out of range'', c, s)
                   else (simple_value ''OK'', c\<lparr>dbIndex := idx\<rparr>, s)))
      else if cmdName = ''FLUSHALL'' then Ret (simple_value ''OK'', c, s\<lparr>sdbs := map db_Flush (sdbs s)\<rparr>)
      else case Registry_Get cmdName of
        None \<Rightarrow> Ret (error_value (''ERR unknown command '' @ [quote] @ ToLower cmdName @ [quote]), c, s)
      | Some h \<Rightarrow>
          (case DB (sdbs s) (dbIndex c) of
             None \<Rightarrow> Panic nil_dereference
           | Some d \<Rightarrow> go_bind (h e (map Str args) d) (\<lambda>(r, d).
               Ret (r, c, log_command cmdName args (s\<lparr>sdbs := (sdbs s)[nat (dbIndex c) := d]\<rparr>)))))"

text \<open>The transaction: the \<open>i\<close>-th command runs in environment \<open>es i\<close>, its reply goes out at once.\<close>

fun exec_queue :: "config \<Rightarrow> (nat \<Rightarrow> env) \<Rightarrow> nat \<Rightarrow> (string \<times> resp_value list) list \<Rightarrow> client \<Rightarrow> server \<Rightarrow> (client \<times> server) go" where
  "exec_queue cfg es i [] c s = Ret (c, s)"
| "exec_queue cfg es i ((name, args) # entries) c s =
     go_bind (execute cfg (es i) name args c s) (\<lambda>(r, c, s).
       exec_queue cfg es (Suc i) entries (send (fst (WriteValue r)) c) s)"

definition execTransaction :: "config \<Rightarrow> (nat \<Rightarrow> env) \<Rightarrow> client \<Rightarrow> server \<Rightarrow> (bool \<times> client \<times> server) go" where
  "execTransaction cfg es c s =
     (case FlushQueue c of (entries, c) \<Rightarrow>
        go_bind (exec_queue cfg es 0 entries (send (WriteArrayLen (int (length entries))) c) s)
          (\<lambda>(c, s). Ret (False, c, s)))"

section \<open>One command of a client\<close>

text \<open>The flag tells whether the connection is to be closed.\<close>

definition dispatch :: "config \<Rightarrow> (nat \<Rightarrow> env) \<Rightarrow> string \<Rightarrow> resp_value list \<Rightarrow> client \<Rightarrow> server \<Rightarrow> (bool \<times> client \<times> server) go" where
  "dispatch cfg es cmdName args c s =
     (if cmdName = ''MULTI'' then
        Ret (False, (if inMulti c then send (WriteError ''ERR MULTI calls can not be nested'') c
                     else send (WriteSimpleString ''OK'') (StartMulti c)), s)
      else if cmdName = ''DISCARD'' then
        Ret (False, (if \<not> inMulti c then send (WriteError ''ERR DISCARD without MULTI'') c
                     else send (WriteSimpleString ''OK'') (DiscardMulti c)), s)
      else if cmdName = ''EXEC'' then
        (if \<not> inMulti c then Ret (False, send (WriteError ''ERR EXEC without MULTI'') c, s)
         else execTransaction cfg es c s)
      else if cmdName = ''QUIT'' then Ret (True, send (WriteSimpleString ''OK'') c, s)
      else if inMulti c then Ret (False, send (WriteSimpleString ''QUEUED'') (Enqueue cmdName args c), s)
      else go_bind (execute cfg (es 0) cmdName args c s) (\<lambda>(r, c, s).
        case WriteValue r of (out, good) \<Rightarrow> Ret (if good then (False, send out c, s) else (True, c, s))))"

text \<open>
  What has arrived of the next value is read again whenever the thread looks at the connection. An
  error other than the short body of a bulk string ends the connection: in a line, or before a
  value, the buffered reader gives up after 100 empty reads. A short body ends it only if the peer
  has closed; otherwise the thread stays, and the rest of the value is handled when it has come.
\<close>

definition handleClient :: "config \<Rightarrow> (nat \<Rightarrow> env) \<Rightarrow> nat \<Rightarrow> client \<Rightarrow> server \<Rightarrow> (bool \<times> client \<times> server) go" where
  "handleClient cfg es fd c s =
     (let s = s\<lparr>sbusy := None\<rparr> in
      case ReadValue (reader c) of
        Panic m \<Rightarrow> Panic m
      | Ret (Inl err) \<Rightarrow>
          Ret (if err = ErrUnexpectedEOF \<and> \<not> hungup c then (False, c, s\<lparr>sbusy := Some fd\<rparr>) else (True, c, s))
      | Ret (Inr (v, rest)) \<Rightarrow>
          let c = c\<lparr>reader := rest\<rparr> in
          (case ToCommand v of
             Inl err \<Rightarrow> Ret (False, send (WriteError ''ERR Protocol error'') c, s)
           | Inr (cmdName, args) \<Rightarrow> dispatch cfg es (ToUpper cmdName) args c s))"

section \<open>Start\<close>

text \<open>The address the server listens on, with the port in decimal.\<close>

definition Addr :: "config \<Rightarrow> string" where "Addr cfg = Host cfg @ '':'' @ FormatInt (Port cfg)"


text \<open>The replay runs every command of the file on database 0; the state of the handler
  counts the commands, for their environments.\<close>

definition replay_command :: "(nat \<Rightarrow> env) \<Rightarrow> (nat \<times> db option) replay_handler" where
  "replay_command es cmd args st =
     (case st of (i, od) \<Rightarrow>
        (case Registry_Get cmd of
           None \<Rightarrow> Ret (False, (i, od))
         | Some h \<Rightarrow>
             (case od of
                None \<Rightarrow> Panic nil_dereference
              | Some d \<Rightarrow> go_bind (h (es i) args d) (\<lambda>(r, d). Ret (False, (Suc i, Some d))))))"

definition replayAOF :: "(nat \<Rightarrow> env) \<Rightarrow> string \<Rightarrow> db list \<Rightarrow> db list go" where
  "replayAOF es file dbs =
     go_bind (Replay (replay_command es) file (0, DB dbs 0)) (\<lambda>(failed, i, od).
       Ret (case od of None \<Rightarrow> dbs | Some d \<Rightarrow> dbs[0 := d]))"

definition Server_New :: "config \<Rightarrow> (nat \<Rightarrow> env) \<Rightarrow> string \<Rightarrow> server go" where
  "Server_New cfg es file =
     go_bind (New (Databases cfg)) (\<lambda>dbs.
       if AOFEnabled cfg then
         go_bind (replayAOF es file dbs) (\<lambda>dbs.
           Ret \<lparr>sdbs = dbs, saof = Some (NewAOF file (AOFSyncPolicy cfg)), sclients = [], sbusy = None\<rparr>)
       else Ret \<lparr>sdbs = dbs, saof = None, sclients = [], sbusy = None\<rparr>)"

section \<open>The event loop\<close>

definition addClient :: "nat \<Rightarrow> server \<Rightarrow> server" where
  "addClient fd s = s\<lparr>sclients := AList.update fd NewClient (sclients s)\<rparr>"

definition removeClient :: "nat \<Rightarrow> server \<Rightarrow> server" where
  "removeClient fd s = s\<lparr>sclients := AList.delete fd (sclients s)\<rparr>"

text \<open>What the file holds after the server is closed.\<close>

definition Server_Close :: "server \<Rightarrow> string option" where
  "Server_Close s = map_option aof_Close (saof s)"

declare addClient_def [simp] removeClient_def [simp]

datatype event =
    Accept nat
  | Receive nat string
  | Hangup nat
  | Ready nat "nat \<Rightarrow> env"
  | Tick

text \<open>
  A connection is accepted; bytes arrive, or the peer closes; the thread looks at a connection, because
  epoll reports it or because it waits for the rest of a body, and handles at most one command of its
  client; the background goroutine flushes the file.
\<close>

fun server_step :: "config \<Rightarrow> event \<Rightarrow> server \<Rightarrow> server go" where
  "server_step cfg (Accept fd) s = Ret (if sbusy s \<noteq> None then s else addClient fd s)"
| "server_step cfg (Receive fd bytes) s =
     Ret (case map_of (sclients s) fd of
        None \<Rightarrow> s
      | Some c \<Rightarrow> if hungup c then s
                 else s\<lparr>sclients := AList.update fd (c\<lparr>reader := reader c @ bytes\<rparr>) (sclients s)\<rparr>)"
| "server_step cfg (Hangup fd) s =
     Ret (case map_of (sclients s) fd of
        None \<Rightarrow> s
      | Some c \<Rightarrow> s\<lparr>sclients := AList.update fd (c\<lparr>hungup := True\<rparr>) (sclients s)\<rparr>)"
| "server_step cfg (Ready fd es) s =
     (if sbusy s \<noteq> None \<and> sbusy s \<noteq> Some fd then Ret s
      else case map_of (sclients s) fd of
        None \<Rightarrow> Ret s
      | Some c \<Rightarrow> go_bind (handleClient cfg es fd c s) (\<lambda>(failed, c, s).
          Ret (if failed then removeClient fd s
               else s\<lparr>sclients := AList.update fd c (sclients s)\<rparr>)))"
| "server_step cfg Tick s = Ret (s\<lparr>saof := map_option bgSync (saof s)\<rparr>)"

fun event_ok :: "event \<Rightarrow> bool" where
  "event_ok (Ready fd es) = (\<forall>i. env_ok (es i))"
| "event_ok ev = True"

inductive reachable :: "config \<Rightarrow> string \<Rightarrow> server \<Rightarrow> bool" for cfg contents where
  start: "\<lbrakk>\<forall>i. env_ok (es i); Server_New cfg es contents = Ret s\<rbrakk> \<Longrightarrow> reachable cfg contents s"
| step: "\<lbrakk>reachable cfg contents s; event_ok ev; server_step cfg ev s = Ret s'\<rbrakk> \<Longrightarrow> reachable cfg contents s'"

end
