(* ===== verification/Partial_Request.thy ===== *)
theory Partial_Request
  imports Resp
begin

text \<open>
  What the reader makes of a request of which only a first part is there. A client sends a
  command as an array of bulk strings; a part of it ends in a line (the length of the array or of a
  string, or between two strings), or in the body of a string. The reader tells the two apart by
  its error: \<open>ErrUnexpectedEOF\<close> is returned for a body only.
\<close>

definition request :: "string list \<Rightarrow> resp_value" where "request ws = array_value (map bulk_value ws)"

text \<open>The length of the line that announces \<open>n\<close> elements or bytes, with its type byte.\<close>

definition line_length :: "nat \<Rightarrow> nat" where "line_length n = length (FormatInt (int n)) + 3"

text \<open>Of the strings \<open>ws\<close>, the part \<open>p\<close> has arrived: does it end in the body of one of them?\<close>

fun body_cut :: "string list \<Rightarrow> string \<Rightarrow> bool" where
  "body_cut [] p = False"
| "body_cut (w # ws) p =
     (let line = line_length (length w); whole = line + length w + 2 in
      if length p < whole then line \<le> length p else body_cut ws (drop whole p))"

definition request_cut :: "string list \<Rightarrow> string \<Rightarrow> bool" where
  "request_cut ws p = (let line = line_length (length ws) in line \<le> length p \<and> body_cut ws (drop line p))"

lemma write_bulks: "write_elems (map bulk_value ws) = (concat (map WriteBulkString ws), True)"
  by (induction ws) (simp_all add: bulk_value_def type_defs)

lemma write_request: "fst (WriteValue (request ws)) = WriteArrayLen (int (length ws)) @ concat (map WriteBulkString ws)"
  by (simp add: request_def array_value_def type_defs write_bulks)

lemma readLine_cut: "NL \<notin> set p \<Longrightarrow> readLine p = Inl EOF"
proof -
  assume "NL \<notin> set p"
  then have "dropWhile (\<lambda>c. c \<noteq> NL) p = []" by (auto simp: dropWhile_eq_Nil_conv)
  then show ?thesis unfolding readLine_def by (simp only: Let_def list.case)
qed

text \<open>A part of a line, or all of it with a part of what follows.\<close>

lemma line_part:
  assumes "line @ crlf @ rest = p @ t" and "NL \<notin> set line"
  shows "if length p < length line + 2 then readLine p = Inl EOF
    else \<exists>b. p = line @ crlf @ b \<and> rest = b @ t \<and> readLine p = Inr (line, b)"
proof (cases "length p < length line + 2")
  case True
  have "take (length p) (line @ crlf @ rest) = p" using assms(1) by simp
  moreover have "length p \<le> length (line @ [CR])" using True by simp
  then have "take (length p) ((line @ [CR]) @ NL # rest) = take (length p) (line @ [CR])"
    by (simp only: take_append diff_is_0_eq[THEN iffD2] take_0 append_Nil2)
  ultimately have "p = take (length p) (line @ [CR])" by (simp add: crlf_def)
  then have "set p \<subseteq> set (line @ [CR])" by (metis set_take_subset)
  moreover have "NL \<notin> set (line @ [CR])" using assms(2) by (simp add: NL_def CR_def)
  ultimately have "NL \<notin> set p" by blast
  with True show ?thesis by (simp add: readLine_cut)
next
  case False
  then have l: "length (line @ crlf) \<le> length p" by simp
  have "(line @ crlf) @ rest = p @ t" using assms(1) by simp
  with l obtain b where "p = (line @ crlf) @ b" "rest = b @ t"
    by (metis append_eq_append_conv_if append_take_drop_id)
  with False assms(2) show ?thesis by auto
qed

lemma bulk_part:
  assumes "FormatInt (int (length w)) @ crlf @ w @ crlf = p @ t" and "t \<noteq> []" and "int (length w) + 2 \<le> max_alloc"
  shows "readBulkString p = Ret (Inl (if line_length (length w) \<le> Suc (length p) then ErrUnexpectedEOF else EOF))"
proof (cases "length p < length (FormatInt (int (length w))) + 2")
  case True
  with line_part[OF assms(1)] show ?thesis by (simp add: readBulkString_def line_length_def)
next
  case False
  with line_part[OF assms(1)] obtain b where b: "w @ crlf = b @ t" "readLine p = Inr (FormatInt (int (length w)), b)" by auto
  have "length (w @ crlf) = length b + length t" using b(1) by simp
  moreover have "0 < length t" using assms(2) by simp
  ultimately have "length b < length w + 2" by simp
  moreover have "int64_range (int (length w))" "int64_range (int (length w) + 2)"
    using assms(3) by (simp_all add: int64_defs max_alloc_def)
  moreover have "make_slice 1 (int (length w) + 2) = Ret ()" by (rule make_slice_Ret) (use assms(3) in simp_all)
  ultimately show ?thesis using False b(2)
    by (simp add: readBulkString_def line_length_def wrap64_id)
qed

lemma elems_part:
  "concat (map WriteBulkString ws) = p @ t \<Longrightarrow> t \<noteq> [] \<Longrightarrow> \<forall>w \<in> set ws. int (length w) + 2 \<le> max_alloc \<Longrightarrow>
    read_elems (read_value (Suc fuel)) (length ws) p = Ret (Inl (if body_cut ws p then ErrUnexpectedEOF else EOF))"
proof (induction ws arbitrary: p)
  case (Cons w ws)
  let ?W = "WriteBulkString w"
  have len: "length ?W = line_length (length w) + length w + 2"
    by (simp add: WriteBulkString_def line_length_def)
  have bulk: "int (length w) + 2 \<le> max_alloc" using Cons.prems(3) by simp
  show ?case
  proof (cases "length p < length ?W")
    case True
    then obtain t1 where t1: "?W = p @ t1" "t1 \<noteq> []"
      using Cons.prems(1) by (auto simp: append_eq_append_conv2)
    show ?thesis
    proof (cases p)
      case Nil
      then show ?thesis using True len by (simp add: line_length_def)
    next
      case (Cons x p')
      with t1 have x: "x = TypeBulkString" "FormatInt (int (length w)) @ crlf @ w @ crlf = p' @ t1"
        by (simp_all add: WriteBulkString_def)
      have "read_value (Suc fuel) p = readBulkString p'" using Cons x(1) by (simp add: type_defs)
      with bulk_part[OF x(2) t1(2) bulk] True len Cons show ?thesis by (simp del: read_value.simps)
    qed
  next
    case False
    then obtain p' where p': "p = ?W @ p'" "concat (map WriteBulkString ws) = p' @ t"
      using Cons.prems(1) by (auto simp: append_eq_append_conv2)
    have r: "read_value (Suc fuel) (?W @ p') = Ret (Inr (bulk_value w, p'))"
      using readBulkString_write[OF bulk, of p'] by (simp add: WriteBulkString_def type_defs)
    have d: "drop (length ?W) p = p'" by (simp add: p'(1))
    have "read_elems (read_value (Suc fuel)) (length ws) p' = Ret (Inl (if body_cut ws p' then ErrUnexpectedEOF else EOF))"
      using Cons.prems by (intro Cons.IH[OF p'(2)]) simp_all
    moreover have "body_cut (w # ws) p = body_cut ws p'" using False d by (simp add: len Let_def)
    ultimately show ?thesis using r p'(1) by (simp del: read_value.simps body_cut.simps)
  qed
qed simp

text \<open>The error that the reader returns for a part of a request.\<close>

lemma ReadValue_part:
  assumes "wire_ok (request ws)" and "fst (WriteValue (request ws)) = p @ t" and "t \<noteq> []"
  shows "ReadValue p = Ret (Inl (if request_cut ws p then ErrUnexpectedEOF else EOF))"
proof (cases p)
  case Nil
  then show ?thesis by (simp add: ReadValue_def request_cut_def line_length_def)
next
  case (Cons x p')
  have ws: "8 * int (length ws) \<le> max_alloc" "\<forall>w \<in> set ws. int (length w) + 2 \<le> max_alloc"
    using assms(1) by (auto simp: request_def array_value_def bulk_value_def type_defs list_all_iff)
  from assms(2) Cons have x: "x = TypeArray"
    "FormatInt (int (length ws)) @ crlf @ concat (map WriteBulkString ws) = p' @ t"
    by (simp_all add: write_request WriteArrayLen_def)
  have r: "ReadValue p = readArray (read_value (length p)) p'" using Cons x(1) by (simp add: ReadValue_def type_defs)
  show ?thesis
  proof (cases "length p' < length (FormatInt (int (length ws))) + 2")
    case True
    with line_part[OF x(2)] r Cons show ?thesis by (simp add: readArray_def request_cut_def line_length_def)
  next
    case False
    with line_part[OF x(2)] obtain b where b: "p' = FormatInt (int (length ws)) @ crlf @ b"
      "concat (map WriteBulkString ws) = b @ t" "readLine p' = Inr (FormatInt (int (length ws)), b)" by auto
    have fuel: "length p = Suc (length p')" using Cons by simp
    note e = elems_part[OF b(2) assms(3) ws(2), of "length p'"]
    have "drop (line_length (length ws)) ((x # FormatInt (int (length ws)) @ crlf) @ b) = b"
      by (subst drop_append) (simp add: line_length_def)
    then have "drop (line_length (length ws)) p = b" "line_length (length ws) \<le> length p"
      "line_length (length ws) \<le> Suc (length p')" using Cons b(1) by (simp_all add: line_length_def)
    moreover have "int64_range (int (length ws))" using ws(1) by (simp add: int64_defs max_alloc_def)
    ultimately show ?thesis
      using r b(3) e ws(1) unfolding fuel by (simp add: fuel readArray_def request_cut_def make_slice_def del: read_value.simps)
  qed
qed

end
