(* ===== verification/Server_Correct.thy ===== *)
theory Server_Correct
  imports Server Partial_Request
begin

text \<open>
  What the server promises: in every reachable state the databases are sound, every
  client has one of them, a client outside a transaction has nothing queued, and no
  command fails a type assertion; transactions run in order and in one step; the
  append-only file holds the write commands. Recovery is about reading it back.
\<close>

section \<open>The invariant\<close>

definition client_ok :: "config \<Rightarrow> client \<Rightarrow> bool" where
  "client_ok cfg c \<longleftrightarrow> 0 \<le> dbIndex c \<and> dbIndex c < Databases cfg \<and> (\<not> inMulti c \<longrightarrow> queue c = [])"

text \<open>The append-only file holds what was there at the start and the write commands since;
  with the policy \<open>always\<close> nothing of it is only in the buffer.\<close>

definition log_ok :: "config \<Rightarrow> string \<Rightarrow> aof \<Rightarrow> bool" where
  "log_ok cfg bytes0 a \<longleftrightarrow> aof_ok a \<and> async a = AOFSyncPolicy cfg
     \<and> (\<exists>cmds. aof_contents a = bytes0 @ aof_log cmds \<and> list_all (\<lambda>c. c \<noteq> [] \<and> isWriteCommand (hd c)) cmds)
     \<and> (AOFSyncPolicy cfg = AOFSyncAlways \<longrightarrow> abuf a = [])"

definition server_ok :: "config \<Rightarrow> string \<Rightarrow> server \<Rightarrow> bool" where
  "server_ok cfg bytes0 s \<longleftrightarrow> length (sdbs s) = nat (Databases cfg) \<and> list_all wf_db (sdbs s)
     \<and> map_wf (sclients s) \<and> (\<forall>fd c. map_of (sclients s) fd = Some c \<longrightarrow> client_ok cfg c)
     \<and> (case saof s of None \<Rightarrow> True | Some a \<Rightarrow> log_ok cfg bytes0 a)
     \<and> (\<forall>fd. sbusy s = Some fd \<longrightarrow> map_of (sclients s) fd \<noteq> None)"

lemma send_ok [simp]: "client_ok cfg (send bytes c) = client_ok cfg c" "inMulti (send bytes c) = inMulti c"
    "queue (send bytes c) = queue c" "dbIndex (send bytes c) = dbIndex c" "reader (send bytes c) = reader c"
  by (simp_all add: send_def client_ok_def)

lemma log_command_fields [simp]:
  "sdbs (log_command n args s) = sdbs s" "sclients (log_command n args s) = sclients s" "sbusy (log_command n args s) = sbusy s"
  by (simp_all add: log_command_def split: option.split)

lemma log_ok_Write:
  assumes "log_ok cfg bytes0 a" and "isWriteCommand n"
  shows "log_ok cfg bytes0 (aof_Write (n # args) a)"
proof -
  obtain cmds where c: "aof_contents a = bytes0 @ aof_log cmds" "list_all (\<lambda>c. c \<noteq> [] \<and> isWriteCommand (hd c)) cmds"
    using assms(1) by (auto simp: log_ok_def)
  have "aof_contents (aof_Write (n # args) a) = bytes0 @ aof_log (cmds @ [n # args])"
    using assms(1) c(1) by (simp add: log_ok_def aof_Write_contents aof_log_def)
  moreover have "list_all (\<lambda>c. c \<noteq> [] \<and> isWriteCommand (hd c)) (cmds @ [n # args])" using c(2) assms(2) by simp
  ultimately show ?thesis using assms(1) by (auto simp: log_ok_def aof_Write_contents)
qed

lemma log_ok_sync: "log_ok cfg bytes0 a \<Longrightarrow> log_ok cfg bytes0 (bgSync a)"
  by (auto simp: log_ok_def bgSync_def)

lemma log_ok_New: "log_ok cfg bytes0 (NewAOF bytes0 (AOFSyncPolicy cfg))"
  by (auto simp: log_ok_def NewAOF_def aof_ok_def aof_contents_def aof_log_def intro!: exI[of _ "[]"])

lemma log_command_aof: "(case saof s of None \<Rightarrow> True | Some a \<Rightarrow> log_ok cfg bytes0 a) \<Longrightarrow>
    (case saof (log_command n args s) of None \<Rightarrow> True | Some a \<Rightarrow> log_ok cfg bytes0 a)"
  by (auto simp: log_command_def log_ok_Write split: option.splits)

lemma client_db: "server_ok cfg bytes0 s \<Longrightarrow> client_ok cfg c \<Longrightarrow>
    \<exists>d. DB (sdbs s) (dbIndex c) = Some d \<and> wf_db d \<and> d = sdbs s ! nat (dbIndex c) \<and> nat (dbIndex c) < length (sdbs s)"
  by (auto simp: server_ok_def client_ok_def DB_def list_all_length)

lemma server_ok_dbs:
  "server_ok cfg bytes0 s \<Longrightarrow> length dbs = length (sdbs s) \<Longrightarrow> list_all wf_db dbs \<Longrightarrow> server_ok cfg bytes0 (s\<lparr>sdbs := dbs\<rparr>)"
  by (simp add: server_ok_def)

lemma server_ok_log: "server_ok cfg bytes0 s \<Longrightarrow> server_ok cfg bytes0 (log_command n args s)"
  using log_command_aof[where s = s and cfg = cfg and ?bytes0.0 = bytes0 and n = n and args = args] by (simp add: server_ok_def)

lemma list_all_update: "list_all P xs \<Longrightarrow> P x \<Longrightarrow> list_all P (xs[i := x])"
  using set_update_subset_insert[of xs i x] by (auto simp: list_all_iff)

text \<open>Executing a command.\<close>

lemma execute_ok:
  assumes "server_ok cfg bytes0 s" and "client_ok cfg c" and "env_ok e"
  shows "guards (execute cfg e n args c s) (\<lambda>(r, c', s').
    server_ok cfg bytes0 s' \<and> client_ok cfg c' \<and> sclients s' = sclients s \<and> sbusy s' = sbusy s \<and> inMulti c' = inMulti c \<and> queue c' = queue c)"
proof -
  obtain d where d: "DB (sdbs s) (dbIndex c) = Some d" "wf_db d" using client_db[OF assms(1,2)] by blast
  have flush: "list_all wf_db (map db_Flush (sdbs s))"
    using assms(1) by (auto simp: server_ok_def list_all_iff db_Flush_wf)
  have run: "guards (h e (map Str args) d) (\<lambda>(r, d'). server_ok cfg bytes0 (log_command n args (s\<lparr>sdbs := (sdbs s)[nat (dbIndex c) := d']\<rparr>)))"
    if "Registry_Get n = Some h" for h
  proof (rule guards_mono)
    show "guards (h e (map Str args) d) (\<lambda>p. wf_db (snd p))"
      using registered_keeps[OF that] assms(3) d(2) by (simp add: keeps_def)
    show "wf_db (snd p) \<Longrightarrow> case p of (r, d') \<Rightarrow> server_ok cfg bytes0 (log_command n args (s\<lparr>sdbs := (sdbs s)[nat (dbIndex c) := d']\<rparr>))" for p
      using assms(1) by (simp add: split_beta, intro server_ok_log server_ok_dbs)
        (simp_all add: server_ok_def list_all_update)
  qed
  have sel: "client_ok cfg (c\<lparr>dbIndex := idx\<rparr>)" if "\<not> idx < 0" "\<not> Databases cfg \<le> idx" for idx
    using assms(2) that by (simp add: client_ok_def)
  show ?thesis
    using assms(1,2) d(1) flush sel
    by (auto simp: execute_def split_beta intro!: guards_mono[OF run] server_ok_dbs split: option.split)
qed

lemma exec_queue_ok:
  "server_ok cfg bytes0 s \<Longrightarrow> client_ok cfg c \<Longrightarrow> \<forall>i. env_ok (es i) \<Longrightarrow>
    guards (exec_queue cfg es i entries c s) (\<lambda>(c', s'). server_ok cfg bytes0 s' \<and> client_ok cfg c' \<and> sclients s' = sclients s \<and> sbusy s' = sbusy s)"
proof (induction cfg es i entries c s rule: exec_queue.induct)
  case (2 cfg es i name args entries c s)
  show ?case
    unfolding exec_queue.simps guards_simps
  proof (rule guards_mono[OF execute_ok[OF "2.prems"(1,2)]])
    show "env_ok (es i)" using "2.prems"(3) by blast
    fix p :: "resp_value \<times> client \<times> server" assume p: "case p of (r, c', s') \<Rightarrow> server_ok cfg bytes0 s' \<and> client_ok cfg c' \<and> sclients s' = sclients s \<and> sbusy s' = sbusy s \<and> inMulti c' = inMulti c \<and> queue c' = queue c"
    obtain r c' s' where e: "p = (r, c', s')" by (cases p) auto
    have "guards (exec_queue cfg es (Suc i) entries (send (fst (WriteValue r)) c') s')
      (\<lambda>(c'', s''). server_ok cfg bytes0 s'' \<and> client_ok cfg c'' \<and> sclients s'' = sclients s' \<and> sbusy s'' = sbusy s')"
      using p e "2.prems"(3) by (intro "2.IH") simp_all
    with p e show "guards (case p of (r, c, s) \<Rightarrow> exec_queue cfg es (Suc i) entries (send (fst (WriteValue r)) c) s)
      (\<lambda>(c', s'). server_ok cfg bytes0 s' \<and> client_ok cfg c' \<and> sclients s' = sclients s \<and> sbusy s' = sbusy s)" by simp
  qed
qed simp

lemma client_ok_simps [simp]:
  "client_ok cfg (StartMulti c) = (0 \<le> dbIndex c \<and> dbIndex c < Databases cfg)"
  "client_ok cfg (DiscardMulti c) = (0 \<le> dbIndex c \<and> dbIndex c < Databases cfg)"
  "client_ok cfg (c\<lparr>reader := x\<rparr>) = client_ok cfg c"
  "client_ok cfg (c\<lparr>hungup := y\<rparr>) = client_ok cfg c"
  "client_ok cfg (c\<lparr>queue := [], inMulti := b\<rparr>) = (0 \<le> dbIndex c \<and> dbIndex c < Databases cfg)"
  by (simp_all add: client_ok_def StartMulti_def DiscardMulti_def)

lemma execTransaction_ok:
  assumes "server_ok cfg bytes0 s" and "client_ok cfg c" and "\<forall>i. env_ok (es i)"
  shows "guards (execTransaction cfg es c s) (\<lambda>(x, c', s'). server_ok cfg bytes0 s' \<and> client_ok cfg c' \<and> sclients s' = sclients s \<and> sbusy s' = sbusy s)"
proof -
  have "client_ok cfg (send (WriteArrayLen (int (length (queue c)))) (c\<lparr>queue := [], inMulti := False\<rparr>))"
    using assms(2) by (simp add: client_ok_def)
  from exec_queue_ok[OF assms(1) this assms(3), of 0 "queue c"] show ?thesis
    by (auto simp: execTransaction_def FlushQueue_def split_beta elim!: guards_mono)
qed

lemma dispatch_ok:
  assumes "server_ok cfg bytes0 s" and "client_ok cfg c" and "\<forall>i. env_ok (es i)"
  shows "guards (dispatch cfg es n args c s) (\<lambda>(x, c', s'). server_ok cfg bytes0 s' \<and> client_ok cfg c' \<and> sclients s' = sclients s \<and> sbusy s' = sbusy s)"
proof -
  have i: "0 \<le> dbIndex c" "dbIndex c < Databases cfg" using assms(2) by (simp_all add: client_ok_def)
  have q: "client_ok cfg (Enqueue n args c)" if "inMulti c" using i that by (simp add: client_ok_def Enqueue_def)
  have ex: "guards (go_bind (execute cfg (es 0) n args c s) (\<lambda>(r, c, s). case WriteValue r of (out, good) \<Rightarrow>
      Ret (if good then (False, send out c, s) else (True, c, s))))
    (\<lambda>(x, c', s'). server_ok cfg bytes0 s' \<and> client_ok cfg c' \<and> sclients s' = sclients s \<and> sbusy s' = sbusy s)"
    unfolding guards_simps
    by (rule guards_mono[OF execute_ok[OF assms(1,2) spec[OF assms(3), of 0]]]) (auto split: prod.splits)
  show ?thesis
    using assms(1,2) i q ex execTransaction_ok[OF assms] unfolding dispatch_def by simp
qed

lemma server_ok_busy: "server_ok cfg bytes0 s \<Longrightarrow> server_ok cfg bytes0 (s\<lparr>sbusy := None\<rparr>)"
  by (simp add: server_ok_def)

lemma handleClient_ok:
  assumes "server_ok cfg bytes0 s" and "client_ok cfg c" and "\<forall>i. env_ok (es i)" and "map_of (sclients s) fd \<noteq> None"
  shows "guards (handleClient cfg es fd c s) (\<lambda>(x, c', s'). server_ok cfg bytes0 s' \<and> client_ok cfg c'
    \<and> sclients s' = sclients s \<and> sbusy s' \<in> {None, Some fd} \<and> (x \<longrightarrow> sbusy s' = None))"
proof (cases "ReadValue (reader c)")
  case (Panic m)
  with ReadValue_panic[OF Panic] show ?thesis by (simp add: handleClient_def makeslice_panic_def conversion_panic_def)
next
  case (Ret r)
  note s = server_ok_busy[OF assms(1)]
  show ?thesis
  proof (cases r)
    case (Inl err)
    have "server_ok cfg bytes0 (s\<lparr>sbusy := Some fd\<rparr>)" using assms(1,4) by (simp add: server_ok_def)
    with Ret Inl s assms(2) show ?thesis by (simp add: handleClient_def Let_def)
  next
    case (Inr p)
    obtain v rest where p: "p = (v, rest)" by fastforce
    have c: "client_ok cfg (c\<lparr>reader := rest\<rparr>)" using assms(2) by simp
    show ?thesis
    proof (cases "ToCommand v")
      case (Inl err)
      with Ret \<open>r = Inr p\<close> p s c show ?thesis by (simp add: handleClient_def)
    next
      case (Inr q)
      obtain n args where q: "q = (n, args)" by fastforce
      from dispatch_ok[OF s c assms(3), of "ToUpper n" args] Ret \<open>r = Inr p\<close> p Inr q show ?thesis
        by (auto simp: handleClient_def elim!: guards_mono)
    qed
  qed
qed

lemma server_ok_clients:
  assumes "server_ok cfg bytes0 s"
  shows "client_ok cfg c \<Longrightarrow> sclients s = cl \<Longrightarrow> server_ok cfg bytes0 (s\<lparr>sclients := AList.update fd c cl\<rparr>)"
    and "sclients s = cl \<Longrightarrow> sbusy s = None \<Longrightarrow> server_ok cfg bytes0 (s\<lparr>sclients := AList.delete fd cl\<rparr>)"
  using assms by (auto simp: server_ok_def split: if_splits)

lemma server_step_ok:
  assumes "server_ok cfg bytes0 s" and "0 < Databases cfg" and "event_ok ev"
  shows "guards (server_step cfg ev s) (server_ok cfg bytes0)"
proof -
  have known: "client_ok cfg c" if "map_of (sclients s) fd = Some c" for fd c using assms(1) that by (simp add: server_ok_def)
  show ?thesis
  proof (cases ev)
    case (Accept fd)
    have "client_ok cfg NewClient" using assms(2) by (simp add: client_ok_def NewClient_def)
    with Accept assms(1) show ?thesis by (simp add: server_ok_clients)
  next
    case (Receive fd bytes)
    show ?thesis
    proof (cases "map_of (sclients s) fd")
      case (Some c)
      with Receive assms(1) known[OF Some] show ?thesis by (simp add: server_ok_clients)
    qed (use Receive assms in simp)
  next
    case (Hangup fd)
    show ?thesis
    proof (cases "map_of (sclients s) fd")
      case (Some c)
      with Hangup assms(1) known[OF Some] show ?thesis by (simp add: server_ok_clients)
    qed (use Hangup assms in simp)
  next
    case (Ready fd es)
    show ?thesis
    proof (cases "map_of (sclients s) fd")
      case (Some c)
      from handleClient_ok[OF assms(1) known[OF Some], of es fd] assms Ready Some show ?thesis
        by (auto simp: server_ok_clients elim!: guards_mono)
    qed (use Ready assms in simp)
  next
    case Tick
    with assms(1) show ?thesis
      by (auto simp: server_ok_def log_ok_sync split: option.split)
  qed
qed

text \<open>What the replay leaves.\<close>

lemma list_all_replicate: "P x \<Longrightarrow> list_all P (replicate n x)"
  by (simp add: list_all_length)

lemma Replay_guards:
  assumes "\<And>cmd args st. I st \<Longrightarrow> guards (h cmd args st) (\<lambda>(failed, st'). I st')"
  shows "I st \<Longrightarrow> guards (Replay h bytes st) (\<lambda>(failed, st'). I st')"
proof (induction "length bytes" arbitrary: bytes st rule: less_induct)
  case less
  show ?case
  proof (cases "ReadValue bytes")
    case (Panic m)
    with ReadValue_panic[OF Panic] show ?thesis
      by (subst Replay.simps) (simp add: makeslice_panic_def conversion_panic_def)
  next
    case (Ret x)
    show ?thesis
    proof (cases x)
      case (Inl err)
      with Ret less.prems show ?thesis by (simp add: Replay_stop)
    next
      case (Inr p)
      obtain v rest where p: "p = (v, rest)" by fastforce
      then have "length rest < length bytes" using Ret Inr ReadValue_consumes[of bytes] by (simp add: consumes_def)
      note IH = less.hyps[OF this]
      show ?thesis
      proof (cases "ToCommand v")
        case (Inl err)
        then show ?thesis using IH[OF less.prems] Ret Inr p by (subst Replay.simps) simp
      next
        case (Inr q)
        obtain cmd args where q: "q = (cmd, args)" by fastforce
        note h = assms[OF less.prems, of "ToUpper cmd" "map Str args"]
        show ?thesis
        proof (cases "h (ToUpper cmd) (map Str args) st")
          case (Panic m)
          then show ?thesis using h Ret \<open>x = Inr p\<close> p Inr q by (subst Replay.simps) simp
        next
          case h': (Ret y)
          obtain failed st' where y: "y = (failed, st')" by fastforce
          then have "I st'" using h h' by simp
          then show ?thesis using h' y IH[of st'] Ret \<open>x = Inr p\<close> p Inr q by (subst Replay.simps) simp
        qed
      qed
    qed
  qed
qed

lemma replay_command_ok:
  assumes "\<forall>i. env_ok (es i)"
  shows "(case st of (i, od) \<Rightarrow> \<exists>d. od = Some d \<and> wf_db d) \<Longrightarrow>
    guards (replay_command es cmd args st) (\<lambda>(failed, st'). case st' of (i, od) \<Rightarrow> \<exists>d. od = Some d \<and> wf_db d)"
proof -
  assume "case st of (i, od) \<Rightarrow> \<exists>d. od = Some d \<and> wf_db d"
  then obtain i d where st: "st = (i, Some d)" "wf_db d" by (cases st) auto
  show ?thesis
  proof (cases "Registry_Get cmd")
    case (Some h)
    have "guards (h (es i) args d) (\<lambda>p. wf_db (snd p))"
      using registered_keeps[OF Some] assms st(2) by (simp add: keeps_def)
    with Some st show ?thesis by (auto simp: replay_command_def split_beta elim!: guards_mono)
  qed (use st in \<open>simp add: replay_command_def\<close>)
qed

lemma Server_New_ok:
  assumes "0 < Databases cfg" and "\<forall>i. env_ok (es i)"
  shows "guards (Server_New cfg es bytes0) (server_ok cfg bytes0)"
proof -
  let ?dbs = "replicate (nat (Databases cfg)) newDB"
  have d: "DB ?dbs 0 = Some newDB" "?dbs \<noteq> []" using assms(1) by (simp_all add: DB_def)
  have start: "server_ok cfg bytes0 \<lparr>sdbs = dbs, saof = None, sclients = [], sbusy = None\<rparr>"
    "server_ok cfg bytes0 \<lparr>sdbs = dbs, saof = Some (NewAOF bytes0 (AOFSyncPolicy cfg)), sclients = [], sbusy = None\<rparr>"
    if "length dbs = nat (Databases cfg)" "list_all wf_db dbs" for dbs
    using that by (simp_all add: server_ok_def log_ok_New)
  have "guards (Replay (replay_command es) bytes0 (0, Some newDB)) (\<lambda>(failed, st'). case st' of (i, od) \<Rightarrow> \<exists>d. od = Some d \<and> wf_db d)"
    by (rule Replay_guards[OF replay_command_ok[OF assms(2)]]) simp_all
  then have "guards (replayAOF es bytes0 ?dbs) (\<lambda>dbs. length dbs = nat (Databases cfg) \<and> list_all wf_db dbs)"
    unfolding replayAOF_def guards_simps d(1)
    by (rule guards_mono) (auto intro!: list_all_update simp: list_all_replicate)
  then show ?thesis
    unfolding Server_New_def New_def guards_simps
    by (intro make_slice_guards) (auto intro!: start elim!: guards_mono simp: list_all_iff)
qed

text \<open>Every reachable state is sound, and no step from it fails a type assertion.\<close>

lemma reachable_ok: "reachable cfg bytes0 s \<Longrightarrow> 0 < Databases cfg \<Longrightarrow> server_ok cfg bytes0 s"
proof (induction rule: reachable.induct)
  case (start es s)
  with Server_New_ok[of cfg es bytes0] show ?case by simp
next
  case (step s ev s')
  with server_step_ok[of cfg bytes0 s ev] show ?case by simp
qed

section \<open>Transactions\<close>

text \<open>The commands of a transaction, executed one after the other, with their replies.\<close>

fun run_all :: "config \<Rightarrow> (nat \<Rightarrow> env) \<Rightarrow> nat \<Rightarrow> (string \<times> resp_value list) list \<Rightarrow> client \<Rightarrow> server
    \<Rightarrow> (resp_value list \<times> client \<times> server) go" where
  "run_all cfg es i [] c s = Ret ([], c, s)"
| "run_all cfg es i ((name, args) # entries) c s =
     go_bind (execute cfg (es i) name args c s) (\<lambda>(r, c, s).
       go_bind (run_all cfg es (Suc i) entries c s) (\<lambda>(rs, c, s). Ret (r # rs, c, s)))"

lemma execute_send:
  "execute cfg e n args (send x c) s = go_bind (execute cfg e n args c s) (\<lambda>(r, c, s). Ret (r, send x c, s))"
  by (simp add: execute_def send_def go_bind_assoc case_prod_beta' split: option.split)

lemma send_send [simp]: "send y (send x c) = send (x @ y) c"
  by (simp add: send_def)

lemma exec_queue_run:
  "exec_queue cfg es i entries (send x c) s =
    go_bind (run_all cfg es i entries c s) (\<lambda>(rs, c, s). Ret (send (x @ concat (map (\<lambda>r. fst (WriteValue r)) rs)) c, s))"
proof (induction entries arbitrary: i x c s)
  case (Cons entry entries)
  obtain n args where e: "entry = (n, args)" by fastforce
  show ?case
  proof (cases "execute cfg (es i) n args c s")
    case (Ret p)
    obtain r c' s' where p: "p = (r, c', s')" by (cases p) auto
    show ?thesis
      using Cons.IH[of "Suc i" "x @ fst (WriteValue r)" c' s'] Ret p
      by (cases "run_all cfg es (Suc i) entries c' s'") (auto simp: e execute_send)
  qed (simp add: e execute_send)
qed (simp add: send_def)

text \<open>Inside a transaction commands are queued and nothing else happens.\<close>

lemma multi_queues:
  "inMulti c \<Longrightarrow> n \<notin> {''MULTI'', ''DISCARD'', ''EXEC'', ''QUIT''} \<Longrightarrow>
    dispatch cfg es n args c s = Ret (False, send (WriteSimpleString ''QUEUED'') (Enqueue n args c), s)"
  by (simp add: dispatch_def)

text \<open>\<open>EXEC\<close> runs the queue in order, in one step, and replies with all the replies.\<close>

lemma exec_runs:
  "inMulti c \<Longrightarrow> dispatch cfg es ''EXEC'' args c s =
    go_bind (run_all cfg es 0 (queue c) (c\<lparr>queue := [], inMulti := False\<rparr>) s) (\<lambda>(rs, c', s').
      Ret (False, send (WriteArrayLen (int (length (queue c))) @ concat (map (\<lambda>r. fst (WriteValue r)) rs)) c', s'))"
  by (simp add: dispatch_def execTransaction_def FlushQueue_def exec_queue_run go_bind_assoc case_prod_beta')

section \<open>Requests and replies\<close>

lemma execute_client:
  "execute cfg e n args c s = Ret (r, c', s') \<Longrightarrow> reader c' = reader c \<and> writer c' = writer c"
  by (auto simp: execute_def go_bind_eq_Ret split: if_splits option.splits)

lemma run_all_client:
  "run_all cfg es i entries c s = Ret (rs, c', s') \<Longrightarrow> reader c' = reader c \<and> writer c' = writer c"
proof (induction cfg es i entries c s arbitrary: rs c' s' rule: run_all.induct)
  case (2 cfg es i name args entries c s)
  from "2.prems" obtain r c1 s1 rs1 where
    e: "execute cfg (es i) name args c s = Ret (r, c1, s1)" and q: "run_all cfg es (Suc i) entries c1 s1 = Ret (rs1, c', s')"
    by (auto simp: go_bind_eq_Ret)
  from execute_client[OF e] "2.IH"[OF q] show ?case by simp
qed simp

lemma write_reply:
  "snd (WriteValue v) \<Longrightarrow> fst (WriteValue v) \<noteq> []" "WriteArrayLen n \<noteq> []" "WriteSimpleString msg \<noteq> []" "WriteError msg \<noteq> []"
  by (cases v; auto simp: WriteNullBulkString_def WriteSimpleString_def WriteError_def WriteInteger_def WriteBulkString_def
      WriteArrayLen_def split_beta split: if_splits)
    (simp_all add: WriteArrayLen_def WriteSimpleString_def WriteError_def)

lemma send_reader [simp]: "writer (send x c) = writer c @ x"
  by (simp add: send_def)

text \<open>The commands that the server handles itself, before it executes any.\<close>

definition session_commands :: "string set" where "session_commands = {''MULTI'', ''DISCARD'', ''EXEC'', ''QUIT''}"

text \<open>The reply of this command cannot be written.\<close>

definition unwritable :: "config \<Rightarrow> env \<Rightarrow> string \<Rightarrow> resp_value list \<Rightarrow> client \<Rightarrow> server \<Rightarrow> bool" where
  "unwritable cfg e n args c s \<longleftrightarrow> \<not> inMulti c \<and> n \<notin> session_commands \<and>
     (case execute cfg e n args c s of Ret (r, c', s') \<Rightarrow> \<not> snd (WriteValue r) | Panic m \<Rightarrow> False)"

lemma dispatch_execute:
  "\<not> inMulti c \<Longrightarrow> n \<notin> session_commands \<Longrightarrow> dispatch cfg es n args c s =
    go_bind (execute cfg (es 0) n args c s) (\<lambda>(r, c, s).
      Ret (if snd (WriteValue r) then (False, send (fst (WriteValue r)) c, s) else (True, c, s)))"
  by (simp add: dispatch_def session_commands_def split_beta)

text \<open>Every command is answered; the connection is closed by \<open>QUIT\<close> and, outside a
  transaction, when the reply cannot be written.\<close>

lemma dispatch_reply:
  assumes "dispatch cfg es n args c s = Ret (x, c', s')"
  shows "reader c' = reader c \<and> (x \<longrightarrow> n = ''QUIT'' \<or> unwritable cfg (es 0) n args c s)
    \<and> (\<not> x \<longrightarrow> (\<exists>reply. reply \<noteq> [] \<and> writer c' = writer c @ reply))"
proof (cases "\<not> inMulti c \<and> n \<notin> session_commands")
  case True
  with assms obtain r c1 s1 where r: "execute cfg (es 0) n args c s = Ret (r, c1, s1)"
    and c': "(x, c', s') = (if snd (WriteValue r) then (False, send (fst (WriteValue r)) c1, s1) else (True, c1, s1))"
    by (auto simp: dispatch_execute go_bind_eq_Ret)
  from c' execute_client[OF r] write_reply(1)[of r] r True show ?thesis
    by (cases "snd (WriteValue r)") (simp_all add: unwritable_def)
next
  case other: False
  show ?thesis
  proof (cases "n = ''EXEC'' \<and> inMulti c")
    case True
    with assms obtain rs c1 s1 where
      r: "run_all cfg es 0 (queue c) (c\<lparr>queue := [], inMulti := False\<rparr>) s = Ret (rs, c1, s1)"
      and c': "\<not> x" "c' = send (WriteArrayLen (int (length (queue c))) @ concat (map (\<lambda>r. fst (WriteValue r)) rs)) c1"
      by (auto simp: exec_runs go_bind_eq_Ret)
    from run_all_client[OF r] c' write_reply(2) show ?thesis by auto
  next
    case False
    then show ?thesis
      using assms write_reply other
      by (auto simp: dispatch_def session_commands_def StartMulti_def DiscardMulti_def Enqueue_def split: if_splits)
  qed
qed

text \<open>One ready descriptor: its client's next value is taken from the stream and answered.\<close>

lemma handleClient_command:
  assumes "ReadValue (reader c) = Ret (Inr (v, rest))" and "ToCommand v = Inr (n, args)"
  shows "handleClient cfg es fd c s = dispatch cfg es (ToUpper n) args (c\<lparr>reader := rest\<rparr>) (s\<lparr>sbusy := None\<rparr>)"
  using assms by (simp add: handleClient_def Let_def)

lemma ready_reply:
  assumes ok: "server_ok cfg bytes0 s" and "\<forall>i. env_ok (es i)" and c: "map_of (sclients s) fd = Some c"
    and free: "sbusy s = None \<or> sbusy s = Some fd"
    and v: "ReadValue (reader c) = Ret (Inr (v, rest))"
  shows "guards (server_step cfg (Ready fd es) s) (\<lambda>s'. sbusy s' = None \<and>
    (\<forall>fd'. fd' \<noteq> fd \<longrightarrow> map_of (sclients s') fd' = map_of (sclients s) fd') \<and>
    (case map_of (sclients s') fd of
       None \<Rightarrow> \<exists>n args. ToCommand v = Inr (n, args) \<and>
         (ToUpper n = ''QUIT'' \<or> unwritable cfg (es 0) (ToUpper n) args (c\<lparr>reader := rest\<rparr>) (s\<lparr>sbusy := None\<rparr>))
     | Some c' \<Rightarrow> reader c' = rest \<and> (\<exists>reply. reply \<noteq> [] \<and> writer c' = writer c @ reply)))"
proof -
  let ?c = "c\<lparr>reader := rest\<rparr>" and ?s = "s\<lparr>sbusy := None\<rparr>"
  have cok: "client_ok cfg c" using ok c by (simp add: server_ok_def)
  have st: "server_step cfg (Ready fd es) s = go_bind (handleClient cfg es fd c s) (\<lambda>(failed, c, s).
      Ret (if failed then removeClient fd s else s\<lparr>sclients := AList.update fd c (sclients s)\<rparr>))"
    using free c by auto
  show ?thesis
  proof (cases "ToCommand v")
    case (Inl err)
    then have "handleClient cfg es fd c s = Ret (False, send (WriteError ''ERR Protocol error'') ?c, ?s)"
      using v by (simp add: handleClient_def Let_def)
    with c write_reply(4) show ?thesis unfolding st by simp
  next
    case (Inr p)
    obtain n args where n: "ToCommand v = Inr (n, args)" using Inr by (cases p) auto
    note h = handleClient_command[OF v n, of cfg es fd s]
    have g: "guards (dispatch cfg es (ToUpper n) args ?c ?s) (\<lambda>(x, c', s'). server_ok cfg bytes0 s' \<and> client_ok cfg c'
        \<and> sclients s' = sclients ?s \<and> sbusy s' = sbusy ?s)"
      by (rule dispatch_ok[OF server_ok_busy[OF ok] _ assms(2)]) (simp add: cok)
    show ?thesis
    proof (cases "dispatch cfg es (ToUpper n) args ?c ?s")
      case (Panic m)
      with g h show ?thesis unfolding st by simp
    next
      case (Ret y)
      obtain x c' s' where y: "y = (x, c', s')" by (cases y) auto
      from g Ret y have s': "sclients s' = sclients s" "sbusy s' = None" by simp_all
      have e: "server_step cfg (Ready fd es) s = Ret (if x then removeClient fd s' else s'\<lparr>sclients := AList.update fd c' (sclients s')\<rparr>)"
        unfolding st h Ret y by simp
      from dispatch_reply[OF Ret[unfolded y]] s' c n show ?thesis unfolding e
        by (cases x) auto
    qed
  qed
qed

text \<open>A command that is executed at once gets exactly its reply.\<close>

lemma ready_execute:
  assumes "map_of (sclients s) fd = Some c" and "sbusy s = None \<or> sbusy s = Some fd"
    and "ReadValue (reader c) = Ret (Inr (v, rest))" and "ToCommand v = Inr (n, args)"
    and "\<not> inMulti c" and "ToUpper n \<notin> session_commands"
  shows "server_step cfg (Ready fd es) s =
    go_bind (execute cfg (es 0) (ToUpper n) args (c\<lparr>reader := rest\<rparr>) (s\<lparr>sbusy := None\<rparr>)) (\<lambda>(r, c', s').
      Ret (if snd (WriteValue r) then s'\<lparr>sclients := AList.update fd (send (fst (WriteValue r)) c') (sclients s')\<rparr>
           else removeClient fd s'))"
proof -
  let ?x = "execute cfg (es 0) (ToUpper n) args (c\<lparr>reader := rest\<rparr>) (s\<lparr>sbusy := None\<rparr>)"
  have "server_step cfg (Ready fd es) s = go_bind (handleClient cfg es fd c s) (\<lambda>(failed, c, s).
      Ret (if failed then removeClient fd s else s\<lparr>sclients := AList.update fd c (sclients s)\<rparr>))"
    using assms(1,2) by auto
  also have "handleClient cfg es fd c s = go_bind ?x (\<lambda>(r, c, s).
      Ret (if snd (WriteValue r) then (False, send (fst (WriteValue r)) c, s) else (True, c, s)))"
    using assms(5,6) by (simp add: handleClient_command[OF assms(3,4)] dispatch_execute)
  finally show ?thesis by (cases ?x) auto
qed

lemma update_same: "map_of xs k = Some v \<Longrightarrow> AList.update k v xs = xs"
  by (induction xs) (auto split: if_splits)

text \<open>A request that has not arrived completely: the thread waits in a body, unless the peer has
  closed; in a line the connection is closed.\<close>

lemma ready_partial:
  assumes "map_of (sclients s) fd = Some c" and "sbusy s = None \<or> sbusy s = Some fd"
    and "wire_ok (request ws)" and "fst (WriteValue (request ws)) = reader c @ missing" and "missing \<noteq> []"
  shows "server_step cfg (Ready fd es) s = Ret (if request_cut ws (reader c) \<and> \<not> hungup c
    then s\<lparr>sbusy := Some fd\<rparr> else removeClient fd (s\<lparr>sbusy := None\<rparr>))"
  using assms(1,2) ReadValue_part[OF assms(3-5)] by (auto simp: handleClient_def Let_def update_same)

text \<open>When the thread waits, the rest of the request is handled as if all of it had come at once.\<close>

lemma ready_resumes:
  assumes "map_of (sclients s) fd = Some c" and "sbusy s = None \<or> sbusy s = Some fd" and "\<not> hungup c"
  shows "go_bind (server_step cfg (Receive fd missing) (s\<lparr>sbusy := Some fd\<rparr>)) (server_step cfg (Ready fd es)) =
    server_step cfg (Ready fd es) (s\<lparr>sclients := AList.update fd (c\<lparr>reader := reader c @ missing\<rparr>) (sclients s)\<rparr>)"
  using assms by (auto simp: handleClient_def Let_def)

section \<open>What reaches the append-only file\<close>

text \<open>A command that is not written changes no database that can be seen.\<close>

lemma unlogged_reads:
  assumes "server_ok cfg bytes0 s" and "client_ok cfg c" and "env_ok e" and "\<not> isWriteCommand (ToUpper n)" and "ToUpper n = n"
  shows "guards (execute cfg e n args c s) (\<lambda>(r, c', s'). c' = c \<and> saof s' = saof s \<and> sclients s' = sclients s
    \<and> length (sdbs s') = length (sdbs s) \<and> (\<forall>i < length (sdbs s). keyspace e (sdbs s' ! i) = keyspace e (sdbs s ! i)))"
proof -
  obtain d where d: "DB (sdbs s) (dbIndex c) = Some d" "wf_db d" "d = sdbs s ! nat (dbIndex c)"
    using client_db[OF assms(1,2)] by blast
  have n: "n \<noteq> ''SELECT''" "n \<noteq> ''FLUSHALL''"
    using assms(4,5) by (auto simp: isWriteCommand_def write_commands_def)
  have w: "\<not> isWriteCommand n" using assms(4,5) by simp
  show ?thesis
  proof (cases "Registry_Get n")
    case (Some h)
    have "guards (h e (map Str args) d) (\<lambda>p. wf_db (snd p) \<and> keyspace e (snd p) = keyspace e d)"
      using registered_logged[OF Some assms(4)] assms(3) d(2) by (simp add: reads_def)
    then have "guards (h e (map Str args) d) (\<lambda>(r, d'). \<forall>i < length (sdbs s).
        keyspace e ((sdbs s)[nat (dbIndex c) := d'] ! i) = keyspace e (sdbs s ! i))"
    proof (rule guards_mono)
      fix p assume p: "wf_db (snd p) \<and> keyspace e (snd p) = keyspace e d"
      have "keyspace e ((sdbs s)[nat (dbIndex c) := snd p] ! i) = keyspace e (sdbs s ! i)" if "i < length (sdbs s)" for i
        using p d(3) that by (cases "i = nat (dbIndex c)") simp_all
      then show "case p of (r, d') \<Rightarrow> \<forall>i < length (sdbs s). keyspace e ((sdbs s)[nat (dbIndex c) := d'] ! i) = keyspace e (sdbs s ! i)"
        by (simp add: split_beta)
    qed
    with Some d(1) n w show ?thesis
      by (auto simp: execute_def log_command_def split: option.split elim!: guards_mono)
  qed (use n in \<open>simp add: execute_def\<close>)
qed

lemma execute_effects:
  assumes "server_ok cfg bytes0 s" and "client_ok cfg c" and "env_ok e" and "ToUpper n = n" and "n \<noteq> ''FLUSHALL''"
  shows "guards (execute cfg e n args c s) (\<lambda>(r, c', s').
    (\<forall>i < length (sdbs s). i \<noteq> nat (dbIndex c) \<longrightarrow> sdbs s' ! i = sdbs s ! i) \<and>
    (if isWriteCommand n \<and> Registry_Get n \<noteq> None \<and> n \<noteq> ''SELECT''
     then saof s' = map_option (aof_Write (n # map Str args)) (saof s)
     else saof s' = saof s \<and> (\<forall>i < length (sdbs s). keyspace e (sdbs s' ! i) = keyspace e (sdbs s ! i))))"
proof -
  obtain d where d: "DB (sdbs s) (dbIndex c) = Some d" "wf_db d" using client_db[OF assms(1,2)] by blast
  have run: "guards (h e (map Str args) d) (\<lambda>p. wf_db (snd p))" if "Registry_Get n = Some h" for h
    using registered_keeps[OF that] assms(3) d(2) by (simp add: keeps_def)
  have other: "guards (execute cfg e n args c s) (\<lambda>(r, c', s'). \<forall>i < length (sdbs s). i \<noteq> nat (dbIndex c) \<longrightarrow> sdbs s' ! i = sdbs s ! i)"
    using d(1) assms(5) by (auto simp: execute_def split_beta intro!: guards_mono[OF run] split: option.split)
  have logged: "guards (execute cfg e n args c s) (\<lambda>(r, c', s'). if Registry_Get n \<noteq> None \<and> n \<noteq> ''SELECT''
      then saof s' = map_option (aof_Write (n # map Str args)) (saof s)
      else s' = s)" if "isWriteCommand n"
    using d(1) assms(5) that
    by (auto simp: execute_def log_command_def split_beta intro!: guards_mono[OF run] split: option.split)
  show ?thesis
  proof (cases "isWriteCommand n")
    case True
    with other logged show ?thesis by (auto simp: guards_def split: go.splits if_splits)
  next
    case False
    with unlogged_reads[OF assms(1,2,3), of n args] assms(4) other show ?thesis
      by (auto simp: guards_def split: go.splits)
  qed
qed

text \<open>\<open>SELECT\<close> moves the client, \<open>FLUSHALL\<close> empties every database; neither is written.\<close>

lemma execute_SELECT:
  "execute cfg e ''SELECT'' [arg] c s =
    Ret (case parsed (Atoi (Str arg)) of
        None \<Rightarrow> (error_value ''ERR DB index is out of range'', c, s)
      | Some i \<Rightarrow> if 0 \<le> i \<and> i < Databases cfg then (simple_value ''OK'', c\<lparr>dbIndex := i\<rparr>, s)
                 else (error_value ''ERR DB index is out of range'', c, s))"
  by (simp add: execute_def split: option.split)

lemma execute_FLUSHALL:
  "\<exists>s'. execute cfg e ''FLUSHALL'' args c s = Ret (simple_value ''OK'', c, s') \<and> saof s' = saof s
    \<and> length (sdbs s') = length (sdbs s) \<and> (\<forall>i < length (sdbs s). keyspace e (sdbs s' ! i) = Map.empty)"
  by (simp add: execute_def db_Flush_keyspace)

end
