(* ===== verification/Event_Loop.thy ===== *)
theory Event_Loop
  imports Server_Correct
begin

text \<open>
  The connection (server/rawconn.go), the result of a wait (server/epoll.go) and the event
  loop (server/server.go). The system calls are parameters: a call takes the state of the
  kernel and gives its results with the next state. \<open>EWOULDBLOCK\<close> is the same number as \<open>EAGAIN\<close>.
  The buffered reader between the connection and the parser is that of \<open>bufio\<close>: a line or a single
  byte is read with \<open>fill\<close>, which gives up after 100 empty reads; the body of a bulk string with
  \<open>io.ReadFull\<close>, which goes on until it has all bytes or an error.
\<close>

section \<open>Reading\<close>

datatype errno = EAGAIN | EINTR | Errno nat

datatype conn_error = Sys errno | ConnClosed | NoProgress

text \<open>\<open>unix.Read\<close>: a count (\<open>-1\<close> for an error), what is in the buffer, the error.\<close>

type_synonym 'k sys_read = "'k \<Rightarrow> (int \<times> string \<times> errno option) \<times> 'k"

definition rawConn_Read :: "'k sys_read \<Rightarrow> 'k \<Rightarrow> string \<times> conn_error option \<times> 'k" where
  "rawConn_Read sys k =
     (case sys k of ((n, p, err), k) \<Rightarrow>
        let n = (if n < 0 then 0 else n) in
        if err = Some EAGAIN then ([], None, k)
        else (case err of
            Some e \<Rightarrow> ([], Some (Sys e), k)
          | None \<Rightarrow> if n = 0 then ([], Some ConnClosed, k) else (take (nat n) p, None, k)))"

fun fill :: "'k sys_read \<Rightarrow> nat \<Rightarrow> 'k \<Rightarrow> string \<times> conn_error option \<times> 'k" where
  "fill sys 0 k = ([], Some NoProgress, k)"
| "fill sys (Suc i) k =
     (case rawConn_Read sys k of (bytes, err, k) \<Rightarrow>
        if err \<noteq> None \<or> bytes \<noteq> [] then (bytes, err, k) else fill sys i k)"

definition maxConsecutiveEmptyReads :: nat where "maxConsecutiveEmptyReads = 100"

text \<open>
  \<open>Read\<close> of the buffered reader, with the bytes \<open>buf\<close> in its buffer: what is buffered, or else one
  read of the connection. \<open>ReadFull\<close> repeats it until it has \<open>n\<close> bytes; the loop may not end.
\<close>

definition bufio_Read :: "'k sys_read \<Rightarrow> nat \<Rightarrow> string \<Rightarrow> 'k \<Rightarrow> string \<times> conn_error option \<times> string \<times> 'k" where
  "bufio_Read sys n buf k =
     (if buf \<noteq> [] then (take n buf, None, drop n buf, k)
      else case rawConn_Read sys k of (bytes, err, k) \<Rightarrow> (take n bytes, err, drop n bytes, k))"

partial_function (option) ReadFull :: "'k sys_read \<Rightarrow> nat \<Rightarrow> string \<Rightarrow> string \<Rightarrow> 'k
    \<Rightarrow> (string \<times> conn_error option \<times> string \<times> 'k) option" where
  "ReadFull sys n got buf k =
     (if length got < n then
        (case bufio_Read sys (n - length got) buf k of (bytes, err, buf, k) \<Rightarrow>
           if err = None then ReadFull sys n (got @ bytes) buf k else Some (got @ bytes, err, buf, k))
      else Some (got, None, buf, k))"

section \<open>Writing\<close>

text \<open>\<open>unix.Write\<close> takes a part of the bytes. The loop may not end.\<close>

type_synonym 'k sys_write = "string \<Rightarrow> 'k \<Rightarrow> (int \<times> errno option) \<times> 'k"

partial_function (option) write_loop :: "'k sys_write \<Rightarrow> string \<Rightarrow> int \<Rightarrow> 'k \<Rightarrow> (int \<times> conn_error option \<times> 'k) option" where
  "write_loop sys p sent k =
     (if sent < int (length p) then
        (case sys (drop (nat sent) p) k of ((n, err), k) \<Rightarrow>
           let sent = (if 0 < n then sent + n else sent) in
           (case err of
              None \<Rightarrow> write_loop sys p sent k
            | Some e \<Rightarrow> if e = EAGAIN then write_loop sys p sent k else Some (sent, Some (Sys e), k)))
      else Some (sent, None, k))"

definition rawConn_Write :: "'k sys_write \<Rightarrow> string \<Rightarrow> 'k \<Rightarrow> (int \<times> conn_error option \<times> 'k) option" where
  "rawConn_Write sys p k = write_loop sys p 0 k"

section \<open>Waiting and accepting\<close>

text \<open>The descriptors \<open>EpollWait\<close> reports; an interrupted wait reports none.\<close>

definition EPoll_Wait :: "errno + nat list \<Rightarrow> errno + nat list" where
  "EPoll_Wait r = (case r of Inl e \<Rightarrow> if e = EINTR then Inr [] else Inl e | Inr fds \<Rightarrow> Inr fds)"

text \<open>What \<open>Accept4\<close> returns, call by call, with the error of the registration with epoll.\<close>

fun acceptConn :: "(errno + nat \<times> errno option) list \<Rightarrow> server \<Rightarrow> server" where
  "acceptConn [] s = s"
| "acceptConn (Inl err # conns) s = s"
| "acceptConn (Inr (fd, err) # conns) s =
     (if err \<noteq> None then acceptConn conns s else acceptConn conns (addClient fd s))"

section \<open>The loop\<close>

text \<open>
  What the world does between and during the waits: bytes arrive, a peer closes, the background
  goroutine flushes the file, a wait returns. For every reported descriptor the answers of the
  listening socket and the environments of the commands are given, and what comes on the connection
  (\<open>None\<close>: the peer closes) while the thread waits there for the rest of a body.
\<close>

datatype input =
    Arrives nat string
  | Closes nat
  | Syncs
  | Waited "errno + nat list" "nat \<Rightarrow> (errno + nat \<times> errno option) list" "nat \<Rightarrow> string option list" "nat \<Rightarrow> nat \<Rightarrow> env"

definition arrival :: "nat \<Rightarrow> string option \<Rightarrow> event" where
  "arrival fd x = (case x of Some bytes \<Rightarrow> Receive fd bytes | None \<Rightarrow> Hangup fd)"

text \<open>The thread inside \<open>ReadFull\<close>: as long as it waits, it looks again after every arrival.\<close>

fun spin :: "config \<Rightarrow> nat \<Rightarrow> (nat \<Rightarrow> env) \<Rightarrow> string option list \<Rightarrow> server \<Rightarrow> server go" where
  "spin cfg fd es [] s = Ret s"
| "spin cfg fd es (x # late) s =
     (if sbusy s \<noteq> Some fd then Ret s
      else go_bind (server_step cfg (arrival fd x) s) (\<lambda>s.
        go_bind (server_step cfg (Ready fd es) s) (spin cfg fd es late)))"

text \<open>When the rest of a body does not come, the loop stays there: it gets to no other descriptor and
  to no other wait.\<close>

fun handle_fds :: "config \<Rightarrow> nat \<Rightarrow> (nat \<Rightarrow> (errno + nat \<times> errno option) list) \<Rightarrow> (nat \<Rightarrow> string option list)
    \<Rightarrow> (nat \<Rightarrow> nat \<Rightarrow> env) \<Rightarrow> nat \<Rightarrow> nat list \<Rightarrow> server \<Rightarrow> server go" where
  "handle_fds cfg serverFd conns late es i [] s = Ret s"
| "handle_fds cfg serverFd conns late es i (fd # fds) s =
     (if sbusy s \<noteq> None then Ret s
      else go_bind (if fd = serverFd then Ret (acceptConn (conns i) s)
                    else go_bind (server_step cfg (Ready fd (es i)) s) (spin cfg fd (es i) (late i)))
        (handle_fds cfg serverFd conns late es (Suc i) fds))"

fun eventLoop :: "config \<Rightarrow> nat \<Rightarrow> input list \<Rightarrow> server \<Rightarrow> server go" where
  "eventLoop cfg serverFd [] s = Ret s"
| "eventLoop cfg serverFd (Arrives fd bytes # ins) s =
     go_bind (server_step cfg (Receive fd bytes) s) (eventLoop cfg serverFd ins)"
| "eventLoop cfg serverFd (Closes fd # ins) s = go_bind (server_step cfg (Hangup fd) s) (eventLoop cfg serverFd ins)"
| "eventLoop cfg serverFd (Syncs # ins) s = go_bind (server_step cfg Tick s) (eventLoop cfg serverFd ins)"
| "eventLoop cfg serverFd (Waited r conns late es # ins) s =
     (case EPoll_Wait r of
        Inl err \<Rightarrow> Ret s
      | Inr fds \<Rightarrow> go_bind (handle_fds cfg serverFd conns late es 0 fds s) (\<lambda>s.
          if sbusy s \<noteq> None then Ret s else eventLoop cfg serverFd ins s))"

fun input_ok :: "input \<Rightarrow> bool" where
  "input_ok (Waited r conns late es) = (\<forall>i j. env_ok (es i j))"
| "input_ok inp = True"

section \<open>What a read gives\<close>

text \<open>
  A read call of a socket that does not block: the bytes that have arrived, or a part of them; \<open>EAGAIN\<close>
  when there are none; 0 when the peer has closed.
\<close>

definition reads_socket :: "'k sys_read \<Rightarrow> ('k \<Rightarrow> string) \<Rightarrow> ('k \<Rightarrow> bool) \<Rightarrow> bool" where
  "reads_socket sys pending ended \<longleftrightarrow> (\<forall>k. case sys k of ((n, p, err), k') \<Rightarrow>
     ended k' = ended k \<and>
     (if pending k \<noteq> [] then err = None \<and> 0 < n \<and> n \<le> int (length p) \<and> pending k = take (nat n) p @ pending k'
      else pending k' = [] \<and> (if ended k then n = 0 \<and> err = None else n = - 1 \<and> err = Some EAGAIN)))"

lemma rawConn_Read_socket:
  assumes "reads_socket sys pending ended" and "rawConn_Read sys k = (bytes, err, k')"
  shows "ended k' = ended k \<and> pending k = bytes @ pending k' \<and>
    (if pending k \<noteq> [] then bytes \<noteq> [] \<and> err = None
     else err = (if ended k then Some ConnClosed else None))"
proof -
  obtain n p e k'' where s: "sys k = ((n, p, e), k'')" by (cases "sys k") auto
  note * = assms(1)[unfolded reads_socket_def, THEN spec, of k, unfolded s prod.case]
  note r = assms(2)[unfolded rawConn_Read_def s prod.case Let_def]
  show ?thesis
  proof (cases "pending k = []")
    case True
    with * r show ?thesis by (cases "ended k") simp_all
  next
    case False
    with * have e: "e = None" "0 < n" "n \<le> int (length p)" "pending k = take (nat n) p @ pending k''" "ended k'' = ended k"
      by simp_all
    with r have b: "bytes = take (nat n) p" "err = None" "k' = k''" by simp_all
    have "take (nat n) p \<noteq> []" using e(2,3) by auto
    with False e b show ?thesis by simp
  qed
qed

text \<open>One turn of the loop that fills the buffer, and the last one.\<close>

lemma fill_turn:
  assumes "reads_socket sys pending ended" and "rawConn_Read sys k = (b, e, k1)"
  shows "e \<noteq> None \<or> b \<noteq> [] \<Longrightarrow> (if pending k \<noteq> [] then b \<noteq> [] \<and> e = None else e = Some (if ended k then ConnClosed else NoProgress))"
    and "\<not> (e \<noteq> None \<or> b \<noteq> []) \<Longrightarrow> pending k = [] \<and> \<not> ended k \<and> pending k1 = [] \<and> \<not> ended k1"
  using rawConn_Read_socket[OF assms] by (metis append_is_Nil_conv option.distinct(1))+

lemma fill_socket:
  assumes "reads_socket sys pending ended"
  shows "fill sys (Suc i) k = (bytes, err, k') \<Longrightarrow>
    ended k' = ended k \<and> pending k = bytes @ pending k' \<and>
    (if pending k \<noteq> [] then bytes \<noteq> [] \<and> err = None
     else err = Some (if ended k then ConnClosed else NoProgress))"
proof (induction i arbitrary: k)
  case (0 k)
  obtain b e k1 where r: "rawConn_Read sys k = (b, e, k1)" by (cases "rawConn_Read sys k") auto
  from 0 r have f: "(if e \<noteq> None \<or> b \<noteq> [] then (b, e, k1) else ([], Some NoProgress, k1)) = (bytes, err, k')"
    by (simp only: fill.simps(2)[of _ 0] fill.simps(1) prod.case)
  show ?case
  proof (cases "e \<noteq> None \<or> b \<noteq> []")
    case True
    with f have e: "bytes = b" "err = e" "k' = k1" by simp_all
    show ?thesis unfolding e using rawConn_Read_socket[OF assms r] fill_turn(1)[OF assms r True] by (intro conjI) blast+
  next
    case False
    with f have "bytes = []" "err = Some NoProgress" "k' = k1" by simp_all
    with fill_turn(2)[OF assms r False] show ?thesis by simp
  qed
next
  case (Suc i k)
  obtain b e k1 where r: "rawConn_Read sys k = (b, e, k1)" by (cases "rawConn_Read sys k") auto
  from Suc.prems r have f: "(if e \<noteq> None \<or> b \<noteq> [] then (b, e, k1) else fill sys (Suc i) k1) = (bytes, err, k')"
    by (simp only: fill.simps(2)[of _ "Suc i"] prod.case)
  show ?case
  proof (cases "e \<noteq> None \<or> b \<noteq> []")
    case True
    with f have e: "bytes = b" "err = e" "k' = k1" by simp_all
    show ?thesis unfolding e using rawConn_Read_socket[OF assms r] fill_turn(1)[OF assms r True] by (intro conjI) blast+
  next
    case False
    with f have "fill sys (Suc i) k1 = (bytes, err, k')" by (simp only: if_False)
    from Suc.IH[OF this] fill_turn(2)[OF assms r False] show ?thesis by simp
  qed
qed

section \<open>What a read of a whole body gives\<close>

text \<open>
  A connection on which \<open>coming k\<close> is still to come before the peer closes it: a call gives a part of it,
  or \<open>EAGAIN\<close>, which uses up some of the patience of the reader; when nothing is to come any more, 0 in
  the end.
\<close>

definition feeds_socket :: "'k sys_read \<Rightarrow> ('k \<Rightarrow> string) \<Rightarrow> ('k \<Rightarrow> nat) \<Rightarrow> bool" where
  "feeds_socket sys coming patience \<longleftrightarrow> (\<forall>k. case sys k of ((n, p, err), k') \<Rightarrow>
     (0 < n \<and> n \<le> int (length p) \<and> err = None \<and> coming k = take (nat n) p @ coming k') \<or>
     (n = - 1 \<and> err = Some EAGAIN \<and> coming k' = coming k \<and> patience k' < patience k) \<or>
     (n = 0 \<and> err = None \<and> coming k = [] \<and> coming k' = []))"

lemma rawConn_Read_feeds:
  assumes "feeds_socket sys coming patience" and "rawConn_Read sys k = (bytes, err, k')"
  shows "(bytes \<noteq> [] \<and> err = None \<and> coming k = bytes @ coming k') \<or>
    (bytes = [] \<and> err = None \<and> coming k' = coming k \<and> patience k' < patience k) \<or>
    (bytes = [] \<and> err = Some ConnClosed \<and> coming k = [] \<and> coming k' = [])"
proof -
  obtain n p e k'' where s: "sys k = ((n, p, e), k'')" by (cases "sys k") auto
  note r = assms(2)[unfolded rawConn_Read_def s prod.case Let_def]
  from assms(1)[unfolded feeds_socket_def, THEN spec, of k, unfolded s prod.case]
  show ?thesis
  proof (elim disjE)
    assume *: "0 < n \<and> n \<le> int (length p) \<and> e = None \<and> coming k = take (nat n) p @ coming k''"
    then have "take (nat n) p \<noteq> []" by auto
    with * r show ?thesis by simp
  qed (use r in auto)
qed

text \<open>\<open>ReadFull\<close> returns: all the bytes, if they come, and otherwise the error of the connection.\<close>

lemma ReadFull_feeds:
  assumes "feeds_socket sys coming patience"
  shows "length got \<le> n \<Longrightarrow> \<exists>bytes err buf' k'. ReadFull sys n got buf k = Some (bytes, err, buf', k')
    \<and> bytes @ buf' @ coming k' = got @ buf @ coming k
    \<and> (if n \<le> length (got @ buf @ coming k) then length bytes = n \<and> err = None
        else err = Some ConnClosed \<and> buf' = [] \<and> coming k' = [])"
proof (induction "(length (buf @ coming k), n - length got, patience k)" arbitrary: got buf k
    rule: wf_induct_rule[OF wf_lex_prod[OF wf_less_than wf_lex_prod[OF wf_less_than wf_less_than]], case_names less])
  case (less got buf k)
  show ?case
  proof (cases "length got < n")
    case False
    with less.prems show ?thesis by (subst ReadFull.simps) simp
  next
    case True
    obtain b e buf1 k1 where r: "bufio_Read sys (n - length got) buf k = (b, e, buf1, k1)"
      by (cases "bufio_Read sys (n - length got) buf k") auto
    have c: "length b \<le> n - length got \<and> buf @ coming k = b @ buf1 @ coming k1 \<and>
      (if e = None then b \<noteq> [] \<or> patience k1 < patience k else e = Some ConnClosed \<and> b = [] \<and> buf1 = [] \<and> coming k1 = [])"
    proof (cases "buf = []")
      case True
      obtain bytes err k2 where q: "rawConn_Read sys k = (bytes, err, k2)" by (cases "rawConn_Read sys k") auto
      with r True have "b = take (n - length got) bytes" "buf1 = drop (n - length got) bytes" "e = err" "k1 = k2"
        by (simp_all add: bufio_Read_def)
      with rawConn_Read_feeds[OF assms q] True \<open>length got < n\<close> show ?thesis by auto
    next
      case False
      with r have "b = take (n - length got) buf" "buf1 = drop (n - length got) buf" "e = None" "k1 = k"
        by (simp_all add: bufio_Read_def)
      with False \<open>length got < n\<close> show ?thesis by auto
    qed
    show ?thesis
    proof (cases "e = None")
      case False
      have "ReadFull sys n got buf k = Some (got @ b, e, buf1, k1)" using True r False by (subst ReadFull.simps) auto
      with c False True show ?thesis by auto
    next
      case again: True
      have u: "ReadFull sys n got buf k = ReadFull sys n (got @ b) buf1 k1" using True r again by (subst ReadFull.simps) (simp only: if_True prod.case simp_thms)
      have "length (buf @ coming k) = length b + length (buf1 @ coming k1)" using c by simp
      then have m: "((length (buf1 @ coming k1), n - length (got @ b), patience k1), (length (buf @ coming k), n - length got, patience k))
          \<in> less_than <*lex*> less_than <*lex*> less_than"
        using c again by (cases b) auto
      have "length (got @ b) \<le> n" using c[THEN conjunct1] True by simp
      from less.hyps[OF m this] c show ?thesis unfolding u by simp
    qed
  qed
qed

text \<open>A peer that sends nothing more and does not close keeps \<open>ReadFull\<close>, and with it the whole server, for ever.\<close>

lemma ReadFull_blocked:
  assumes "\<And>k. fst (sys k) = (- 1, [], Some EAGAIN)" and "ReadFull sys n got buf k = Some r"
  shows "\<not> length (got @ buf) < n"
proof -
  have "s = sys \<longrightarrow> \<not> length (got @ buf) < n" if "ReadFull s n got buf k = Some r" for s n got buf k r
  proof (rule ReadFull.raw_induct[where P = "\<lambda>s n got buf k r. s = sys \<longrightarrow> \<not> length (got @ buf) < n", OF _ that])
    fix f s n got buf k r
    assume IH: "\<And>s n got buf k r. f s n got buf k = Some r \<Longrightarrow> s = sys \<longrightarrow> \<not> length (got @ buf) < n"
      and eq: "(if length got < n then
          (case bufio_Read s (n - length got) buf k of (bytes, err, buf, k) \<Rightarrow>
             if err = None then f s n (got @ bytes) buf k else Some (got @ bytes, err, buf, k))
        else Some (got, None, buf, k)) = Some r"
    show "s = sys \<longrightarrow> \<not> length (got @ buf) < n"
    proof (intro impI notI)
      assume s: "s = sys" and n: "length (got @ buf) < n"
      show False
      proof (cases "buf = []")
        case True
        obtain k1 where "sys k = ((- 1, [], Some EAGAIN), k1)" using assms(1)[of k] by (metis prod.collapse)
        then have "bufio_Read sys (n - length got) buf k = ([], None, [], k1)"
          using True by (simp add: bufio_Read_def rawConn_Read_def)
        with eq s n True have "f sys n got [] k1 = Some r" by simp
        from IH[OF this] n True show False by simp
      next
        case False
        then have "bufio_Read sys (n - length got) buf k = (buf, None, [], k)" using n by (simp add: bufio_Read_def)
        with eq s n have "f sys n (got @ buf) [] k = Some r" by (auto split: if_splits)
        from IH[OF this] n show False by simp
      qed
    qed
  qed
  with assms(2) show ?thesis by blast
qed

section \<open>What a write does\<close>

text \<open>
  A write call takes a first part of the bytes. A call that takes nothing, and fails with no other
  error than \<open>EAGAIN\<close>, uses up some of the \<open>patience\<close> of the peer, who reads in the end.
\<close>

definition writes_socket :: "'k sys_write \<Rightarrow> ('k \<Rightarrow> string) \<Rightarrow> ('k \<Rightarrow> nat) \<Rightarrow> bool" where
  "writes_socket sys taken patience \<longleftrightarrow> (\<forall>p k. p \<noteq> [] \<longrightarrow> (case sys p k of ((n, err), k') \<Rightarrow>
     n \<le> int (length p) \<and> taken k' = taken k @ take (nat n) p \<and>
     (n \<le> 0 \<and> (err = None \<or> err = Some EAGAIN) \<longrightarrow> patience k' < patience k)))"

lemma write_loop_socket:
  assumes "writes_socket sys taken patience"
  shows "0 \<le> sent \<Longrightarrow> sent \<le> int (length p) \<Longrightarrow>
    \<exists>n err k'. write_loop sys p sent k = Some (n, err, k') \<and> sent \<le> n \<and> n \<le> int (length p)
      \<and> taken k' = taken k @ take (nat (n - sent)) (drop (nat sent) p) \<and> (err = None \<longrightarrow> n = int (length p))"
proof (induction "(nat (int (length p) - sent), patience k)" arbitrary: sent k
    rule: wf_induct_rule[OF wf_lex_prod[OF wf_less_than wf_less_than], case_names less])
  case (less sent k)
  show ?case
  proof (cases "sent < int (length p)")
    case False
    with less.prems show ?thesis by (subst write_loop.simps) simp
  next
    case True
    let ?q = "drop (nat sent) p"
    obtain n err k1 where s: "sys ?q k = ((n, err), k1)" by (cases "sys ?q k") auto
    have "?q \<noteq> []" using True less.prems(1) by (simp add: not_le nat_less_iff)
    note w = assms[unfolded writes_socket_def, THEN spec, of ?q, THEN spec, of k, THEN mp, OF this, unfolded s prod.case]
    from w have c: "n \<le> int (length ?q)" "taken k1 = taken k @ take (nat n) ?q"
      "n \<le> 0 \<and> (err = None \<or> err = Some EAGAIN) \<longrightarrow> patience k1 < patience k" by blast+
    let ?s = "if 0 < n then sent + n else sent"
    have b: "0 \<le> ?s" "sent \<le> ?s" "?s \<le> int (length p)" using c(1) less.prems True by auto
    have t: "taken k1 = taken k @ take (nat (?s - sent)) ?q" using c(2) by simp
    show ?thesis
    proof (cases "err = None \<or> err = Some EAGAIN")
      case False
      then have "write_loop sys p sent k = Some (?s, Some (Sys (the err)), k1)"
        using True s by (subst write_loop.simps) (auto simp: Let_def)
      with b t show ?thesis by auto
    next
      case again: True
      then have w: "write_loop sys p sent k = write_loop sys p ?s k1"
        using True s by (subst write_loop.simps) (auto simp: Let_def)
      have "((nat (int (length p) - ?s), patience k1), (nat (int (length p) - sent), patience k)) \<in> less_than <*lex*> less_than"
        using c(1,3) again True less.prems by auto
      then have "\<exists>m e k'. write_loop sys p ?s k1 = Some (m, e, k') \<and> ?s \<le> m \<and> m \<le> int (length p)
          \<and> taken k' = taken k1 @ take (nat (m - ?s)) (drop (nat ?s) p) \<and> (e = None \<longrightarrow> m = int (length p))"
        by (rule less.hyps[OF _ b(1,3)])
      then obtain m e k' where m: "write_loop sys p ?s k1 = Some (m, e, k')" "?s \<le> m" "m \<le> int (length p)"
        "taken k' = taken k1 @ take (nat (m - ?s)) (drop (nat ?s) p)" "e = None \<longrightarrow> m = int (length p)" by blast
      have "take (nat (?s - sent)) ?q @ take (nat (m - ?s)) (drop (nat ?s) p) = take (nat (m - sent)) ?q"
      proof -
        have "nat ?s = nat (?s - sent) + nat sent" "nat (m - sent) = nat (?s - sent) + nat (m - ?s)"
          using b m(2) less.prems by auto
        then show ?thesis by (simp only: take_add drop_drop)
      qed
      with m w t b show ?thesis by (intro exI[of _ m] exI[of _ e] exI[of _ k']) simp
    qed
  qed
qed

text \<open>A peer that never reads keeps the loop, and with it the whole server, for ever.\<close>

lemma write_loop_blocked:
  assumes "\<And>q k. fst (sys q k) = (- 1, Some EAGAIN)" and "write_loop sys p sent k = Some r"
  shows "\<not> sent < int (length p)"
proof -
  have "s = sys \<longrightarrow> \<not> n < int (length q)" if "write_loop s q n k = Some r" for s q n k r
  proof (rule write_loop.raw_induct[where P = "\<lambda>s q n k r. s = sys \<longrightarrow> \<not> n < int (length q)", OF _ that])
    fix f s q n k r
    assume IH: "\<And>s q n k r. f s q n k = Some r \<Longrightarrow> s = sys \<longrightarrow> \<not> n < int (length q)"
      and eq: "(if n < int (length q) then
          (case s (drop (nat n) q) k of ((m, err), k) \<Rightarrow>
             let sent = if 0 < m then n + m else n
             in case err of None \<Rightarrow> f s q sent k
                | Some e \<Rightarrow> if e = EAGAIN then f s q sent k else Some (sent, Some (Sys e), k))
        else Some (n, None, k)) = Some r"
    show "s = sys \<longrightarrow> \<not> n < int (length q)"
    proof (intro impI notI)
      assume s: "s = sys" and n: "n < int (length q)"
      obtain k1 where "sys (drop (nat n) q) k = ((- 1, Some EAGAIN), k1)" using assms(1)[of "drop (nat n) q" k] by (metis prod.collapse)
      with eq s n have "f sys q n k1 = Some r" by simp
      with IH s n show False by blast
    qed
  qed
  with assms(2) show ?thesis by blast
qed

section \<open>The loop is a run of the state machine\<close>

lemma acceptConn_busy [simp]: "sbusy (acceptConn conns s) = sbusy s"
  by (induction conns s rule: acceptConn.induct) simp_all

lemma reachable_acceptConn: "reachable cfg contents s \<Longrightarrow> sbusy s = None \<Longrightarrow> reachable cfg contents (acceptConn conns s)"
proof (induction conns s rule: acceptConn.induct)
  case (3 fd err conns s)
  from 3(3,4) have "reachable cfg contents (addClient fd s)" by - (rule reachable.step[of cfg contents s "Accept fd"], auto)
  with 3 show ?case by simp
qed simp_all

text \<open>A step of a reachable state gives a reachable state; so does the waiting for a body.\<close>

lemma step_reachable:
  assumes "reachable cfg contents s" and "0 < Databases cfg" and "event_ok ev"
  shows "guards (server_step cfg ev s) (reachable cfg contents)"
  using server_step_ok[OF reachable_ok[OF assms(1,2)] assms(2,3)] reachable.step[OF assms(1,3)]
  by (cases "server_step cfg ev s") (simp_all del: server_step.simps)

lemma arrival_ok [simp]: "event_ok (arrival fd x)"
  by (simp add: arrival_def split: option.split)

lemma spin_reachable:
  "reachable cfg contents s \<Longrightarrow> 0 < Databases cfg \<Longrightarrow> \<forall>i. env_ok (es i) \<Longrightarrow> guards (spin cfg fd es late s) (reachable cfg contents)"
proof (induction cfg fd es late s rule: spin.induct)
  case (2 cfg fd es x late s)
  show ?case
  proof (cases "sbusy s = Some fd")
    case True
    have "guards (server_step cfg (arrival fd x) s) (\<lambda>s. guards (server_step cfg (Ready fd es) s)
        (\<lambda>s. guards (spin cfg fd es late s) (reachable cfg contents)))"
    proof (rule guards_mono[OF step_reachable[OF "2.prems"(1,2) arrival_ok]])
      fix s1 assume s1: "reachable cfg contents s1"
      show "guards (server_step cfg (Ready fd es) s1) (\<lambda>s. guards (spin cfg fd es late s) (reachable cfg contents))"
      proof (rule guards_mono[OF step_reachable[OF s1 "2.prems"(2)]])
        show "event_ok (Ready fd es)" using "2.prems"(3) by simp
        fix s2 assume "reachable cfg contents s2"
        from "2.IH"[OF _ this "2.prems"(2,3)] True show "guards (spin cfg fd es late s2) (reachable cfg contents)" by simp
      qed
    qed
    with True show ?thesis unfolding spin.simps by (simp only: guards_simps simp_thms if_False)
  qed (use "2.prems" in simp)
qed simp

lemma handle_fds_reachable:
  "reachable cfg contents s \<Longrightarrow> \<forall>i j. env_ok (es i j) \<Longrightarrow> 0 < Databases cfg \<Longrightarrow>
    guards (handle_fds cfg serverFd conns late es i fds s) (\<lambda>s'. reachable cfg contents s')"
proof (induction cfg serverFd conns late es i fds s rule: handle_fds.induct)
  case (2 cfg serverFd conns late es i fd fds s)
  show ?case
  proof (cases "sbusy s = None")
    case True
    have "guards (server_step cfg (Ready fd (es i)) s) (\<lambda>s. guards (spin cfg fd (es i) (late i) s) (reachable cfg contents))"
    proof (rule guards_mono[OF step_reachable[OF "2.prems"(1,3)]])
      show "event_ok (Ready fd (es i))" using "2.prems"(2) by simp
      fix s1 assume s1: "reachable cfg contents s1"
      show "guards (spin cfg fd (es i) (late i) s1) (reachable cfg contents)"
        by (rule spin_reachable[OF s1 "2.prems"(3)]) (simp add: "2.prems"(2))
    qed
    then have g: "guards (if fd = serverFd then Ret (acceptConn (conns i) s)
        else go_bind (server_step cfg (Ready fd (es i)) s) (spin cfg fd (es i) (late i))) (reachable cfg contents)"
      using reachable_acceptConn[OF "2.prems"(1) True] by (cases "fd = serverFd") (simp_all only: if_True if_False guards_simps simp_thms)
    have "guards (handle_fds cfg serverFd conns late es (Suc i) fds s') (reachable cfg contents)" if "reachable cfg contents s'" for s'
      using "2.IH" True "2.prems"(2,3) that by simp
    with True guards_mono[OF g] show ?thesis unfolding handle_fds.simps by (simp only: guards_simps simp_thms if_False)
  qed (use "2.prems" in simp)
qed simp

lemma eventLoop_reachable:
  "reachable cfg contents s \<Longrightarrow> list_all input_ok ins \<Longrightarrow> 0 < Databases cfg \<Longrightarrow>
    guards (eventLoop cfg serverFd ins s) (\<lambda>s'. reachable cfg contents s')"
proof (induction cfg serverFd ins s rule: eventLoop.induct)
  case (2 cfg serverFd fd bytes ins s)
  obtain s' where s': "server_step cfg (Receive fd bytes) s = Ret s'" by simp
  have "reachable cfg contents s'" by (rule reachable.step[OF "2.prems"(1) _ s']) simp
  with 2 s' show ?case by simp
next
  case (3 cfg serverFd fd ins s)
  obtain s' where s': "server_step cfg (Hangup fd) s = Ret s'" by simp
  have "reachable cfg contents s'" by (rule reachable.step[OF "3.prems"(1) _ s']) simp
  with 3 s' show ?case by simp
next
  case (4 cfg serverFd ins s)
  obtain s' where s': "server_step cfg Tick s = Ret s'" by simp
  have "reachable cfg contents s'" by (rule reachable.step[OF "4.prems"(1) _ s']) simp
  with 4 s' show ?case by simp
next
  case (5 cfg serverFd r conns late es ins s)
  show ?case
  proof (cases "EPoll_Wait r")
    case (Inr fds)
    have "guards (handle_fds cfg serverFd conns late es 0 fds s) (reachable cfg contents)"
      using "5.prems" by (intro handle_fds_reachable) simp_all
    with 5 Inr show ?thesis by (auto elim!: guards_mono)
  qed (use 5 in simp)
qed simp

text \<open>A round touches no client but those reported and those accepted.\<close>

lemma acceptConn_others: "(\<And>err. Inr (fd, err) \<notin> set conns) \<Longrightarrow> map_of (sclients (acceptConn conns s)) fd = map_of (sclients s) fd"
  by (induction conns s rule: acceptConn.induct) (auto simp: update_conv')

lemma ready_others:
  assumes "server_ok cfg contents s" and "event_ok (Ready fd es)"
  shows "guards (server_step cfg (Ready fd es) s) (\<lambda>s'. \<forall>c. c \<noteq> fd \<longrightarrow> map_of (sclients s') c = map_of (sclients s) c)"
proof (cases "sbusy s \<noteq> None \<and> sbusy s \<noteq> Some fd")
  case free: False
  show ?thesis
  proof (cases "map_of (sclients s) fd")
    case (Some c)
    then have "client_ok cfg c" using assms(1) by (simp add: server_ok_def)
    from handleClient_ok[OF assms(1) this, of es fd] assms(2) Some show ?thesis
      unfolding server_step.simps if_not_P[OF free] by (auto elim!: guards_mono)
  qed (use free in simp)
qed simp

definition same_others :: "config \<Rightarrow> string \<Rightarrow> nat \<Rightarrow> server \<Rightarrow> server \<Rightarrow> bool" where
  "same_others cfg contents fd s s' \<longleftrightarrow> server_ok cfg contents s' \<and> (\<forall>c. c \<noteq> fd \<longrightarrow> map_of (sclients s') c = map_of (sclients s) c)"

lemma ready_same_others:
  assumes "server_ok cfg contents s" and "0 < Databases cfg" and "\<forall>i. env_ok (es i)"
  shows "guards (server_step cfg (Ready fd es) s) (same_others cfg contents fd s)"
  using ready_others[OF assms(1), of fd es] server_step_ok[OF assms(1,2), of "Ready fd es"] assms(3)
  by (cases "server_step cfg (Ready fd es) s") (simp_all add: same_others_def del: server_step.simps)

lemma arrival_same_others:
  assumes "server_ok cfg contents s" and "0 < Databases cfg"
  shows "guards (server_step cfg (arrival fd x) s) (same_others cfg contents fd s)"
proof -
  have "guards (server_step cfg (arrival fd x) s) (server_ok cfg contents)" by (rule server_step_ok[OF assms arrival_ok])
  then show ?thesis by (auto simp: same_others_def arrival_def split: option.split)
qed

lemma same_others_trans: "same_others cfg contents fd s s1 \<Longrightarrow> same_others cfg contents fd s1 s2 \<Longrightarrow> same_others cfg contents fd s s2"
  by (simp add: same_others_def)

lemma spin_others:
  "server_ok cfg contents s \<Longrightarrow> 0 < Databases cfg \<Longrightarrow> \<forall>i. env_ok (es i) \<Longrightarrow>
    guards (spin cfg fd es late s) (same_others cfg contents fd s)"
proof (induction cfg fd es late s rule: spin.induct)
  case (2 cfg fd es x late s)
  show ?case
  proof (cases "sbusy s = Some fd")
    case True
    have "guards (server_step cfg (arrival fd x) s) (\<lambda>s1. guards (server_step cfg (Ready fd es) s1)
        (\<lambda>s2. guards (spin cfg fd es late s2) (same_others cfg contents fd s)))"
    proof (rule guards_mono[OF arrival_same_others[OF "2.prems"(1,2)]])
      fix s1 assume s1: "same_others cfg contents fd s s1"
      then have ok: "server_ok cfg contents s1" by (simp add: same_others_def)
      show "guards (server_step cfg (Ready fd es) s1) (\<lambda>s2. guards (spin cfg fd es late s2) (same_others cfg contents fd s))"
      proof (rule guards_mono[OF ready_same_others[OF ok "2.prems"(2,3)]])
        fix s2 assume s2: "same_others cfg contents fd s1 s2"
        then have "server_ok cfg contents s2" by (simp add: same_others_def)
        from "2.IH"[OF _ this "2.prems"(2,3)] True
        show "guards (spin cfg fd es late s2) (same_others cfg contents fd s)"
          by (auto elim!: guards_mono intro: same_others_trans[OF same_others_trans[OF s1 s2]])
      qed
    qed
    with True show ?thesis unfolding spin.simps by (simp only: guards_simps simp_thms if_False)
  qed (use "2.prems" in \<open>simp add: same_others_def\<close>)
qed (simp add: same_others_def)

lemma handle_fds_others:
  "server_ok cfg contents s \<Longrightarrow> \<forall>i j. env_ok (es i j) \<Longrightarrow> 0 < Databases cfg \<Longrightarrow> c \<notin> set fds \<Longrightarrow>
    (\<And>i err. Inr (c, err) \<notin> set (conns i)) \<Longrightarrow>
    guards (handle_fds cfg serverFd conns late es i fds s) (\<lambda>s'. map_of (sclients s') c = map_of (sclients s) c)"
proof (induction cfg serverFd conns late es i fds s rule: handle_fds.induct)
  case (2 cfg serverFd conns late es i fd fds s)
  have acc: "server_ok cfg contents (acceptConn conns s)" if "server_ok cfg contents s" "sbusy s = None" for conns s
    using that
  proof (induction conns s rule: acceptConn.induct)
    case (3 c err conns s)
    have "server_ok cfg contents (addClient c s)"
      using server_step_ok[OF 3(3) "2.prems"(3), of "Accept c"] 3(4) by simp
    with 3 show ?case by simp
  qed simp_all
  show ?case
  proof (cases "sbusy s = None")
    case free: True
    have "guards (if fd = serverFd then Ret (acceptConn (conns i) s)
        else go_bind (server_step cfg (Ready fd (es i)) s) (spin cfg fd (es i) (late i)))
      (\<lambda>s'. server_ok cfg contents s' \<and> map_of (sclients s') c = map_of (sclients s) c)"
    proof (cases "fd = serverFd")
      case True
      with acc[OF "2.prems"(1) free] acceptConn_others[of c "conns i" s] "2.prems"(5) show ?thesis by simp
    next
      case False
      have e: "\<forall>j. env_ok (es i j)" using "2.prems"(2) by blast
      have "guards (server_step cfg (Ready fd (es i)) s) (\<lambda>s1. guards (spin cfg fd (es i) (late i) s1) (same_others cfg contents fd s))"
      proof (rule guards_mono[OF ready_same_others[OF "2.prems"(1,3) e]])
        fix s1 assume s1: "same_others cfg contents fd s s1"
        then have "server_ok cfg contents s1" by (simp add: same_others_def)
        from guards_mono[OF spin_others[OF this "2.prems"(3) e]] same_others_trans[OF s1]
        show "guards (spin cfg fd (es i) (late i) s1) (same_others cfg contents fd s)" by blast
      qed
      then have "guards (go_bind (server_step cfg (Ready fd (es i)) s) (spin cfg fd (es i) (late i))) (same_others cfg contents fd s)"
        by (simp only: guards_simps)
      then show ?thesis unfolding if_not_P[OF False] by (rule guards_mono) (use False "2.prems"(4) in \<open>auto simp: same_others_def\<close>)
    qed
    then have "guards (if fd = serverFd then Ret (acceptConn (conns i) s)
        else go_bind (server_step cfg (Ready fd (es i)) s) (spin cfg fd (es i) (late i)))
      (\<lambda>s'. guards (handle_fds cfg serverFd conns late es (Suc i) fds s') (\<lambda>s''. map_of (sclients s'') c = map_of (sclients s) c))"
    proof (rule guards_mono)
      fix s' assume s': "server_ok cfg contents s' \<and> map_of (sclients s') c = map_of (sclients s) c"
      have "guards (handle_fds cfg serverFd conns late es (Suc i) fds s') (\<lambda>s''. map_of (sclients s'') c = map_of (sclients s') c)"
        using "2.prems" s' free by (intro "2.IH") simp_all
      with s' show "guards (handle_fds cfg serverFd conns late es (Suc i) fds s') (\<lambda>s''. map_of (sclients s'') c = map_of (sclients s) c)"
        by simp
    qed
    with free show ?thesis unfolding handle_fds.simps by (simp only: guards_simps simp_thms if_False)
  qed simp
qed simp

end
