(* ===== verification/Flags.thy ===== *)
theory Flags
  imports Eviction Go_Float_Text
begin

text \<open>
  The command line (\<open>FromFlags\<close> of config/config.go) with what it uses of Go's flag package: how an
  argument is taken apart, which flags take a value, and how values are parsed, integers in
  any base with a prefix. A command line that does not parse ends the program.
\<close>

section \<open>Integers in base 0\<close>

definition base_digit :: "char \<Rightarrow> int option" where
  "base_digit c =
     (let n = of_char (lower_char c) in
      if is_digit c then Some (int (digit_val c)) else if 97 \<le> n \<and> n \<le> 122 then Some (n - 87) else None)"

fun base_loop :: "int \<Rightarrow> bool \<Rightarrow> int \<Rightarrow> string \<Rightarrow> int \<times> num_error option \<times> bool" where
  "base_loop b underscores n [] = (n, None, underscores)"
| "base_loop b underscores n (c # cs) =
     (if c = CHR ''_'' then base_loop b True n cs
      else case base_digit c of
        None \<Rightarrow> (0, Some ErrSyntax, underscores)
      | Some v \<Rightarrow>
          if b \<le> v then (0, Some ErrSyntax, underscores)
          else if max_uint64 div b + 1 \<le> n then (max_uint64, Some ErrRange, underscores)
          else if max_uint64 < n * b + v then (max_uint64, Some ErrRange, underscores)
          else base_loop b underscores (n * b + v) cs)"

text \<open>The base a prefix stands for, and what follows the prefix.\<close>

definition base_prefix :: "string \<Rightarrow> int \<times> string" where
  "base_prefix s =
     (if hd s \<noteq> CHR ''0'' then (10, s)
      else if 3 \<le> length s \<and> lower_char (s ! 1) = CHR ''b'' then (2, drop 2 s)
      else if 3 \<le> length s \<and> lower_char (s ! 1) = CHR ''o'' then (8, drop 2 s)
      else if 3 \<le> length s \<and> lower_char (s ! 1) = CHR ''x'' then (16, drop 2 s)
      else (8, drop 1 s))"

definition ParseUint0 :: "string \<Rightarrow> int \<times> num_error option" where
  "ParseUint0 s =
     (if s = [] then (0, Some ErrSyntax)
      else case base_prefix s of (b, digits) \<Rightarrow>
        (case base_loop b False 0 digits of (n, err, underscores) \<Rightarrow>
           if err = None \<and> underscores \<and> \<not> underscoreOK s then (0, Some ErrSyntax) else (n, err)))"

definition ParseInt0 :: "string \<Rightarrow> int \<times> num_error option" where
  "ParseInt0 s =
     (case s of
        [] \<Rightarrow> (0, Some ErrSyntax)
      | c # cs \<Rightarrow>
          let neg = (c = CHR ''-'');
              digits = (if c = CHR ''+'' \<or> c = CHR ''-'' then cs else s);
              (un, err) = ParseUint0 digits
          in if err = Some ErrSyntax then (0, Some ErrSyntax)
             else if \<not> neg \<and> 2 ^ 63 \<le> un then (2 ^ 63 - 1, Some ErrRange)
             else if neg \<and> 2 ^ 63 < un then (- (2 ^ 63), Some ErrRange)
             else (if neg then - un else un, None))"

definition ParseBool :: "string \<Rightarrow> bool option" where
  "ParseBool s =
     (if s \<in> {''1'', ''t'', ''T'', ''true'', ''TRUE'', ''True''} then Some True
      else if s \<in> {''0'', ''f'', ''F'', ''false'', ''FALSE'', ''False''} then Some False
      else None)"

section \<open>The flags\<close>

definition EvictionPolicy_of :: "string \<Rightarrow> EvictionPolicy" where
  "EvictionPolicy_of s =
     (case map_of [(''noeviction'', EvictNoEviction), (''allkeys-lru'', EvictAllKeysLRU), (''volatile-lru'', EvictVolatileLRU),
        (''allkeys-lfu'', EvictAllKeysLFU), (''volatile-lfu'', EvictVolatileLFU), (''allkeys-random'', EvictAllKeysRandom),
        (''volatile-random'', EvictVolatileRandom), (''volatile-ttl'', EvictVolatileTTL)] s of
        Some p \<Rightarrow> p
      | None \<Rightarrow> EvictOther s)"

definition AOFSync_of :: "string \<Rightarrow> AOFSync" where
  "AOFSync_of s =
     (case map_of [(''always'', AOFSyncAlways), (''everysec'', AOFSyncEverySec), (''no'', AOFSyncNo)] s of
        Some p \<Rightarrow> p
      | None \<Rightarrow> AOFSyncOther s)"

text \<open>What a value does to the configuration, flag by flag; nothing if it does not parse.\<close>

definition flag_table :: "(string \<times> (string \<Rightarrow> config \<Rightarrow> config option)) list" where
  "flag_table =
    [(''host'', \<lambda>v cfg. Some (cfg\<lparr>Host := v\<rparr>)),
     (''port'', \<lambda>v cfg. map_option (\<lambda>n. cfg\<lparr>Port := n\<rparr>) (parsed (ParseInt0 v))),
     (''maxmemory'', \<lambda>v cfg. map_option (\<lambda>n. cfg\<lparr>MaxMemory := n\<rparr>) (parsed (ParseInt0 v))),
     (''maxmemory-policy'', \<lambda>v cfg. Some (cfg\<lparr>Policy := EvictionPolicy_of v\<rparr>)),
     (''appendonly'', \<lambda>v cfg. map_option (\<lambda>b. cfg\<lparr>AOFEnabled := b\<rparr>) (ParseBool v)),
     (''appendfilename'', \<lambda>v cfg. Some (cfg\<lparr>AOFFilename := v\<rparr>)),
     (''appendfsync'', \<lambda>v cfg. Some (cfg\<lparr>AOFSyncPolicy := AOFSync_of v\<rparr>)),
     (''maxclients'', \<lambda>v cfg. map_option (\<lambda>n. cfg\<lparr>MaxClients := n\<rparr>) (parsed (ParseInt0 v)))]"

section \<open>Parsing\<close>

datatype flag_arg = NotFlag | BadFlag | FlagArg string "string option"

definition split_flag :: "string \<Rightarrow> flag_arg" where
  "split_flag s =
     (if length s < 2 \<or> hd s \<noteq> CHR ''-'' \<or> s = ''--'' then NotFlag
      else let name = drop (if s ! 1 = CHR ''-'' then 2 else 1) s in
        if name = [] \<or> hd name = CHR ''-'' \<or> hd name = CHR ''='' then BadFlag
        else let n = takeWhile (\<lambda>c. c \<noteq> CHR ''='') name in
          FlagArg n (if CHR ''='' \<in> set name then Some (drop (Suc (length n)) name) else None))"

text \<open>The program goes on with a configuration, or it exits: with 0 after printing the help, else with 2.\<close>

datatype flags = Parsed config | Exits nat

fun flag_Parse :: "string list \<Rightarrow> config \<Rightarrow> flags" where
  "flag_Parse [] cfg = Parsed cfg"
| "flag_Parse (s # args) cfg =
     (case split_flag s of
        NotFlag \<Rightarrow> Parsed cfg
      | BadFlag \<Rightarrow> Exits 2
      | FlagArg name val \<Rightarrow>
          (case map_of flag_table name of
             None \<Rightarrow> Exits (if name = ''help'' \<or> name = ''h'' then 0 else 2)
           | Some put \<Rightarrow>
               if name = ''appendonly'' \<or> val \<noteq> None then
                 (case put (case val of Some v \<Rightarrow> v | None \<Rightarrow> ''true'') cfg of
                    None \<Rightarrow> Exits 2
                  | Some cfg \<Rightarrow> flag_Parse args cfg)
               else
                 (case args of
                    [] \<Rightarrow> Exits 2
                  | v # rest \<Rightarrow> (case put v cfg of None \<Rightarrow> Exits 2 | Some cfg \<Rightarrow> flag_Parse rest cfg))))"

definition FromFlags :: "string list \<Rightarrow> flags" where
  "FromFlags args = flag_Parse args Default"

section \<open>What a command line does\<close>

text \<open>Settings, each written as one word with an equals sign or as two words.\<close>

definition flag_words :: "bool \<times> string \<times> string \<Rightarrow> string list" where
  "flag_words p = (case p of (one, n, v) \<Rightarrow> if one then [''--'' @ n @ ''='' @ v] else [''-'' @ n, v])"

fun apply_flags :: "(bool \<times> string \<times> string) list \<Rightarrow> config \<Rightarrow> flags" where
  "apply_flags [] cfg = Parsed cfg"
| "apply_flags ((one, n, v) # settings) cfg =
     (case the (map_of flag_table n) v cfg of None \<Rightarrow> Exits 2 | Some cfg \<Rightarrow> apply_flags settings cfg)"

lemma flag_name_plain: "n \<in> fst ` set flag_table \<Longrightarrow> n \<noteq> [] \<and> hd n \<noteq> CHR ''-'' \<and> hd n \<noteq> CHR ''='' \<and> CHR ''='' \<notin> set n"
  by (auto simp: flag_table_def)

lemma split_flag_words:
  assumes "n \<noteq> []" and "hd n \<noteq> CHR ''-''" and "hd n \<noteq> CHR ''=''" and "CHR ''='' \<notin> set n"
  shows "split_flag (''--'' @ n @ ''='' @ v) = FlagArg n (Some v)" and "split_flag (''-'' @ n) = FlagArg n None"
proof -
  have t: "takeWhile (\<lambda>c. c \<noteq> CHR ''='') (n @ CHR ''='' # v) = n" "takeWhile (\<lambda>c. c \<noteq> CHR ''='') n = n"
    using assms(4) by (auto simp: takeWhile_tail intro!: takeWhile_eq_all_conv[THEN iffD2])
  obtain c m where n: "n = c # m" using assms(1) by (cases n) auto
  show "split_flag (''--'' @ n @ ''='' @ v) = FlagArg n (Some v)"
    using t(1) assms unfolding n by (simp add: split_flag_def Let_def)
  show "split_flag (''-'' @ n) = FlagArg n None"
    using t(2) assms unfolding n by (simp add: split_flag_def Let_def)
qed

lemma flag_Parse_settings:
  assumes "\<forall>(one, n, v) \<in> set settings. n \<in> fst ` set flag_table \<and> (one \<or> n \<noteq> ''appendonly'')"
  shows "flag_Parse (concat (map flag_words settings)) cfg = apply_flags settings cfg"
  using assms
proof (induction settings arbitrary: cfg)
  case (Cons p settings)
  obtain one n v where p: "p = (one, n, v)" by (cases p) auto
  with Cons.prems have n: "n \<in> fst ` set flag_table" "one \<or> n \<noteq> ''appendonly''" by auto
  then obtain put where put: "map_of flag_table n = Some put" by (metis map_of_eq_None_iff option.exhaust)
  from Cons.prems have IH: "flag_Parse (concat (map flag_words settings)) cfg' = apply_flags settings cfg'" for cfg'
    by (intro Cons.IH) simp
  note sp = split_flag_words(1)[of n v] split_flag_words(2)[of n]
  show ?case
  proof (cases one)
    case True
    then have "flag_words p = [''--'' @ n @ ''='' @ v]" by (simp add: p flag_words_def)
    with p put sp(1) flag_name_plain[OF n(1)] IH show ?thesis by (simp split: option.split)
  next
    case False
    then have "flag_words p = [''-'' @ n, v]" by (simp add: p flag_words_def)
    with p put sp(2) flag_name_plain[OF n(1)] IH n(2) False show ?thesis by (simp split: option.split)
  qed
qed simp

text \<open>No flag changes the number of databases.\<close>

lemma flag_databases: "map_of flag_table n = Some put \<Longrightarrow> put v cfg = Some cfg' \<Longrightarrow> Databases cfg' = Databases cfg"
  by (auto simp: flag_table_def split: if_splits)

lemma flag_Parse_databases: "flag_Parse args cfg = Parsed cfg' \<Longrightarrow> Databases cfg' = Databases cfg"
proof (induction args cfg rule: flag_Parse.induct)
  case (2 s args cfg)
  show ?case
  proof (cases "split_flag s")
    case (FlagArg name val)
    show ?thesis
    proof (cases "map_of flag_table name")
      case None
      with 2(3) FlagArg show ?thesis by simp
    next
      case (Some put)
      note d = flag_databases[OF Some]
      show ?thesis
      proof (cases "name = ''appendonly'' \<or> val \<noteq> None")
        case True
        with 2(1)[OF FlagArg Some True] 2(3) FlagArg Some d show ?thesis
          by (auto split: option.splits)
      next
        case False
        with 2(2)[OF FlagArg Some False] 2(3) FlagArg Some d show ?thesis
          by (auto split: option.splits list.splits)
      qed
    qed
  qed (use 2(3) in simp_all)
qed simp

end
