(* ===== verification/Startup.thy ===== *)
theory Startup
  imports Event_Loop Flags
begin

text \<open>
  The start of the program (main.go, \<open>New\<close> and \<open>Listen\<close> of server/server.go, the opening of the file in
  persistence/aof.go and \<open>createServerSocket\<close> of server/rawconn.go): the command line, the replay of
  the file, the listening socket, the loop. The answers of the system calls and of the resolution of the
  host are parameters; what the program opens and closes until it serves is a trace.
\<close>

datatype fd_event = Opened nat | Closed nat

section \<open>The append-only file\<close>

text \<open>\<open>os.Open\<close> for the replay, \<open>os.IsNotExist\<close>, and \<open>os.OpenFile\<close> for appending, which creates the file;
  \<open>fContents\<close> is what a file that could be opened holds.\<close>

record file_calls =
  fContents :: "string \<Rightarrow> string"
  fOpen :: "string \<Rightarrow> errno + nat"
  fNotExist :: "errno \<Rightarrow> bool"
  fAppend :: "string \<Rightarrow> errno + nat"

definition replay_file :: "file_calls \<Rightarrow> string \<Rightarrow> (nat \<Rightarrow> env) \<Rightarrow> db list \<Rightarrow> ((errno + string \<times> db list) \<times> fd_event list) go" where
  "replay_file f name es dbs =
     (case fOpen f name of
        Inl e \<Rightarrow> Ret (if fNotExist f e then Inr ([], dbs) else Inl e, [])
      | Inr fd \<Rightarrow> go_bind (replayAOF es (fContents f name) dbs) (\<lambda>dbs.
          Ret (Inr (fContents f name, dbs), [Opened fd, Closed fd])))"

text \<open>\<open>New\<close> with its errors; \<open>Server_New\<close> of Server is what it gives when it succeeds.\<close>

definition New_server :: "file_calls \<Rightarrow> config \<Rightarrow> (nat \<Rightarrow> env) \<Rightarrow> ((string \<times> errno option + server) \<times> fd_event list) go" where
  "New_server f cfg es =
     go_bind (New (Databases cfg)) (\<lambda>dbs.
       if AOFEnabled cfg then
         go_bind (replay_file f (AOFFilename cfg) es dbs) (\<lambda>(r, t).
           case r of
             Inl e \<Rightarrow> Ret (Inl (''AOF replay'', Some e), t)
           | Inr (file, dbs) \<Rightarrow>
               (case fAppend f (AOFFilename cfg) of
                  Inl e \<Rightarrow> Ret (Inl (''AOF open'', Some e), t)
                | Inr fd \<Rightarrow> Ret (Inr \<lparr>sdbs = dbs, saof = Some (NewAOF file (AOFSyncPolicy cfg)), sclients = [], sbusy = None\<rparr>,
                    t @ [Opened fd])))
       else Ret (Inr \<lparr>sdbs = dbs, saof = None, sclients = [], sbusy = None\<rparr>, []))"

section \<open>The listening socket\<close>

record net_calls =
  nSocket :: "errno + nat"
  nReuseAddr :: "nat \<Rightarrow> errno option"
  nParseIP4 :: "string \<Rightarrow> string option"
  nBind :: "nat \<Rightarrow> string \<Rightarrow> int \<Rightarrow> errno option"
  nListen :: "nat \<Rightarrow> errno option"
  nEpollCreate :: "errno + nat"
  nEpollAdd :: "nat \<Rightarrow> nat \<Rightarrow> errno option"

definition createServerSocket :: "net_calls \<Rightarrow> string \<Rightarrow> int \<Rightarrow> (string \<times> errno option + nat) \<times> fd_event list" where
  "createServerSocket k host port =
     (case nSocket k of
        Inl e \<Rightarrow> (Inl (''socket'', Some e), [])
      | Inr fd \<Rightarrow>
          (case nReuseAddr k fd of
             Some e \<Rightarrow> (Inl (''SO_REUSEADDR'', Some e), [Opened fd, Closed fd])
           | None \<Rightarrow>
               (case nParseIP4 k host of
                  None \<Rightarrow> (Inl (''invalid host: '' @ host, None), [Opened fd, Closed fd])
                | Some ip \<Rightarrow>
                    (case nBind k fd ip port of
                       Some e \<Rightarrow> (Inl (''bind'', Some e), [Opened fd, Closed fd])
                     | None \<Rightarrow>
                         (case nListen k fd of
                            Some e \<Rightarrow> (Inl (''listen'', Some e), [Opened fd, Closed fd])
                          | None \<Rightarrow> (Inr fd, [Opened fd]))))))"

definition NewEPoll :: "net_calls \<Rightarrow> errno + nat" where "NewEPoll k = nEpollCreate k"

definition EPoll_Add :: "net_calls \<Rightarrow> nat \<Rightarrow> nat \<Rightarrow> errno option" where "EPoll_Add k ep fd = nEpollAdd k ep fd"

text \<open>\<open>Listen\<close> up to the loop: the two descriptors the loop works with.\<close>

definition Listen :: "net_calls \<Rightarrow> config \<Rightarrow> (string \<times> errno option + nat \<times> nat) \<times> fd_event list" where
  "Listen k cfg =
     (case createServerSocket k (Host cfg) (Port cfg) of
        (Inl err, t) \<Rightarrow> (Inl err, t)
      | (Inr fd, t) \<Rightarrow>
          (case NewEPoll k of
             Inl e \<Rightarrow> (Inl ([], Some e), t @ [Closed fd])
           | Inr ep \<Rightarrow>
               (case EPoll_Add k ep fd of
                  Some e \<Rightarrow> (Inl (''epoll add server fd'', Some e), t @ [Opened ep, Closed ep, Closed fd])
                | None \<Rightarrow> (Inr (fd, ep), t @ [Opened ep]))))"

section \<open>The program\<close>

datatype outcome = Exited nat | Init_failed string "errno option" | Listen_failed string "errno option" | Served config server

text \<open>\<open>main\<close>, until the loop returns or is interrupted; \<open>ins\<close> is what happens to the loop until then. A
  failure ends in \<open>log.Fatalf\<close>, which closes nothing.\<close>

definition main :: "net_calls \<Rightarrow> file_calls \<Rightarrow> string list \<Rightarrow> (nat \<Rightarrow> env) \<Rightarrow> input list \<Rightarrow> (outcome \<times> fd_event list) go" where
  "main k f args es ins =
     (case FromFlags args of
        Exits n \<Rightarrow> Ret (Exited n, [])
      | Parsed cfg \<Rightarrow>
          go_bind (New_server f cfg es) (\<lambda>(r, t).
            case r of
              Inl (msg, err) \<Rightarrow> Ret (Init_failed msg err, t)
            | Inr s \<Rightarrow>
                (case Listen k cfg of
                   (Inl (msg, err), t') \<Rightarrow> Ret (Listen_failed msg err, t @ t')
                 | (Inr (serverFd, ep), t') \<Rightarrow> go_bind (eventLoop cfg serverFd ins s) (\<lambda>s. Ret (Served cfg s, t @ t')))))"

section \<open>What holds of it\<close>

definition opened :: "fd_event list \<Rightarrow> nat multiset" where
  "opened t = mset (concat (map (\<lambda>e. case e of Opened fd \<Rightarrow> [fd] | Closed fd \<Rightarrow> []) t))"

definition closed_fds :: "fd_event list \<Rightarrow> nat multiset" where
  "closed_fds t = mset (concat (map (\<lambda>e. case e of Opened fd \<Rightarrow> [] | Closed fd \<Rightarrow> [fd]) t))"

lemma trace_simps [simp]:
  "opened [] = {#}" "opened (Opened fd # t) = add_mset fd (opened t)" "opened (Closed fd # t) = opened t"
  "opened (t @ t') = opened t + opened t'"
  "closed_fds [] = {#}" "closed_fds (Opened fd # t) = closed_fds t" "closed_fds (Closed fd # t) = add_mset fd (closed_fds t)"
  "closed_fds (t @ t') = closed_fds t + closed_fds t'"
  by (simp_all add: opened_def closed_fds_def)

text \<open>\<open>Listen\<close> closes what it opened when it fails.\<close>

lemma Listen_closes:
  "case Listen k cfg of
     (Inl err, t) \<Rightarrow> opened t = closed_fds t
   | (Inr (fd, ep), t) \<Rightarrow> opened t = {#fd, ep#} \<and> closed_fds t = {#}"
  by (auto simp: Listen_def createServerSocket_def split: sum.split option.split)

text \<open>The descriptor that the append-only file is written to.\<close>

definition append_fd :: "file_calls \<Rightarrow> config \<Rightarrow> nat multiset" where
  "append_fd f cfg = (if AOFEnabled cfg then (case fAppend f (AOFFilename cfg) of Inl e \<Rightarrow> {#} | Inr fd \<Rightarrow> {#fd#}) else {#})"

text \<open>What the file holds at the start: nothing, when there is none.\<close>

definition file_start :: "file_calls \<Rightarrow> config \<Rightarrow> string" where
  "file_start f cfg = (case fOpen f (AOFFilename cfg) of Inl e \<Rightarrow> [] | Inr fd \<Rightarrow> fContents f (AOFFilename cfg))"

lemma New_server_trace:
  assumes "New_server f cfg es = Ret (r, t)"
  shows "case r of Inl err \<Rightarrow> opened t = closed_fds t | Inr s \<Rightarrow> opened t = closed_fds t + append_fd f cfg"
proof (cases "AOFEnabled cfg")
  case True
  from assms True obtain dbs r1 t1 where n: "replay_file f (AOFFilename cfg) es dbs = Ret (r1, t1)"
    and e: "(case r1 of
             Inl e \<Rightarrow> Ret (Inl (''AOF replay'', Some e), t1)
           | Inr (file, dbs) \<Rightarrow>
               (case fAppend f (AOFFilename cfg) of
                  Inl e \<Rightarrow> Ret (Inl (''AOF open'', Some e), t1)
                | Inr fd \<Rightarrow> Ret (Inr \<lparr>sdbs = dbs, saof = Some (NewAOF file (AOFSyncPolicy cfg)), sclients = [], sbusy = None\<rparr>,
                    t1 @ [Opened fd]))) = Ret (r, t)"
    by (auto simp: New_server_def go_bind_eq_Ret)
  from n have "opened t1 = closed_fds t1" by (auto simp: replay_file_def go_bind_eq_Ret split: sum.splits)
  with e True show ?thesis by (auto simp: append_fd_def split: sum.splits)
next
  case False
  with assms have "\<exists>s. r = Inr s \<and> t = []" by (auto simp: New_server_def go_bind_eq_Ret)
  with False show ?thesis by (auto simp: append_fd_def)
qed

lemma replay_nothing: "dbs \<noteq> [] \<Longrightarrow> replayAOF es [] dbs = Ret dbs"
  by (cases dbs) (simp_all add: replayAOF_def Replay_stop[OF ReadValue_Nil] DB_def)

lemma New_server_succeeds:
  assumes "New_server f cfg es = Ret (Inr s, t)" and "0 < Databases cfg"
  shows "Server_New cfg es (file_start f cfg) = Ret s"
proof (cases "AOFEnabled cfg")
  case False
  with assms(1) show ?thesis by (auto simp: New_server_def Server_New_def go_bind_eq_Ret)
next
  case True
  from assms(1) True obtain dbs r1 t1 where n1: "New (Databases cfg) = Ret dbs" "replay_file f (AOFFilename cfg) es dbs = Ret (r1, t1)"
    and e: "(case r1 of
             Inl e \<Rightarrow> Ret (Inl (''AOF replay'', Some e), t1)
           | Inr (bytes, dbs) \<Rightarrow>
               (case fAppend f (AOFFilename cfg) of
                  Inl e \<Rightarrow> Ret (Inl (''AOF open'', Some e), t1)
                | Inr fd \<Rightarrow> Ret (Inr \<lparr>sdbs = dbs, saof = Some (NewAOF bytes (AOFSyncPolicy cfg)), sclients = [], sbusy = None\<rparr>,
                    t1 @ [Opened fd]))) = Ret (Inr s, t)"
    by (auto simp: New_server_def go_bind_eq_Ret)
  from n1(1) e obtain bytes dbs' where r1: "r1 = Inr (bytes, dbs')"
    and s: "s = \<lparr>sdbs = dbs', saof = Some (NewAOF bytes (AOFSyncPolicy cfg)), sclients = [], sbusy = None\<rparr>"
    by (auto split: sum.splits)
  note n = n1[unfolded r1]
  have "dbs \<noteq> []" using n(1) assms(2) by (auto simp: New_def make_slice_def split: if_splits)
  with n(2) have "bytes = file_start f cfg \<and> replayAOF es bytes dbs = Ret dbs'"
    by (auto simp: replay_file_def file_start_def go_bind_eq_Ret replay_nothing split: sum.splits if_splits)
  with True n(1) s show ?thesis by (auto simp: Server_New_def)
qed

lemma New_server_guards:
  assumes "0 < Databases cfg" and "\<forall>i. env_ok (es i)"
  shows "guards (New_server f cfg es) (\<lambda>p. True)"
proof -
  note g = Server_New_ok[OF assms, of "file_start f cfg", unfolded Server_New_def guards_simps]
  have n: "guards (New (Databases cfg)) (\<lambda>dbs. New (Databases cfg) = Ret dbs)"
    using Server_New_ok[OF assms, of "[]"] by (cases "New (Databases cfg)") (simp_all add: Server_New_def)
  have "guards (replay_file f (AOFFilename cfg) es dbs) (\<lambda>p. True)" if d: "New (Databases cfg) = Ret dbs" "AOFEnabled cfg" for dbs
  proof (cases "fOpen f (AOFFilename cfg)")
    case (Inr fd)
    from g d Inr have "guards (replayAOF es (fContents f (AOFFilename cfg)) dbs) (\<lambda>p. True)"
      by (auto simp: file_start_def elim!: guards_mono)
    with Inr show ?thesis by (simp add: replay_file_def)
  qed (simp add: replay_file_def)
  then show ?thesis unfolding New_server_def guards_simps
    by (intro guards_mono[OF n]) (auto elim!: guards_mono split: sum.split)
qed

lemma FromFlags_databases: "FromFlags args = Parsed cfg \<Longrightarrow> 0 < Databases cfg"
  using flag_Parse_databases[of args Default cfg] by (simp add: FromFlags_def Default_def)

text \<open>A program that serves is in a reachable state of the server; the file stays open when \<open>Listen\<close> fails.\<close>

definition started :: "net_calls \<Rightarrow> file_calls \<Rightarrow> string list \<Rightarrow> outcome \<Rightarrow> fd_event list \<Rightarrow> bool" where
  "started k f args out t \<longleftrightarrow> (case out of
       Exited n \<Rightarrow> t = []
     | Init_failed msg err \<Rightarrow> opened t = closed_fds t
     | Listen_failed msg err \<Rightarrow> \<exists>cfg. FromFlags args = Parsed cfg \<and> opened t = closed_fds t + append_fd f cfg
     | Served cfg s \<Rightarrow> FromFlags args = Parsed cfg \<and> reachable cfg (file_start f cfg) s
         \<and> (\<exists>fd ep. fst (Listen k cfg) = Inr (fd, ep) \<and> opened t = closed_fds t + append_fd f cfg + {#fd, ep#}))"

lemma main_started:
  assumes "\<forall>i. env_ok (es i)" and "list_all input_ok ins"
  shows "guards (main k f args es ins) (\<lambda>(out, t). started k f args out t)"
proof (cases "FromFlags args")
  case (Parsed cfg)
  note pos = FromFlags_databases[OF Parsed]
  from New_server_guards[OF pos assms(1), of f] show ?thesis
  proof (cases "New_server f cfg es")
    case (Ret p)
    obtain r t where p: "p = (r, t)" by (cases p) auto
    note tr = New_server_trace[OF Ret[unfolded p]]
    show ?thesis
    proof (cases r)
      case (Inl e)
      with tr show ?thesis by (auto simp: main_def Parsed Ret p started_def split: prod.split)
    next
      case (Inr s)
      have new: "Server_New cfg es (file_start f cfg) = Ret s" using New_server_succeeds[OF _ pos] Ret p Inr by simp
      obtain l t' where l: "Listen k cfg = (l, t')" by (cases "Listen k cfg") auto
      show ?thesis
      proof (cases l)
        case (Inl e)
        with tr Inr Listen_closes[of k cfg] l show ?thesis
          by (auto simp: main_def Parsed Ret p started_def split: prod.split)
      next
        case (Inr q)
        obtain fd ep where q: "q = (fd, ep)" by (cases q) auto
        have run: "guards (eventLoop cfg fd ins s) (\<lambda>s'. reachable cfg (file_start f cfg) s')"
          by (rule eventLoop_reachable[OF reachable.start[OF assms(1) new] assms(2) pos])
        have "opened (t @ t') = closed_fds (t @ t') + append_fd f cfg + {#fd, ep#}"
          using tr \<open>r = Inr s\<close> Listen_closes[of k cfg] l Inr q by simp
        with run \<open>r = Inr s\<close> l Inr q show ?thesis
          by (auto simp: main_def Parsed Ret p started_def elim!: guards_mono)
      qed
    qed
  qed (simp add: main_def Parsed)
qed (simp add: main_def started_def)

end
