(* ===== verification/Server_Invariant.thy ===== *)
theory Server_Invariant
  imports Server_Correct Cmd_Invariant
begin

text \<open>
  Invariants of the databases that only some commands break: in a run of the server in which
  every command that a client sends is one of the good ones, every database keeps them, through
  transactions, deletions of clients and the flush of all databases. The two of
  Cmd_Invariant are instances.
\<close>

section \<open>Runs with good commands\<close>

text \<open>The command that an event has the server handle, in upper case, satisfies \<open>P\<close>.\<close>

fun handles :: "(string \<Rightarrow> string list \<Rightarrow> bool) \<Rightarrow> server \<Rightarrow> event \<Rightarrow> bool" where
  "handles P s (Ready fd es) =
     (case map_of (sclients s) fd of
        None \<Rightarrow> True
      | Some c \<Rightarrow> (case ReadValue (reader c) of
            Ret (Inr (v, rest)) \<Rightarrow> (case ToCommand v of Inr (n, args) \<Rightarrow> P (ToUpper n) (map Str args) | Inl err \<Rightarrow> True)
          | _ \<Rightarrow> True))"
| "handles P s ev = True"

text \<open>Runs from an empty file.\<close>

inductive runs :: "(string \<Rightarrow> string list \<Rightarrow> bool) \<Rightarrow> config \<Rightarrow> server \<Rightarrow> bool" for P cfg where
  start: "\<lbrakk>\<forall>i. env_ok (es i); Server_New cfg es [] = Ret s\<rbrakk> \<Longrightarrow> runs P cfg s"
| step: "\<lbrakk>runs P cfg s; event_ok ev; handles P s ev; server_step cfg ev s = Ret s'\<rbrakk> \<Longrightarrow> runs P cfg s'"

lemma runs_reachable: "runs P cfg s \<Longrightarrow> reachable cfg [] s"
  by (induction rule: runs.induct) (auto intro: reachable.intros)

lemma start_databases: "Server_New cfg es [] = Ret s \<Longrightarrow> 0 < Databases cfg \<Longrightarrow> set (sdbs s) \<subseteq> {newDB} \<and> sclients s = []"
  by (auto simp: Server_New_def New_def make_slice_def replayAOF_def Replay_stop[OF ReadValue_Nil] DB_def go_bind_eq_Ret
      split: if_splits option.splits dest!: set_update_subset_insert[THEN subsetD])

section \<open>The interface\<close>

locale kept_by_commands =
  fixes I :: "db \<Rightarrow> bool" and P :: "string \<Rightarrow> string list \<Rightarrow> bool"
  assumes new: "I newDB" and flush: "I d \<Longrightarrow> I (db_Flush d)"
    and command: "Registry_Get n = Some h \<Longrightarrow> P n args \<Longrightarrow> ToUpper n = n \<Longrightarrow> env_ok e \<Longrightarrow> wf_db d \<Longrightarrow> I d
      \<Longrightarrow> guards (h e args d) (\<lambda>p. I (snd p))"
begin

definition queued_ok :: "client \<Rightarrow> bool" where
  "queued_ok c \<longleftrightarrow> list_all (\<lambda>q. P (fst q) (map Str (snd q)) \<and> ToUpper (fst q) = fst q) (queue c)"

definition holds :: "server \<Rightarrow> bool" where
  "holds s \<longleftrightarrow> list_all I (sdbs s) \<and> (\<forall>fd c. map_of (sclients s) fd = Some c \<longrightarrow> queued_ok c)"

lemma queued_simps [simp]:
  "queued_ok (send bytes c) = queued_ok c" "queued_ok (c\<lparr>reader := r\<rparr>) = queued_ok c" "queued_ok (c\<lparr>hungup := b\<rparr>) = queued_ok c" "queued_ok (c\<lparr>dbIndex := i\<rparr>) = queued_ok c"
  "queued_ok (StartMulti c)" "queued_ok (DiscardMulti c)" "queued_ok (c\<lparr>queue := [], inMulti := b\<rparr>)" "queued_ok NewClient"
  by (simp_all add: queued_ok_def StartMulti_def DiscardMulti_def NewClient_def)

lemma execute_holds:
  assumes "server_ok cfg bytes0 s" and "client_ok cfg c" and "env_ok e" and "list_all I (sdbs s)"
    and "P n (map Str args)" and "ToUpper n = n"
  shows "guards (execute cfg e n args c s) (\<lambda>(r, c', s'). list_all I (sdbs s') \<and> queue c' = queue c)"
proof -
  obtain d where d: "DB (sdbs s) (dbIndex c) = Some d" "wf_db d" "d \<in> set (sdbs s)"
    using client_db[OF assms(1,2)] nth_mem by blast
  have id: "I d" using assms(4) d(3) by (simp add: list_all_iff)
  have fl: "list_all I (map db_Flush (sdbs s))" using assms(4) by (auto simp: list_all_iff flush)
  have run: "guards (h e (map Str args) d) (\<lambda>p. list_all I ((sdbs s)[nat (dbIndex c) := snd p]))" if "Registry_Get n = Some h" for h
    by (rule guards_mono[OF command[OF that assms(5,6,3) d(2) id]]) (rule list_all_update[OF assms(4)])
  show ?thesis
    using assms(4) d(1) fl
    by (auto simp: execute_def split_beta intro!: guards_mono[OF run] split: option.split)
qed

lemma exec_queue_holds:
  "server_ok cfg bytes0 s \<Longrightarrow> client_ok cfg c \<Longrightarrow> \<forall>i. env_ok (es i) \<Longrightarrow> list_all I (sdbs s) \<Longrightarrow> queued_ok c \<Longrightarrow>
    list_all (\<lambda>q. P (fst q) (map Str (snd q)) \<and> ToUpper (fst q) = fst q) entries \<Longrightarrow>
    guards (exec_queue cfg es i entries c s) (\<lambda>(c', s'). list_all I (sdbs s') \<and> queued_ok c')"
proof (induction cfg es i entries c s rule: exec_queue.induct)
  case (2 cfg es i name args entries c s)
  have e: "env_ok (es i)" using "2.prems"(3) by blast
  have "guards (execute cfg (es i) name args c s) (\<lambda>(r, c', s'). (server_ok cfg bytes0 s' \<and> client_ok cfg c') \<and> list_all I (sdbs s') \<and> queue c' = queue c)"
    using execute_ok[OF "2.prems"(1,2) e, of name args] execute_holds[OF "2.prems"(1,2) e "2.prems"(4), of name args] "2.prems"(6)
    by (cases "execute cfg (es i) name args c s") auto
  then show ?case
    unfolding exec_queue.simps guards_simps
  proof (rule guards_mono)
    fix p :: "resp_value \<times> client \<times> server"
    assume p: "case p of (r, c', s') \<Rightarrow> (server_ok cfg bytes0 s' \<and> client_ok cfg c') \<and> list_all I (sdbs s') \<and> queue c' = queue c"
    obtain r c' s' where e: "p = (r, c', s')" by (cases p) auto
    show "guards (case p of (r, c, s) \<Rightarrow> exec_queue cfg es (Suc i) entries (send (fst (WriteValue r)) c) s)
      (\<lambda>(c', s'). list_all I (sdbs s') \<and> queued_ok c')"
      using p e "2.prems"(3,5,6) unfolding e prod.case by (intro "2.IH") (simp_all add: queued_ok_def)
  qed
qed simp

lemma dispatch_holds:
  assumes "server_ok cfg bytes0 s" and "client_ok cfg c" and "\<forall>i. env_ok (es i)" and "list_all I (sdbs s)" and "queued_ok c"
    and "P n (map Str args)" and "ToUpper n = n"
  shows "guards (dispatch cfg es n args c s) (\<lambda>(x, c', s'). list_all I (sdbs s') \<and> queued_ok c')"
proof -
  have enq: "queued_ok (Enqueue n args c)" using assms(5-7) by (simp add: queued_ok_def Enqueue_def)
  have ex: "guards (go_bind (execute cfg (es 0) n args c s) (\<lambda>(r, c, s). case WriteValue r of (out, good) \<Rightarrow>
      Ret (if good then (False, send out c, s) else (True, c, s)))) (\<lambda>(x, c', s'). list_all I (sdbs s') \<and> queued_ok c')"
    unfolding guards_simps
    by (rule guards_mono[OF execute_holds[OF assms(1,2) spec[OF assms(3), of 0] assms(4,6,7)]])
      (use assms(5) in \<open>auto simp: queued_ok_def split: prod.splits\<close>)
  have "client_ok cfg (send (WriteArrayLen (int (length (queue c)))) (c\<lparr>queue := [], inMulti := False\<rparr>))"
    using assms(2) by (simp add: client_ok_def)
  from exec_queue_holds[OF assms(1) this assms(3,4), of "queue c" 0] assms(5)
  have tr: "guards (execTransaction cfg es c s) (\<lambda>(x, c', s'). list_all I (sdbs s') \<and> queued_ok c')"
    by (auto simp: execTransaction_def FlushQueue_def split_beta queued_ok_def[of c] elim!: guards_mono)
  show ?thesis using assms(4,5) enq ex tr unfolding dispatch_def by simp
qed

lemma step_holds:
  assumes "server_ok cfg bytes0 s" and "event_ok ev" and "holds s" and "handles P s ev"
  shows "guards (server_step cfg ev s) holds"
proof (cases ev)
  case (Ready fd es)
  show ?thesis
  proof (cases "map_of (sclients s) fd")
    case (Some c)
    have ok: "client_ok cfg c" "queued_ok c" using assms(1,3) Some by (auto simp: server_ok_def holds_def)
    have h: "guards (handleClient cfg es fd c s) (\<lambda>(x, c', s'). list_all I (sdbs s') \<and> queued_ok c')"
    proof (cases "ReadValue (reader c)")
      case (Panic m)
      with handleClient_ok[OF assms(1) ok(1), of es fd] assms(2) Ready Some show ?thesis by (simp add: handleClient_def Let_def)
    next
      case (Ret x)
      show ?thesis
      proof (cases x)
        case (Inl err)
        with Ret assms(3) ok show ?thesis by (simp add: handleClient_def Let_def holds_def)
      next
        case (Inr p)
        obtain v rest where p: "p = (v, rest)" by fastforce
        show ?thesis
        proof (cases "ToCommand v")
          case (Inl err)
          with Ret Inr p \<open>x = Inr p\<close> assms(3) ok show ?thesis by (simp add: handleClient_def Let_def holds_def)
        next
          case (Inr q)
          obtain n args where q: "q = (n, args)" by fastforce
          have "P (ToUpper n) (map Str args)" using assms(4) Ready Some Ret \<open>x = Inr p\<close> p Inr q by simp
          with dispatch_holds[OF server_ok_busy[OF assms(1)], of "c\<lparr>reader := rest\<rparr>" es "ToUpper n" args] ok assms(2,3) Ready Ret
            \<open>x = Inr p\<close> p Inr q
          show ?thesis by (simp add: handleClient_def Let_def holds_def)
        qed
      qed
    qed
    have "guards (handleClient cfg es fd c s) (\<lambda>(x, c', s'). list_all I (sdbs s') \<and> queued_ok c' \<and> sclients s' = sclients s)"
      using h handleClient_ok[OF assms(1) ok(1), of es fd] assms(2) Ready Some by (cases "handleClient cfg es fd c s") auto
    with Some Ready assms(1,3) show ?thesis
      by (auto simp: holds_def server_ok_def elim!: guards_mono split: if_splits)
  qed (use Ready assms(3) in simp)
qed (use assms(3) in \<open>auto simp: holds_def split: option.split if_splits\<close>)

lemma runs_hold: "runs P cfg s \<Longrightarrow> 0 < Databases cfg \<Longrightarrow> holds s"
proof (induction rule: runs.induct)
  case (start es s)
  from start_databases[OF start(2,3)] new show ?case by (auto simp: holds_def list_all_iff)
next
  case (step s ev s')
  have "server_ok cfg [] s" by (rule reachable_ok[OF runs_reachable[OF step(1)] step(6)])
  from step_holds[OF this step(2) step(5)[OF step(6)] step(3)] step(4) show ?case by simp
qed

lemma runs_databases: "runs P cfg s \<Longrightarrow> 0 < Databases cfg \<Longrightarrow> d \<in> set (sdbs s) \<Longrightarrow> I d"
  using runs_hold by (auto simp: holds_def list_all_iff)

end

section \<open>The two invariants\<close>

definition no_copy :: "string \<Rightarrow> string list \<Rightarrow> bool" where
  "no_copy n args \<longleftrightarrow> n \<noteq> ''COPY''"

definition no_nan :: "string \<Rightarrow> string list \<Rightarrow> bool" where
  "no_nan n args \<longleftrightarrow> n \<noteq> ''ZINCRBY''
     \<and> (n = ''ZADD'' \<longrightarrow> list_all (\<lambda>w. case parseScore w of None \<Rightarrow> True | Some sc \<Rightarrow> \<not> f_nan sc) args)"

interpretation apart_runs: kept_by_commands apart no_copy
proof unfold_locales
  show "apart newDB" by (simp add: apart_def alone_def refs_def newDB_def)
  show "apart (db_Flush d)" if "apart d" for d by (rule values_apart.inv_Flush[OF that])
  fix n h args e d
  assume "Registry_Get n = Some h" "no_copy n args" "ToUpper n = n" "env_ok e" "wf_db d" "apart d"
  then show "guards (h e args d) (\<lambda>p. apart (snd p))" using registered_apart[of n h] by (simp add: no_copy_def preserves_def)
qed

interpretation in_step_runs: kept_by_commands zsets_ok no_nan
proof unfold_locales
  show "zsets_ok newDB" by (simp add: zsets_ok_def newDB_def)
  show "zsets_ok (db_Flush d)" if "zsets_ok d" for d by (rule zsets_in_step.inv_Flush[OF that])
  fix n h args e d
  assume "Registry_Get n = Some h" "no_nan n args" "ToUpper n = n" "env_ok e" "wf_db d" "zsets_ok d"
  then show "guards (h e args d) (\<lambda>p. zsets_ok (snd p))"
    by (intro registered_in_step) (auto simp: no_nan_def list_all_iff split: option.splits)
qed

end
