(* ===== verification/Cmd_Replay.thy ===== *)
theory Cmd_Replay
  imports Cmd_Invariant
begin

text \<open>
  What a command does when it is executed again from the append-only file, in another
  environment: a later clock, other draws and another order of the maps. The relation \<open>twin\<close>
  holds of two databases that differ in access data, in the order of their maps and in the
  levels of their skip lists only, and in which no key expires. A write command that neither
  reads the clock nor draws what it changes takes twins to twins, whatever the two
  environments (\<open>registered_steady\<close>), so that executing a sequence of such commands again
  gives the same abstract database.
\<close>

section \<open>Twins\<close>

definition same_cell :: "cell \<Rightarrow> cell \<Rightarrow> bool" where
  "same_cell c c' \<longleftrightarrow>
     (case c of
        CSet s \<Rightarrow> \<exists>s'. c' = CSet s' \<and> distinct s \<and> distinct s' \<and> set s = set s'
      | CZSet z \<Rightarrow> \<exists>z' es. c' = CZSet z' \<and> zset_rel z es \<and> zset_rel z' es
      | _ \<Rightarrow> c' = c)"

definition same_object :: "object \<Rightarrow> object \<Rightarrow> bool" where
  "same_object o1 o2 \<longleftrightarrow> oType o1 = oType o2 \<and> oValue o1 = oValue o2 \<and> \<not> oHasExpiry o1 \<and> \<not> oHasExpiry o2"

definition twin :: "db \<Rightarrow> db \<Rightarrow> bool" where
  "twin d d' \<longleftrightarrow> next_ref d = next_ref d' \<and> (\<forall>a. rel_option same_cell (heap d a) (heap d' a))
     \<and> (\<forall>k. rel_option same_object (map_of (dat d) k) (map_of (dat d') k))"

lemma same_cell_simps [simp]:
  "same_cell (CList l) c \<longleftrightarrow> c = CList l" "same_cell (CHash h) c \<longleftrightarrow> c = CHash h"
  "same_cell (CSet s) (CSet s') \<longleftrightarrow> distinct s \<and> distinct s' \<and> set s = set s'"
  "same_cell (CZSet z) (CZSet z') \<longleftrightarrow> (\<exists>es. zset_rel z es \<and> zset_rel z' es)"
  by (auto simp: same_cell_def)

lemma same_cell_type: "same_cell c c' \<Longrightarrow> cell_type c' = cell_type c"
  by (cases c) (auto simp: same_cell_def)

lemma same_cell_view:
  assumes "same_cell c c'"
  shows "cell_view c' = cell_view c"
proof (cases c)
  case (CZSet z)
  with assms obtain z' es where "c' = CZSet z'" "zset_rel z es" "zset_rel z' es" by (auto simp: same_cell_def)
  then show ?thesis using CZSet ZSet_Score_rel[of z es] ZSet_Score_rel[of z' es] by (auto simp: ZSet_Score_def fun_eq_iff)
qed (use assms in \<open>auto simp: same_cell_def\<close>)

lemma twinD:
  assumes "twin d d'"
  shows "next_ref d' = next_ref d" and "rel_option same_cell (heap d a) (heap d' a)"
    and "rel_option same_object (map_of (dat d) k) (map_of (dat d') k)"
  using assms by (simp_all add: twin_def)

text \<open>Twins have the same abstract database at any time.\<close>

lemma twin_keyspace:
  assumes "twin d d'"
  shows "keyspace e d' = keyspace e' d"
proof
  fix k
  have "val_view (heap d') v = val_view (heap d) v" for v
  proof (cases v)
    case (VRef a)
    then show ?thesis using twinD(2)[OF assms, of a] same_cell_view by (auto simp: val_view_def option_rel_Some1 elim!: option.rel_cases)
  qed simp
  then show "keyspace e d' k = keyspace e' d k"
    using twinD(3)[OF assms, of k]
    by (auto simp: keyspace_def obj_view_def same_object_def IsExpired_def elim!: option.rel_cases)
qed

section \<open>Executing again\<close>

text \<open>\<open>alike m m' Q\<close>: when \<open>m\<close> returns, so does \<open>m'\<close>, and \<open>Q\<close> relates the results.\<close>

definition alike :: "'a go \<Rightarrow> 'b go \<Rightarrow> ('a \<Rightarrow> 'b \<Rightarrow> bool) \<Rightarrow> bool" where
  "alike m m' Q \<longleftrightarrow> (\<forall>x. m = Ret x \<longrightarrow> (\<exists>y. m' = Ret y \<and> Q x y))"

lemma alike_simps [simp]:
  "alike (Ret x) (Ret y) Q = Q x y" "alike (Panic msg) m' Q"
  by (simp_all add: alike_def)

lemma alike_bind: "alike m m' (\<lambda>x y. alike (f x) (g y) Q) \<Longrightarrow> alike (go_bind m f) (go_bind m' g) Q"
  by (cases m) (auto simp: alike_def)

lemma alike_same: "(\<And>x. m = Ret x \<Longrightarrow> alike (f x) (g x) Q) \<Longrightarrow> alike (go_bind m f) (go_bind m g) Q"
  by (cases m) simp_all

definition tracks :: "(resp_value \<times> db) go \<Rightarrow> (resp_value \<times> db) go \<Rightarrow> bool" where
  "tracks m m' \<longleftrightarrow> alike m m' (\<lambda>p p'. twin (snd p) (snd p'))"

definition steady :: "(string list \<Rightarrow> bool) \<Rightarrow> handler \<Rightarrow> bool" where
  "steady P h \<longleftrightarrow> (\<forall>e e' args d d'. P args \<longrightarrow> env_ok e \<longrightarrow> env_ok e' \<longrightarrow> twin d d' \<longrightarrow> tracks (h e args d) (h e' args d'))"

lemma steadyI:
  "(\<And>e e' args d d'. P args \<Longrightarrow> env_ok e \<Longrightarrow> env_ok e' \<Longrightarrow> twin d d' \<Longrightarrow> tracks (h e args d) (h e' args d')) \<Longrightarrow> steady P h"
  by (simp add: steady_def)

lemma tracks_simps [simp]:
  "tracks (Ret (r, d)) (Ret (r', d')) = twin d d'" "tracks (Panic msg) m'"
  by (simp_all add: tracks_def)

lemma tracks_same: "(\<And>x. m = Ret x \<Longrightarrow> tracks (f x) (g x)) \<Longrightarrow> tracks (go_bind m f) (go_bind m g)"
  unfolding tracks_def by (rule alike_same)

text \<open>A helper with an early return.\<close>

lemma tracks_or_reply:
  assumes "alike m m' (\<lambda>(r, d) (r', d'). case r of
      Inl err \<Rightarrow> r' = Inl err \<and> twin d d'
    | Inr x \<Rightarrow> (\<exists>x'. r' = Inr x' \<and> tracks (f x d) (g x' d')))"
  shows "tracks (or_reply m f) (or_reply m' g)"
proof (cases m)
  case (Ret p)
  obtain r d where p: "p = (r, d)" by fastforce
  with assms Ret obtain r' d' where m': "m' = Ret (r', d')"
    "case r of Inl err \<Rightarrow> r' = Inl err \<and> twin d d' | Inr x \<Rightarrow> (\<exists>x'. r' = Inr x' \<and> tracks (f x d) (g x' d'))"
    by (auto simp: alike_def)
  with Ret p show ?thesis by (cases r) (auto simp: or_reply_def)
qed (simp add: or_reply_def)

section \<open>The operations of a database\<close>

lemma twin_dat:
  assumes "twin d d'" and "heap d1 = heap d" and "heap d1' = heap d'" and "next_ref d1 = next_ref d" and "next_ref d1' = next_ref d'"
    and "\<And>k. rel_option same_object (map_of (dat d1) k) (map_of (dat d1') k)"
  shows "twin d1 d1'"
  using assms by (simp add: twin_def)

text \<open>A lookup: no key is expired, so it finds the same object, but for the access data.\<close>

lemma tw_lookup:
  assumes "twin d d'"
    and "alike (f None d) (g None d') Q"
    and "\<And>o1 o2 d1 d1'. twin d1 d1' \<Longrightarrow> oType o2 = oType o1 \<Longrightarrow> oValue o2 = oValue o1 \<Longrightarrow> \<not> oHasExpiry o1 \<Longrightarrow> \<not> oHasExpiry o2 \<Longrightarrow>
      alike (f (Some o1) d1) (g (Some o2) d1') Q"
  shows "alike (case_prod f (db_Get e k d)) (case_prod g (db_Get e' k d')) Q"
proof (cases "map_of (dat d) k")
  case None
  with twinD(3)[OF assms(1), of k] have "map_of (dat d') k = None" by simp
  with None assms(2) show ?thesis by (simp add: db_Get_def)
next
  case (Some o1)
  with twinD(3)[OF assms(1), of k] obtain o2 where o2: "map_of (dat d') k = Some o2" "same_object o1 o2"
    by (auto simp: option_rel_Some1)
  have x: "\<not> IsExpired e o1" "\<not> IsExpired e' o2" using o2(2) by (simp_all add: same_object_def IsExpired_def)
  have "same_object (Touch e o1) (Touch e' o2)" using o2(2) by (simp add: same_object_def Touch_def)
  then have "twin (d\<lparr>dat := AList.update k (Touch e o1) (dat d)\<rparr>) (d'\<lparr>dat := AList.update k (Touch e' o2) (dat d')\<rparr>)"
    using twinD(3)[OF assms(1)] by (intro twin_dat[OF assms(1)]) (simp_all add: update_conv')
  then have "alike (f (Some (Touch e o1)) (d\<lparr>dat := AList.update k (Touch e o1) (dat d)\<rparr>))
      (g (Some (Touch e' o2)) (d'\<lparr>dat := AList.update k (Touch e' o2) (dat d')\<rparr>)) Q"
    using o2(2) by (intro assms(3)) (simp_all add: same_object_def Touch_def)
  with o2(1) Some x show ?thesis by (simp add: db_Get_def)
qed

lemma tw_get:
  assumes "twin d d'" and "tracks (f None d) (g None d')"
    and "\<And>o1 o2 d1 d1'. twin d1 d1' \<Longrightarrow> oType o2 = oType o1 \<Longrightarrow> oValue o2 = oValue o1 \<Longrightarrow> \<not> oHasExpiry o1 \<Longrightarrow> \<not> oHasExpiry o2 \<Longrightarrow>
      tracks (f (Some o1) d1) (g (Some o2) d1')"
  shows "tracks (case_prod f (db_Get e k d)) (case_prod g (db_Get e' k d'))"
  using assms unfolding tracks_def by (rule tw_lookup)

lemma tw_Set:
  assumes "twin d d'" and "oType o2 = oType o1" and "oValue o2 = oValue o1" and "\<not> oHasExpiry o1" and "\<not> oHasExpiry o2"
  shows "twin (db_Set e k o1 d) (db_Set e' k o2 d')"
  using twinD(3)[OF assms(1)] assms(2-)
  by (intro twin_dat[OF assms(1)]) (simp_all add: db_Set_def update_conv' same_object_def)

lemma tw_Del: "twin d d' \<Longrightarrow> twin (snd (db_Del ks d)) (snd (db_Del ks d'))"
proof (induction ks arbitrary: d d')
  case (Cons k ks)
  have "(map_of (dat d') k = None) = (map_of (dat d) k = None)" using twinD(3)[OF Cons.prems, of k] by (auto elim: option.rel_cases)
  moreover have "twin (d\<lparr>dat := AList.delete k (dat d)\<rparr>) (d'\<lparr>dat := AList.delete k (dat d')\<rparr>)"
    using twinD(3)[OF Cons.prems] by (intro twin_dat[OF Cons.prems]) (simp_all add: delete_conv')
  ultimately show ?case using Cons.IH Cons.prems by (auto simp: split_beta)
qed simp

lemma tw_drop: "twin d d' \<Longrightarrow> twin (drop_empty k b d) (drop_empty k b d')"
  by (simp add: drop_empty_def tw_Del del: db_Del.simps)

lemma tw_put: "twin d d' \<Longrightarrow> same_cell c c' \<Longrightarrow> twin (put_cell a c d) (put_cell a c' d')"
  by (simp add: twin_def)

lemma tw_new:
  assumes "twin d d'" and "same_cell c c'"
  shows "twin (d\<lparr>heap := (heap d)(next_ref d \<mapsto> c), next_ref := Suc (next_ref d)\<rparr>)
    (d'\<lparr>heap := (heap d')(next_ref d' \<mapsto> c'), next_ref := Suc (next_ref d')\<rparr>)"
  using assms by (simp add: twin_def)

lemma tw_Flush: "twin d d' \<Longrightarrow> twin (db_Flush d) (db_Flush d')"
  by (simp add: twin_def db_Flush_def)

lemma tw_RemoveExpiry: "twin d d' \<Longrightarrow> twin (snd (db_RemoveExpiry k d)) (snd (db_RemoveExpiry k d'))"
proof -
  assume t: "twin d d'"
  show ?thesis
  proof (cases "map_of (dat d) k")
    case None
    with twinD(3)[OF t, of k] t show ?thesis by (simp add: db_RemoveExpiry_def)
  next
    case (Some o1)
    with twinD(3)[OF t, of k] obtain o2 where o2: "map_of (dat d') k = Some o2" "same_object o1 o2" by (auto simp: option_rel_Some1)
    with Some twinD(3)[OF t] show ?thesis
      by (intro twin_dat[OF t]) (simp_all add: db_RemoveExpiry_def update_conv' same_object_def)
  qed
qed

lemma tw_live: "twin d d' \<Longrightarrow> live e' d' k = live e d k"
  using twinD(3)[of d d' k] by (auto simp: live_def same_object_def IsExpired_def elim!: option.rel_cases)

lemma tw_Exists: "twin d d' \<Longrightarrow> db_Exists e' ks d' = db_Exists e ks d"
proof -
  assume "twin d d'"
  then have "live e' d' = live e d" by (intro ext tw_live)
  then show ?thesis by (simp add: db_Exists_def)
qed

lemma tw_Rename: "twin d d' \<Longrightarrow> twin (snd (db_Rename e src dst d)) (snd (db_Rename e' src dst d'))"
proof -
  assume t: "twin d d'"
  show ?thesis
  proof (cases "map_of (dat d) src")
    case None
    with twinD(3)[OF t, of src] t show ?thesis by (simp add: db_Rename_def)
  next
    case (Some o1)
    with twinD(3)[OF t, of src] obtain o2 where o2: "map_of (dat d') src = Some o2" "same_object o1 o2" by (auto simp: option_rel_Some1)
    then have "\<not> IsExpired e o1" "\<not> IsExpired e' o2" by (simp_all add: same_object_def IsExpired_def)
    with Some o2 twinD(3)[OF t] show ?thesis
      by (intro twin_dat[OF t]) (simp_all add: db_Rename_def update_conv' delete_conv')
  qed
qed

lemma tw_present:
  assumes "twin d d'" and "\<And>b d1 d1'. twin d1 d1' \<Longrightarrow> tracks (f b d1) (g b d1')"
  shows "tracks (case_prod f (present e k d)) (case_prod g (present e' k d'))"
proof -
  have "tracks (case_prod (\<lambda>r. f (r \<noteq> None)) (db_Get e k d)) (case_prod (\<lambda>r. g (r \<noteq> None)) (db_Get e' k d'))"
    by (rule tw_get[OF assms(1)]) (simp_all add: assms)
  then show ?thesis by (simp add: present_def split_beta)
qed

section \<open>The containers\<close>

lemma tw_assert:
  assumes "twin d d'"
    and "\<And>a c c'. heap d a = Some c \<Longrightarrow> heap d' a = Some c' \<Longrightarrow> same_cell c c' \<Longrightarrow> cell_type c = tag \<Longrightarrow> alike (f a) (g a) Q"
  shows "alike (go_bind (assert_cell tag d v) f) (go_bind (assert_cell tag d' v) g) Q"
proof (cases v)
  case (VRef a)
  with twinD(2)[OF assms(1), of a] assms(2)[of a] same_cell_type show ?thesis
    by (auto simp: assert_cell_def elim!: option.rel_cases)
qed (simp add: assert_cell_def)

lemma tw_get_value:
  assumes "twin d d'"
    and "\<And>d d'. twin d d' \<Longrightarrow> Q (Inl wrongTypeErr, d) (Inl wrongTypeErr, d')"
    and "\<And>d d'. twin d d' \<Longrightarrow> Q (Inr None, d) (Inr None, d')"
    and "\<And>d d' a c c'. twin d d' \<Longrightarrow> heap d a = Some c \<Longrightarrow> heap d' a = Some c' \<Longrightarrow> same_cell c c' \<Longrightarrow> cell_type c = tag \<Longrightarrow>
      Q (Inr (Some a), d) (Inr (Some a), d')"
  shows "alike (get_value tag e k d) (get_value tag e' k d') Q"
  unfolding get_value_def
proof (rule tw_lookup[OF assms(1)], goal_cases)
  case 1
  show ?case using assms(1,3) by simp
next
  case (2 o1 o2 d1 d1')
  with assms(2,4) show ?case by (auto intro!: tw_assert)
qed

lemma tw_get_or_create:
  assumes "twin d d'" and "same_cell init init" and "cell_type init = tag"
    and "\<And>d d'. twin d d' \<Longrightarrow> Q (Inl wrongTypeErr, d) (Inl wrongTypeErr, d')"
    and "\<And>d d' a c c'. twin d d' \<Longrightarrow> heap d a = Some c \<Longrightarrow> heap d' a = Some c' \<Longrightarrow> same_cell c c' \<Longrightarrow> cell_type c = tag \<Longrightarrow>
      Q (Inr a, d) (Inr a, d')"
  shows "alike (get_or_create tag init e k d) (get_or_create tag init e' k d') Q"
  unfolding get_or_create_def
proof (rule tw_lookup[OF assms(1)], goal_cases)
  case 1
  have "twin (db_Set e k (new_object tag (VRef (next_ref d))) (d\<lparr>heap := (heap d)(next_ref d \<mapsto> init), next_ref := Suc (next_ref d)\<rparr>))
      (db_Set e' k (new_object tag (VRef (next_ref d))) (d'\<lparr>heap := (heap d')(next_ref d' \<mapsto> init), next_ref := Suc (next_ref d')\<rparr>))"
    by (intro tw_Set tw_new assms(1,2)) (simp_all add: new_object_def)
  from assms(5)[OF this, of "next_ref d" init init] assms(2,3) twinD(1)[OF assms(1)] show ?case
    by (simp add: new_cell_def db_Set_def)
next
  case (2 o1 o2 d1 d1')
  with assms(4,5) show ?case by (auto intro!: tw_assert)
qed

text \<open>A container command goes on with a pointer, behind which both databases have the same
  value: the same list or hash, the same members, the same entries.\<close>

lemma tw_get_then:
  assumes "twin d d'"
    and "\<And>d d'. twin d d' \<Longrightarrow> tracks (f None d) (g None d')"
    and "\<And>d d' a c c'. twin d d' \<Longrightarrow> heap d a = Some c \<Longrightarrow> heap d' a = Some c' \<Longrightarrow> same_cell c c' \<Longrightarrow> cell_type c = tag \<Longrightarrow>
      tracks (f (Some a) d) (g (Some a) d')"
  shows "tracks (or_reply (get_value tag e k d) f) (or_reply (get_value tag e' k d') g)"
  by (rule tracks_or_reply, rule tw_get_value[OF assms(1)]) (simp_all add: assms(2,3))

lemma tw_create_then:
  assumes "twin d d'" and "same_cell init init" and "cell_type init = tag"
    and "\<And>d d' a c c'. twin d d' \<Longrightarrow> heap d a = Some c \<Longrightarrow> heap d' a = Some c' \<Longrightarrow> same_cell c c' \<Longrightarrow> cell_type c = tag \<Longrightarrow>
      tracks (f a d) (g a d')"
  shows "tracks (or_reply (get_or_create tag init e k d) f) (or_reply (get_or_create tag init e' k d') g)"
  by (rule tracks_or_reply, rule tw_get_or_create[OF assms(1-3)]) (simp_all add: assms(4))

lemma same_at:
  assumes "heap d a = Some c" and "heap d' a = Some c'" and "same_cell c c'"
  shows "cell_type c = TypeList \<Longrightarrow> list_at d' a = list_at d a"
    and "cell_type c = TypeHash \<Longrightarrow> hash_at d' a = hash_at d a"
    and "cell_type c = TypeSet \<Longrightarrow> same_cell (CSet (set_at d a)) (CSet (set_at d' a))"
    and "cell_type c = TypeZSet \<Longrightarrow> same_cell (CZSet (zset_at d a)) (CZSet (zset_at d' a))"
  using assms by (fastforce simp: at_defs cell_type_iff same_cell_def)+

lemma tw_getList:
  assumes "twin d d'" and "\<And>d d'. twin d d' \<Longrightarrow> tracks (f None d) (g None d')"
    and "\<And>d d' a. twin d d' \<Longrightarrow> list_at d' a = list_at d a \<Longrightarrow> tracks (f (Some a) d) (g (Some a) d')"
  shows "tracks (or_reply (getList e k d) f) (or_reply (getList e' k d') g)"
  unfolding getList_def by (rule tw_get_then[OF assms(1)]) (blast intro: assms(2,3) same_at)+

lemma tw_getHash:
  assumes "twin d d'" and "\<And>d d'. twin d d' \<Longrightarrow> tracks (f None d) (g None d')"
    and "\<And>d d' a. twin d d' \<Longrightarrow> hash_at d' a = hash_at d a \<Longrightarrow> tracks (f (Some a) d) (g (Some a) d')"
  shows "tracks (or_reply (getHash e k d) f) (or_reply (getHash e' k d') g)"
  unfolding getHash_def by (rule tw_get_then[OF assms(1)]) (blast intro: assms(2,3) same_at)+

lemma tw_getSet:
  assumes "twin d d'" and "\<And>d d'. twin d d' \<Longrightarrow> tracks (f None d) (g None d')"
    and "\<And>d d' a. twin d d' \<Longrightarrow> same_cell (CSet (set_at d a)) (CSet (set_at d' a)) \<Longrightarrow> tracks (f (Some a) d) (g (Some a) d')"
  shows "tracks (or_reply (getSet e k d) f) (or_reply (getSet e' k d') g)"
  unfolding getSet_def by (rule tw_get_then[OF assms(1)]) (blast intro: assms(2,3) same_at)+

lemma tw_getZSet:
  assumes "twin d d'" and "\<And>d d'. twin d d' \<Longrightarrow> tracks (f None d) (g None d')"
    and "\<And>d d' a. twin d d' \<Longrightarrow> same_cell (CZSet (zset_at d a)) (CZSet (zset_at d' a)) \<Longrightarrow> tracks (f (Some a) d) (g (Some a) d')"
  shows "tracks (or_reply (getZSet e k d) f) (or_reply (getZSet e' k d') g)"
  unfolding getZSet_def by (rule tw_get_then[OF assms(1)]) (blast intro: assms(2,3) same_at)+

lemma tw_createList:
  assumes "twin d d'" and "\<And>d d' a. twin d d' \<Longrightarrow> list_at d' a = list_at d a \<Longrightarrow> tracks (f a d) (g a d')"
  shows "tracks (or_reply (getOrCreateList e k d) f) (or_reply (getOrCreateList e' k d') g)"
  unfolding getOrCreateList_def by (rule tw_create_then[OF assms(1)], simp, simp) (blast intro: assms(2) same_at)

lemma tw_createHash:
  assumes "twin d d'" and "\<And>d d' a. twin d d' \<Longrightarrow> hash_at d' a = hash_at d a \<Longrightarrow> tracks (f a d) (g a d')"
  shows "tracks (or_reply (getOrCreateHash e k d) f) (or_reply (getOrCreateHash e' k d') g)"
  unfolding getOrCreateHash_def by (rule tw_create_then[OF assms(1)], simp, simp) (blast intro: assms(2) same_at)

lemma tw_createSet:
  assumes "twin d d'"
    and "\<And>d d' a. twin d d' \<Longrightarrow> same_cell (CSet (set_at d a)) (CSet (set_at d' a)) \<Longrightarrow> tracks (f a d) (g a d')"
  shows "tracks (or_reply (getOrCreateSet e k d) f) (or_reply (getOrCreateSet e' k d') g)"
  unfolding getOrCreateSet_def by (rule tw_create_then[OF assms(1)], simp, simp) (blast intro: assms(2) same_at)

lemma tw_createZSet:
  assumes "twin d d'"
    and "\<And>d d' a. twin d d' \<Longrightarrow> same_cell (CZSet (zset_at d a)) (CZSet (zset_at d' a)) \<Longrightarrow> tracks (f a d) (g a d')"
  shows "tracks (or_reply (getOrCreateZSet e k d) f) (or_reply (getOrCreateZSet e' k d') g)"
  unfolding getOrCreateZSet_def
  by (rule tw_create_then[OF assms(1)], (use zset_rel_New in auto)[1], simp) (blast intro: assms(2) same_at)

lemmas tw_containers = tw_getList tw_getHash tw_getSet tw_getZSet tw_createList tw_createHash tw_createSet tw_createZSet

section \<open>Commands on strings\<close>

lemma tw_string: "twin d d' \<Longrightarrow> twin (db_Set e k (string_object s) d) (db_Set e' k (string_object s) d')"
  by (rule tw_Set) (simp_all add: string_object_def new_object_def)

lemma tw_mset_loop: "twin d d' \<Longrightarrow> twin (mset_loop e args d) (mset_loop e' args d')"
  by (induction e args d arbitrary: d' rule: mset_loop.induct) (simp_all add: tw_string)

lemma tw_msetnx_check:
  assumes "twin d d'" and "\<And>b d1 d1'. twin d1 d1' \<Longrightarrow> tracks (f b d1) (g b d1')"
  shows "tracks (case_prod f (msetnx_check e args d)) (case_prod g (msetnx_check e' args d'))"
  using assms(1)
proof (induction args arbitrary: d d' rule: induct_list012)
  case (3 k v rest)
  have "tracks (case present e k d of (found, d) \<Rightarrow> case_prod f (if found then (True, d) else msetnx_check e rest d))
    (case present e' k d' of (found, d') \<Rightarrow> case_prod g (if found then (True, d') else msetnx_check e' rest d'))"
    by (rule tw_present[OF "3.prems"]) (simp add: 3 assms(2))
  then show ?case by (simp add: split_beta)
qed (simp_all add: assms(2))

lemma steady_incrBy: "steady (\<lambda>args. True) (incrBy n)"
  by (rule steadyI) (auto simp: incrBy_def Let_def intro!: tw_get tracks_same tw_string split: option.split sum.split)

text \<open>The options of \<open>SET\<close> that set an expiry.\<close>

definition set_times :: "string list" where "set_times = [''EX'', ''PX'', ''EXAT'', ''PXAT'']"

lemma set_options_untimed:
  "list_all (\<lambda>w. ToUpper w \<notin> set set_times) ws \<Longrightarrow> set_options e ws o1 = set_options e' ws o1"
  "list_all (\<lambda>w. ToUpper w \<notin> set set_times) ws \<Longrightarrow> \<not> soHasExpiry o1 \<Longrightarrow> set_options e ws o1 = Inr o2 \<Longrightarrow> \<not> soHasExpiry o2"
proof -
  show "list_all (\<lambda>w. ToUpper w \<notin> set set_times) ws \<Longrightarrow> set_options e ws o1 = set_options e' ws o1"
    by (induction ws arbitrary: o1) (simp_all add: set_times_def Let_def)
  show "list_all (\<lambda>w. ToUpper w \<notin> set set_times) ws \<Longrightarrow> \<not> soHasExpiry o1 \<Longrightarrow> set_options e ws o1 = Inr o2 \<Longrightarrow> \<not> soHasExpiry o2"
    by (induction ws arbitrary: o1) (fastforce simp: set_times_def Let_def split: if_splits)+
qed

lemma steady_set: "steady (\<lambda>args. list_all (\<lambda>w. ToUpper w \<notin> set set_times) (drop 2 args)) cmdSet"
proof (rule steadyI)
  fix e e' args d d'
  assume w: "list_all (\<lambda>w. ToUpper w \<notin> set set_times) (drop 2 args)" and t: "twin d d'"
  note same = set_options_untimed(1)[OF w, of e' no_opts e]
  show "tracks (cmdSet e args d) (cmdSet e' args d')"
  proof (cases "set_options e (drop 2 args) no_opts")
    case (Inr o1)
    with set_options_untimed(2)[OF w, of no_opts e o1] have n: "\<not> soHasExpiry o1" by (simp add: no_opts_def)
    have s: "twin d1 d1' \<Longrightarrow> twin (db_Set e k ((string_object s)\<lparr>oHasExpiry := soHasExpiry o1, oExpiry := x\<rparr>) d1)
        (db_Set e' k ((string_object s)\<lparr>oHasExpiry := soHasExpiry o1, oExpiry := x\<rparr>) d1')" for d1 d1' k s x
      using n by (intro tw_Set) simp_all
    show ?thesis using t by (cases "soNX o1"; cases "soXX o1") (auto simp: cmdSet_def Let_def Inr same intro!: tw_present s)
  qed (simp add: cmdSet_def same t)
qed

lemma steady_string:
  "steady (\<lambda>args. True) cmdGetSet" "steady (\<lambda>args. True) cmdGetDel" "steady (\<lambda>args. True) cmdMSet" "steady (\<lambda>args. True) cmdSetNX"
  "steady (\<lambda>args. True) cmdMSetNX" "steady (\<lambda>args. True) cmdIncr" "steady (\<lambda>args. True) cmdDecr" "steady (\<lambda>args. True) cmdIncrBy"
  "steady (\<lambda>args. True) cmdDecrBy" "steady (\<lambda>args. True) cmdIncrByFloat" "steady (\<lambda>args. True) cmdAppend" "steady (\<lambda>args. True) cmdSetRange"
proof -
  show "steady (\<lambda>args. True) cmdGetSet" "steady (\<lambda>args. True) cmdGetDel"
    by (rule steadyI, auto simp: cmdGetSet_def cmdGetDel_def Let_def simp del: db_Del.simps
        intro!: tw_get tracks_same tw_string tw_Del)+
  show "steady (\<lambda>args. True) cmdMSet" by (rule steadyI) (auto simp: cmdMSet_def tw_mset_loop)
  show "steady (\<lambda>args. True) cmdSetNX" by (rule steadyI) (auto simp: cmdSetNX_def intro!: tw_present tw_string)
  show "steady (\<lambda>args. True) cmdMSetNX" by (rule steadyI) (auto simp: cmdMSetNX_def intro!: tw_msetnx_check tw_mset_loop)
  show "steady (\<lambda>args. True) cmdIncr" "steady (\<lambda>args. True) cmdDecr" by (simp_all add: cmdIncr_def cmdDecr_def steady_incrBy)
  show "steady (\<lambda>args. True) cmdIncrBy" "steady (\<lambda>args. True) cmdDecrBy"
    using steady_incrBy by (auto simp: steady_def cmdIncrBy_def cmdDecrBy_def split: option.split)
  show "steady (\<lambda>args. True) cmdIncrByFloat"
    by (rule steadyI) (auto simp: cmdIncrByFloat_def Let_def intro!: tw_get tracks_same tw_string split: option.split sum.split)
  show "steady (\<lambda>args. True) cmdAppend" "steady (\<lambda>args. True) cmdSetRange"
    by (rule steadyI, auto simp: cmdAppend_def cmdSetRange_def string_or_empty_def Let_def
        intro!: tw_get tracks_same tw_string split: option.split sum.split)+
qed

section \<open>Commands on lists and hashes\<close>

lemma tw_list: "twin d d' \<Longrightarrow> twin (put_cell a (CList l) d) (put_cell a (CList l) d')"
  by (rule tw_put) simp_all

lemma tw_hash: "twin d d' \<Longrightarrow> twin (put_cell a (CHash h) d) (put_cell a (CHash h) d')"
  by (rule tw_put) simp_all

lemma tw_pop:
  assumes "twin d d'" and "list_at d' a = list_at d a"
  shows "tracks (pop_many pop k n a d) (pop_many pop k n a d')" and "tracks (pop_one pop k a d) (pop_one pop k a d')"
  using assms by (auto simp: pop_many_def pop_one_def Let_def split_beta intro!: tracks_same tw_drop tw_list)

lemma steady_list:
  "steady (\<lambda>args. True) cmdLPush" "steady (\<lambda>args. True) cmdRPush" "steady (\<lambda>args. True) cmdLPushX" "steady (\<lambda>args. True) cmdRPushX"
  "steady (\<lambda>args. True) cmdLPop" "steady (\<lambda>args. True) cmdRPop" "steady (\<lambda>args. True) cmdLSet" "steady (\<lambda>args. True) cmdLInsert"
  "steady (\<lambda>args. True) cmdLRem" "steady (\<lambda>args. True) cmdLTrim" "steady (\<lambda>args. True) cmdRPopLPush" "steady (\<lambda>args. True) cmdLMove"
proof -
  show "steady (\<lambda>args. True) cmdLPush" "steady (\<lambda>args. True) cmdRPush" "steady (\<lambda>args. True) cmdLPushX" "steady (\<lambda>args. True) cmdRPushX"
    by (rule steadyI, auto simp: cmdLPush_def cmdRPush_def cmdLPushX_def cmdRPushX_def Let_def
        simp del: LPush.simps RPush.simps intro!: tw_containers tw_list)+
  show "steady (\<lambda>args. True) cmdLPop" "steady (\<lambda>args. True) cmdRPop"
    by (rule steadyI, auto simp: cmdLPop_def cmdRPop_def intro!: tw_containers tw_pop split: sum.split option.split)+
  show "steady (\<lambda>args. True) cmdLSet" "steady (\<lambda>args. True) cmdLInsert" "steady (\<lambda>args. True) cmdLRem" "steady (\<lambda>args. True) cmdLTrim"
    by (rule steadyI, auto simp: cmdLSet_def cmdLInsert_def cmdLRem_def cmdLTrim_def Let_def split_beta
        intro!: tw_containers tw_list tw_drop split: option.split)+
  show "steady (\<lambda>args. True) cmdRPopLPush" "steady (\<lambda>args. True) cmdLMove"
    by (rule steadyI, auto simp: cmdRPopLPush_def cmdLMove_def Let_def simp del: LPush.simps RPush.simps
        intro!: tw_containers tw_list tw_drop split: option.split prod.split)+
qed

lemma steady_hash:
  "steady (\<lambda>args. True) cmdHSet" "steady (\<lambda>args. True) cmdHMSet" "steady (\<lambda>args. True) cmdHSetNX" "steady (\<lambda>args. True) cmdHDel"
  "steady (\<lambda>args. True) cmdHIncrBy" "steady (\<lambda>args. True) cmdHIncrByFloat"
  by (rule steadyI, auto simp: cmdHSet_def cmdHMSet_def cmdHSetNX_def cmdHDel_def cmdHIncrBy_def cmdHIncrByFloat_def need_int_def
      split_beta Let_def intro!: tw_containers tw_hash tw_drop split: option.split)+

section \<open>Commands on sets\<close>

lemma tw_set:
  "twin d d' \<Longrightarrow> distinct s \<Longrightarrow> distinct s' \<Longrightarrow> set s = set s' \<Longrightarrow> twin (put_cell a (CSet s) d) (put_cell a (CSet s') d')"
  by (rule tw_put) simp_all

lemma sadd_loop_set: "set (snd (sadd_loop ms n s)) = set ms \<union> set s"
  by (induction ms n s rule: sadd_loop.induct) auto

lemma srem_loop_set: "set (snd (srem_loop ms n s)) = set s - set ms"
  by (induction ms n s rule: srem_loop.induct) auto

lemma same_Nil: "set s = set s' \<Longrightarrow> (s' = []) = (s = [])"
  by auto

lemma steady_members: "steady (\<lambda>args. True) cmdSAdd" "steady (\<lambda>args. True) cmdSRem" "steady (\<lambda>args. True) cmdSMove"
proof -
  show "steady (\<lambda>args. True) cmdSAdd"
    by (rule steadyI) (auto simp: cmdSAdd_def split_beta sadd_loop_set sadd_loop_wf intro!: tw_createSet tw_set)
  show "steady (\<lambda>args. True) cmdSRem"
  proof (rule steadyI)
    fix e e' args d d' assume t: "twin d d'"
    have same: "twin (drop_empty k (snd (srem_loop ms 0 s) = []) (put_cell a (CSet (snd (srem_loop ms 0 s))) d1))
        (drop_empty k (snd (srem_loop ms 0 s') = []) (put_cell a (CSet (snd (srem_loop ms 0 s'))) d1'))"
      if "twin d1 d1'" "same_cell (CSet s) (CSet s')" for d1 d1' s s' a k ms
      using that same_Nil[of "snd (srem_loop ms 0 s)" "snd (srem_loop ms 0 s')"]
      by (auto simp: srem_loop_set srem_loop_wf intro!: tw_drop tw_set)
    show "tracks (cmdSRem e args d) (cmdSRem e' args d')"
      using t by (auto simp: cmdSRem_def split_beta simp del: same_cell_simps intro!: tw_getSet same)
  qed
  show "steady (\<lambda>args. True) cmdSMove"
  proof (rule steadyI)
    fix e e' args d d' assume t: "twin d d'"
    have same: "twin (drop_empty k (set_delete m s = []) (put_cell a (CSet (set_delete m s)) d1))
        (drop_empty k (set_delete m s' = []) (put_cell a (CSet (set_delete m s')) d1'))"
      if "twin d1 d1'" "same_cell (CSet s) (CSet s')" for d1 d1' s s' a k m
      using that same_Nil[of "set_delete m s" "set_delete m s'"] by (auto intro!: tw_drop tw_set)
    have mem: "set s' = set s" if "same_cell (CSet s) (CSet s')" for s s' using that by simp
    show "tracks (cmdSMove e args d) (cmdSMove e' args d')"
      using t by (auto simp: cmdSMove_def Let_def dest: mem intro!: tw_getSet tw_createSet same tw_put)
  qed
qed

text \<open>The sets of several keys are the same up to the order of their members.\<close>

definition same_sets :: "string list list \<Rightarrow> string list list \<Rightarrow> bool" where
  "same_sets ss ss' \<longleftrightarrow> map set ss = map set ss'"

lemma tw_collectSets:
  assumes "twin d d'"
    and "\<And>d d'. twin d d' \<Longrightarrow> Q (Inl wrongTypeErr, d) (Inl wrongTypeErr, d')"
    and "\<And>d d' ss ss'. twin d d' \<Longrightarrow> same_sets ss ss' \<Longrightarrow> Q (Inr ss, d) (Inr ss', d')"
  shows "alike (collectSets e ks d) (collectSets e' ks d') Q"
  using assms
proof (induction ks arbitrary: d d' Q)
  case Nil
  then show ?case by (simp add: same_sets_def)
next
  case (Cons k ks)
  have rest: "alike (go_bind (collectSets e ks d1) (\<lambda>(r, d). case r of Inl err \<Rightarrow> Ret (Inl err, d) | Inr sets \<Rightarrow> Ret (Inr (s # sets), d)))
      (go_bind (collectSets e' ks d1') (\<lambda>(r, d). case r of Inl err \<Rightarrow> Ret (Inl err, d) | Inr sets \<Rightarrow> Ret (Inr (s' # sets), d))) Q"
    if "twin d1 d1'" "set s = set s'" for d1 d1' s s'
    using Cons.prems(2,3) that(2) by (intro alike_bind Cons.IH[OF that(1)]) (simp_all add: same_sets_def)
  show ?case
    unfolding collectSets.simps getSet_def Let_def
  proof (rule alike_bind, rule tw_get_value[OF Cons.prems(1)], goal_cases)
    case (3 d1 d1' a c c')
    then have "set (set_at d1 a) = set (set_at d1' a)" using same_at(3)[of d1 a c d1' c'] by simp
    with rest[OF 3(1)] show ?case by simp
  qed (use Cons.prems(2) rest in simp_all)
qed

lemma same_combine:
  assumes "same_sets ss ss'" and "env_ok e" and "env_ok e'"
  shows "set (setUnion e ss) = set (setUnion e' ss')" and "set (setInter e ss) = set (setInter e' ss')"
    and "set (setDiff e ss) = set (setDiff e' ss')"
proof -
  have eq: "map set ss = map set ss'" using assms(1) by (simp add: same_sets_def)
  show "set (setUnion e ss) = set (setUnion e' ss')" unfolding setUnion_set[OF assms(2)] setUnion_set[OF assms(3)] eq ..
  have "set (setInter e ss) = set (setInter e' ss') \<and> set (setDiff e ss) = set (setDiff e' ss')"
  proof (cases ss)
    case (Cons s rest)
    with eq obtain s' rest' where s': "ss' = s' # rest'" "set s = set s'" "map set rest = map set rest'" by (cases ss') auto
    then show ?thesis unfolding Cons s'(1) setInter_set[OF assms(2)] setInter_set[OF assms(3)] setDiff_set[OF assms(2)] setDiff_set[OF assms(3)]
      by simp
  qed (use eq in \<open>simp add: setInter_def setDiff_def\<close>)
  then show "set (setInter e ss) = set (setInter e' ss')" "set (setDiff e ss) = set (setDiff e' ss')" by simp_all
qed

lemma tw_storeSetResult:
  assumes "twin d d'" and "distinct s" and "distinct s'" and "set s = set s'"
  shows "twin (snd (storeSetResult e k s d)) (snd (storeSetResult e' k s' d'))"
proof -
  let ?d = "snd (db_Del [k] d)" and ?d' = "snd (db_Del [k] d')"
  have t: "twin ?d ?d'" by (rule tw_Del[OF assms(1)])
  have "twin (?d\<lparr>heap := (heap ?d)(next_ref ?d \<mapsto> CSet s), next_ref := Suc (next_ref ?d)\<rparr>)
      (?d'\<lparr>heap := (heap ?d')(next_ref ?d' \<mapsto> CSet s'), next_ref := Suc (next_ref ?d')\<rparr>)"
    using assms by (intro tw_new t) simp
  then have "twin (db_Set e k (new_object TypeSet (VRef (next_ref ?d))) (?d\<lparr>heap := (heap ?d)(next_ref ?d \<mapsto> CSet s), next_ref := Suc (next_ref ?d)\<rparr>))
      (db_Set e' k (new_object TypeSet (VRef (next_ref ?d'))) (?d'\<lparr>heap := (heap ?d')(next_ref ?d' \<mapsto> CSet s'), next_ref := Suc (next_ref ?d')\<rparr>))"
    using twinD(1)[OF t] by (intro tw_Set) (simp_all add: new_object_def)
  with t same_Nil[OF assms(4)] show ?thesis by (simp add: storeSetResult_def new_cell_def Let_def del: db_Del.simps)
qed

lemma steady_combine:
  assumes "\<And>e e' ss ss'. same_sets ss ss' \<Longrightarrow> env_ok e \<Longrightarrow> env_ok e' \<Longrightarrow> set (f e ss) = set (f e' ss')" and "\<And>e ss. distinct (f e ss)"
  shows "steady (\<lambda>args. True) (set_combine_store name f)"
proof (rule steadyI)
  fix e e' args d d' assume e: "env_ok e" "env_ok e'" and t: "twin d d'"
  have "tracks (or_reply (collectSets e (tl args) d) (\<lambda>sets d. Ret (storeSetResult e (ArgStr args 0) (f e sets) d)))
      (or_reply (collectSets e' (tl args) d') (\<lambda>sets d. Ret (storeSetResult e' (ArgStr args 0) (f e' sets) d)))"
    by (rule tracks_or_reply, rule tw_collectSets[OF t])
      (simp_all add: tracks_def tw_storeSetResult assms(2) assms(1)[OF _ e])
  with t show "tracks (set_combine_store name f e args d) (set_combine_store name f e' args d')"
    by (simp add: set_combine_store_def)
qed

lemma steady_store: "steady (\<lambda>args. True) cmdSUnionStore" "steady (\<lambda>args. True) cmdSInterStore" "steady (\<lambda>args. True) cmdSDiffStore"
  unfolding cmdSUnionStore_def cmdSInterStore_def cmdSDiffStore_def
  by (rule steady_combine, erule (2) same_combine, rule combine_distinct)+

section \<open>Commands on sorted sets\<close>

text \<open>Scores that are no NaN.\<close>

definition plain_scores :: "string list \<Rightarrow> bool" where
  "plain_scores args \<longleftrightarrow> list_all (\<lambda>w. case parseScore w of None \<Rightarrow> True | Some sc \<Rightarrow> \<not> f_nan sc) args"

lemma tw_zset: "twin d d' \<Longrightarrow> zset_rel z es \<Longrightarrow> zset_rel z' es \<Longrightarrow> twin (put_cell a (CZSet z) d) (put_cell a (CZSet z') d')"
  by (rule tw_put) auto

lemma zadd_loop_same:
  "zset_rel z es \<Longrightarrow> zset_rel z' es \<Longrightarrow> plain_scores ps \<Longrightarrow>
    \<exists>es'. zset_rel (snd (zadd_loop e opts i ps added changed z)) es' \<and> zset_rel (snd (zadd_loop e' opts i ps added' changed' z')) es'"
proof (induction ps arbitrary: i added changed z added' changed' z' es rule: induct_list012)
  case (3 s m rest)
  have rest: "plain_scores rest" using "3.prems"(3) by (simp add: plain_scores_def)
  show ?case
  proof (cases "parseScore s")
    case (Some sc)
    with "3.prems"(3) have n: "\<not> f_nan sc" by (simp add: plain_scores_def)
    have skip: "zadd_skips opts sc (ZSet_Score m z') = zadd_skips opts sc (ZSet_Score m z)"
      using "3.prems"(1,2) by (simp add: ZSet_Score_rel)
    obtain w z1 w' z1' where add: "ZSet_Add (randomLevel (coin e i)) sc m z = (w, z1)" "ZSet_Add (randomLevel (coin e' i)) sc m z' = (w', z1')"
      by fastforce
    have "zset_rel z1 (z_add m sc es)" "zset_rel z1' (z_add m sc es)"
      using ZSet_Add_rel[OF "3.prems"(1) n, of "randomLevel (coin e i)" m] ZSet_Add_rel[OF "3.prems"(2) n, of "randomLevel (coin e' i)" m]
        add randomLevel_range by auto
    from 3(1)[OF this rest] 3(1)[OF "3.prems"(1,2) rest] skip add Some show ?thesis by simp
  qed (use "3.prems" in auto)
qed auto

lemma steady_zadd: "steady plain_scores cmdZAdd"
proof (rule steadyI)
  fix e e' args d d' assume p: "plain_scores args" and t: "twin d d'"
  obtain opts ps where o: "zadd_options (tl args) no_zadd_opts = (opts, ps)" by fastforce
  have "set ps \<subseteq> set args" using zadd_options_subset[of "tl args" no_zadd_opts] o by (cases args) auto
  with p have ps: "plain_scores ps" by (auto simp: plain_scores_def list_all_iff)
  have same: "twin (put_cell a (CZSet (snd (zadd_loop e opts 0 ps 0 0 (zset_at d1 a)))) d1)
      (put_cell a (CZSet (snd (zadd_loop e' opts 0 ps 0 0 (zset_at d1' a)))) d1')"
    if "twin d1 d1'" "same_cell (CZSet (zset_at d1 a)) (CZSet (zset_at d1' a))" for d1 d1' a
  proof -
    from that(2) obtain es where "zset_rel (zset_at d1 a) es" "zset_rel (zset_at d1' a) es" by auto
    from zadd_loop_same[OF this ps] tw_zset[OF that(1)] show ?thesis by blast
  qed
  show "tracks (cmdZAdd e args d) (cmdZAdd e' args d')"
    using t by (auto simp: cmdZAdd_def o split_beta simp del: same_cell_simps intro!: tw_createZSet same)
qed

lemma zpop_loop_same:
  assumes "zset_rel z es" and "zset_rel z' es"
  shows "\<exists>es'. zset_rel (snd (zpop_loop First n z)) es' \<and> zset_rel (snd (zpop_loop First n z')) es'"
    and "\<exists>es'. zset_rel (snd (zpop_loop Last n z)) es' \<and> zset_rel (snd (zpop_loop Last n z')) es'"
  using zpop_loop_First[OF assms(1), of n] zpop_loop_First[OF assms(2), of n] zpop_loop_Last[OF assms(1), of n] zpop_loop_Last[OF assms(2), of n]
  by blast+

lemma zrem_loop_same:
  "zset_rel z es \<Longrightarrow> zset_rel z' es \<Longrightarrow> \<exists>es'. zset_rel (snd (zrem_loop ms n z)) es' \<and> zset_rel (snd (zrem_loop ms n' z')) es'"
proof (induction ms arbitrary: n n' z z' es)
  case (Cons m ms)
  from Cons.IH[OF conjunct1[OF ZSet_Remove_rel[OF Cons.prems(1)]] conjunct1[OF ZSet_Remove_rel[OF Cons.prems(2)]]] show ?case
    by (simp add: split_beta)
qed auto

lemma tw_zshrink:
  assumes "twin d d'" and "same_cell (CZSet z) (CZSet z')"
    and "\<And>es. zset_rel z es \<Longrightarrow> zset_rel z' es \<Longrightarrow> \<exists>es'. zset_rel (snd (f z)) es' \<and> zset_rel (snd (g z')) es'"
  shows "twin (drop_empty k (ZSet_Len (snd (f z)) = 0) (put_cell a (CZSet (snd (f z))) d))
    (drop_empty k (ZSet_Len (snd (g z')) = 0) (put_cell a (CZSet (snd (g z'))) d'))"
proof -
  from assms(2,3) obtain es where es: "zset_rel (snd (f z)) es" "zset_rel (snd (g z')) es" by auto
  then have "ZSet_Len (snd (g z')) = ZSet_Len (snd (f z))" by (simp add: ZSet_Len_rel)
  with tw_zset[OF assms(1) es] show ?thesis by (simp add: tw_drop)
qed

lemma steady_zset: "steady (\<lambda>args. True) cmdZRem" "steady (\<lambda>args. True) cmdZPopMin" "steady (\<lambda>args. True) cmdZPopMax"
proof -
  show "steady (\<lambda>args. True) cmdZRem"
    by (rule steadyI) (auto simp: cmdZRem_def split_beta simp del: same_cell_simps intro!: tw_getZSet tw_zshrink zrem_loop_same)
  show "steady (\<lambda>args. True) cmdZPopMin" "steady (\<lambda>args. True) cmdZPopMax"
    by (rule steadyI, auto simp: cmdZPopMin_def cmdZPopMax_def zpop_def split_beta simp del: same_cell_simps
        intro!: tw_getZSet tw_zshrink zpop_loop_same split: option.split)+
qed

section \<open>Commands on keys\<close>

lemma tw_copy_cell:
  assumes "twin d d'"
    and "\<And>a c c'. heap d a = Some c \<Longrightarrow> heap d' a = Some c' \<Longrightarrow> same_cell c c' \<Longrightarrow> cell_type c = t \<Longrightarrow> same_cell (f d a) (f d' a)"
  shows "alike (go_bind (assert_cell t d v) (\<lambda>a. case new_cell (f d a) d of (b, d) \<Rightarrow> Ret (VRef b, d)))
    (go_bind (assert_cell t d' v) (\<lambda>a. case new_cell (f d' a) d' of (b, d) \<Rightarrow> Ret (VRef b, d)))
    (\<lambda>(v, d) (v', d'). v' = v \<and> twin d d')"
proof (rule tw_assert[OF assms(1)])
  fix a c c' assume "heap d a = Some c" "heap d' a = Some c'" "same_cell c c'" "cell_type c = t"
  then have "same_cell (f d a) (f d' a)" by (rule assms(2))
  then show "alike (case new_cell (f d a) d of (b, d) \<Rightarrow> Ret (VRef b, d)) (case new_cell (f d' a) d' of (b, d) \<Rightarrow> Ret (VRef b, d))
      (\<lambda>(v, d) (v', d'). v' = v \<and> twin d d')"
    using tw_new[OF assms(1)] twinD(1)[OF assms(1)] by (simp add: new_cell_def)
qed

lemma tw_deepCopyValue:
  assumes "twin d d'" and "oType o2 = oType o1" and "oValue o2 = oValue o1"
  shows "alike (deepCopyValue o1 d) (deepCopyValue o2 d') (\<lambda>(v, d) (v', d'). v' = v \<and> twin d d')"
proof (cases "oType o1")
  case TypeHash
  show ?thesis using tw_copy_cell[OF assms(1), of TypeHash "\<lambda>d a. CHash (hash_at d a)" "oValue o1"] same_at(2)
    by (simp add: deepCopyValue_def assms(2,3) TypeHash)
next
  case TypeSet
  show ?thesis using tw_copy_cell[OF assms(1), of TypeSet "\<lambda>d a. CSet (set_at d a)" "oValue o1"] same_at(3)
    by (simp add: deepCopyValue_def assms(2,3) TypeSet del: same_cell_simps)
qed (auto simp: deepCopyValue_def assms intro!: alike_same)

lemma tw_copy:
  assumes "twin d d'" and "oType o2 = oType o1" and "oValue o2 = oValue o1"
    and "\<And>v d d'. twin d d' \<Longrightarrow> tracks (f v d) (g v d')"
  shows "tracks (go_bind (deepCopyValue o1 d) (case_prod f)) (go_bind (deepCopyValue o2 d') (case_prod g))"
proof (cases "deepCopyValue o1 d")
  case (Ret p)
  with tw_deepCopyValue[OF assms(1-3)] obtain v d1 d1' where "p = (v, d1)" "deepCopyValue o2 d' = Ret (v, d1')" "twin d1 d1'"
    by (cases p) (auto simp: alike_def)
  with Ret assms(4) show ?thesis by simp
qed simp

lemma steady_key:
  "steady (\<lambda>args. True) cmdDel" "steady (\<lambda>args. True) cmdPersist" "steady (\<lambda>args. True) cmdRename" "steady (\<lambda>args. True) cmdRenameNX"
  "steady (\<lambda>args. True) cmdFlushDB" "steady (\<lambda>args. True) cmdCopy"
proof -
  show "steady (\<lambda>args. True) cmdDel" "steady (\<lambda>args. True) cmdPersist" "steady (\<lambda>args. True) cmdFlushDB"
    by (rule steadyI, simp add: cmdDel_def cmdPersist_def cmdFlushDB_def bool_reply_def split_beta tw_Del tw_RemoveExpiry tw_Flush del: db_Del.simps)+
  show "steady (\<lambda>args. True) cmdRename"
    by (rule steadyI) (simp add: cmdRename_def split_beta tw_Rename)
  show "steady (\<lambda>args. True) cmdRenameNX"
  proof (rule steadyI)
    fix e e' args d d' assume t: "twin d d'"
    then show "tracks (cmdRenameNX e args d) (cmdRenameNX e' args d')"
      by (simp add: cmdRenameNX_def split_beta tw_Rename tw_Exists[OF t, of e' _ e])
  qed
  show "steady (\<lambda>args. True) cmdCopy"
  proof (rule steadyI)
    fix e e' args d d' assume t: "twin d d'"
    have x: "db_Exists e' ks d1' = db_Exists e ks d1" if "twin d1 d1'" for ks d1 d1' by (rule tw_Exists[OF that])
    show "tracks (cmdCopy e args d) (cmdCopy e' args d')"
      using t unfolding cmdCopy_def Let_def
      by (auto intro!: tw_get tw_copy tw_Set simp: x new_object_def)
  qed
qed

section \<open>The table\<close>

text \<open>
  The write commands that read the clock or draw what they change. \<open>EXPIREAT\<close> and \<open>PEXPIREAT\<close>
  are among them: whether a key is still there depends on when it is looked at. \<open>ZINCRBY\<close>
  can make a score that is a NaN.
\<close>

definition timed_commands :: "string list" where
  "timed_commands = [''SETEX'', ''PSETEX'', ''EXPIRE'', ''EXPIREAT'', ''PEXPIRE'', ''PEXPIREAT'', ''SPOP'', ''ZINCRBY'']"

definition untimed :: "string \<times> string list \<Rightarrow> bool" where
  "untimed q \<longleftrightarrow> fst q \<notin> set timed_commands
     \<and> (fst q = ''SET'' \<longrightarrow> list_all (\<lambda>w. ToUpper w \<notin> set set_times) (drop 2 (snd q)))
     \<and> (fst q = ''ZADD'' \<longrightarrow> plain_scores (snd q))"

definition settled :: "string \<times> handler \<Rightarrow> bool" where
  "settled c \<longleftrightarrow> fst c \<in> set timed_commands \<or> fst c \<in> {''SET'', ''ZADD'', ''SELECT'', ''FLUSHALL''}
     \<or> \<not> isWriteCommand (fst c) \<or> steady (\<lambda>args. True) (snd c)"

lemma table_settled:
  "list_all settled string_commands" "list_all settled list_commands" "list_all settled hash_commands"
  "list_all settled set_commands" "list_all settled zset_commands" "list_all settled key_commands"
  "list_all settled server_commands"
proof -
  show "list_all settled string_commands"
    by (simp add: string_commands_def settled_def isWriteCommand_def write_commands_def timed_commands_def steady_string)
  show "list_all settled list_commands"
    by (simp add: list_commands_def settled_def isWriteCommand_def write_commands_def timed_commands_def steady_list)
  show "list_all settled hash_commands"
    by (simp add: hash_commands_def settled_def isWriteCommand_def write_commands_def timed_commands_def steady_hash)
  show "list_all settled set_commands"
    by (simp add: set_commands_def settled_def isWriteCommand_def write_commands_def timed_commands_def steady_members steady_store)
  show "list_all settled zset_commands"
    by (simp add: zset_commands_def settled_def isWriteCommand_def write_commands_def timed_commands_def steady_zset)
  show "list_all settled key_commands"
    by (simp add: key_commands_def settled_def isWriteCommand_def write_commands_def timed_commands_def steady_key)
  show "list_all settled server_commands"
    by (simp add: server_commands_def settled_def isWriteCommand_def write_commands_def timed_commands_def steady_key)
qed

lemma set_zadd_handlers: "map_of registerAll ''SET'' = Some cmdSet" "map_of registerAll ''ZADD'' = Some cmdZAdd"
  by (simp_all add: registerAll_def table_defs)

lemma registered_steady:
  assumes "Registry_Get n = Some h" and "ToUpper n = n" and "isWriteCommand n" and "n \<noteq> ''SELECT''" and "n \<noteq> ''FLUSHALL''"
    and "untimed (n, args)" and "env_ok e" and "env_ok e'" and "twin d d'"
  shows "tracks (h e args d) (h e' args d')"
proof -
  have h: "map_of registerAll n = Some h" using assms(1,2) by (simp add: Registry_Get_def)
  consider "n = ''SET''" | "n = ''ZADD''" | "n \<noteq> ''SET'' \<and> n \<noteq> ''ZADD''" by blast
  then show ?thesis
  proof cases
    case 1
    with h set_zadd_handlers assms(6-9) steady_set show ?thesis by (simp add: untimed_def steady_def)
  next
    case 2
    with h set_zadd_handlers assms(6-9) steady_zadd show ?thesis by (simp add: untimed_def steady_def)
  next
    case 3
    have "list_all settled registerAll" using table_settled by (simp only: registerAll_def list_all_append simp_thms)
    with map_of_SomeD[OF h] have "settled (n, h)" by (simp add: list_all_iff)
    with 3 assms(3-6) have "steady (\<lambda>args. True) h" by (simp add: settled_def untimed_def)
    with assms(7-9) show ?thesis by (simp add: steady_def)
  qed
qed

end
