(* ===== verification/Recovery.thy ===== *)
theory Recovery
  imports Server_Correct Cmd_Replay
begin

text \<open>
  Recovery from the append-only file: what a client on database 0 executes, the file holds,
  and a server that starts on the file executes it again (\<open>replay_is_run\<close>), in environments
  of its own. When no command depends on the environment, it gets the same keys with the
  same values (\<open>replay_same\<close>).
\<close>

section \<open>The commands that are written\<close>

text \<open>The commands that a client on database 0 gets written when it executes them.\<close>

definition replayable :: "string \<times> string list \<Rightarrow> bool" where
  "replayable q \<longleftrightarrow> ToUpper (fst q) = fst q \<and> isWriteCommand (fst q) \<and> fst q \<noteq> ''SELECT'' \<and> fst q \<noteq> ''FLUSHALL''
     \<and> Registry_Get (fst q) \<noteq> None \<and> loggable (fst q # snd q)"

definition as_bulk :: "string \<times> string list \<Rightarrow> string \<times> resp_value list" where
  "as_bulk q = (fst q, map bulk_value (snd q))"

lemma Str_bulk [simp]: "map Str (map bulk_value xs) = xs" "map (Str \<circ> bulk_value) xs = xs"
  by (induction xs) (simp_all add: bulk_value_def)

abbreviation command_lines :: "(string \<times> string list) list \<Rightarrow> string list list" where
  "command_lines cmds \<equiv> map (\<lambda>q. fst q # snd q) cmds"

text \<open>Such a command on database 0 runs its handler and is written.\<close>

lemma execute_replayable:
  assumes "replayable (n, args)" and "dbIndex c = 0" and "sdbs s \<noteq> []" and "Registry_Get n = Some h"
  shows "execute cfg e n (map bulk_value args) c s =
    go_bind (h e args (sdbs s ! 0)) (\<lambda>(r, d). Ret (r, c, s\<lparr>sdbs := (sdbs s)[0 := d], saof := map_option (aof_Write (n # args)) (saof s)\<rparr>))"
proof -
  from assms(1) have n: "ToUpper n = n" "isWriteCommand n" "n \<noteq> ''SELECT''" "n \<noteq> ''FLUSHALL''" by (auto simp: replayable_def)
  have "DB (sdbs s) (dbIndex c) = Some (sdbs s ! 0)" using assms(2,3) by (simp add: DB_def)
  with n assms(2,4) show ?thesis
    by (cases "h e args (sdbs s ! 0)"; cases "saof s") (auto simp: execute_def log_command_def split: prod.split)
qed

lemma replayable_step:
  assumes "list_all replayable (q # cmds)"
  obtains n args h where "q = (n, args)" "replayable (n, args)" "ToUpper n = n" "Registry_Get n = Some h" "list_all replayable cmds"
  using assms by (cases q) (auto simp: replayable_def)

section \<open>The file\<close>

lemma run_all_logged:
  "list_all replayable cmds \<Longrightarrow> dbIndex c = 0 \<Longrightarrow> sdbs s \<noteq> [] \<Longrightarrow> saof s = Some a \<Longrightarrow> aof_ok a \<Longrightarrow>
    run_all cfg es i (map as_bulk cmds) c s = Ret (rs, c', s') \<Longrightarrow>
    \<exists>a'. saof s' = Some a' \<and> aof_contents a' = aof_contents a @ aof_log (command_lines cmds)"
proof (induction cmds arbitrary: i c s a rs c' s')
  case Nil
  then show ?case by (auto simp: aof_log_def)
next
  case (Cons q cmds)
  obtain n args h where q: "q = (n, args)" "replayable (n, args)" "ToUpper n = n" "Registry_Get n = Some h" "list_all replayable cmds"
    by (rule replayable_step[OF Cons.prems(1)])
  note ex = execute_replayable[OF q(2) Cons.prems(2,3) q(4), of cfg "es i"]
  obtain r d where x: "h (es i) args (sdbs s ! 0) = Ret (r, d)"
    using Cons.prems(6) ex by (cases "h (es i) args (sdbs s ! 0)") (auto simp: q(1) as_bulk_def)
  let ?s = "s\<lparr>sdbs := (sdbs s)[0 := d], saof := map_option (aof_Write (n # args)) (saof s)\<rparr>"
  obtain rs1 where r1: "run_all cfg es (Suc i) (map as_bulk cmds) c ?s = Ret (rs1, c', s')"
    using Cons.prems(6) ex x unfolding q(1) list.map as_bulk_def[of "(n, args)"] fst_conv snd_conv run_all.simps
    by (auto simp: go_bind_eq_Ret)
  note w = aof_Write_contents[OF Cons.prems(5), of "n # args"]
  from Cons.IH[OF q(5) Cons.prems(2) _ _ w(2) r1] Cons.prems(3,4) w(1) show ?case by (auto simp: aof_log_def q(1))
qed

section \<open>Executing the file is executing the commands\<close>

lemma replay_step:
  "Registry_Get n = Some h \<Longrightarrow> replay_command es n args (i, Some d) = go_bind (h (es i) args d) (\<lambda>(r, d). Ret (False, Suc i, Some d))"
  by (simp add: replay_command_def)

lemma run_log_step:
  assumes "Registry_Get n = Some h" and "ToUpper n = n"
  shows "run_log (replay_command es) ((n # args) # cs) (i, Some d) =
    go_bind (h (es i) args d) (\<lambda>(r, d). run_log (replay_command es) cs (Suc i, Some d))"
  using assms by (cases "h (es i) args d") (auto simp: replay_step)

lemma run_all_replay:
  "list_all replayable cmds \<Longrightarrow> dbIndex c = 0 \<Longrightarrow> sdbs s \<noteq> [] \<Longrightarrow>
    go_bind (run_all cfg es i (map as_bulk cmds) c s) (\<lambda>(rs, c', s'). Ret (sdbs s'))
      = go_bind (run_log (replay_command es) (command_lines cmds) (i, Some (sdbs s ! 0)))
          (\<lambda>(failed, j, od). Ret ((sdbs s)[0 := the od]))"
proof (induction cmds arbitrary: i c s)
  case Nil
  then show ?case by (simp add: list_update_id)
next
  case (Cons q cmds)
  obtain n args h where q: "q = (n, args)" "replayable (n, args)" "ToUpper n = n" "Registry_Get n = Some h" "list_all replayable cmds"
    by (rule replayable_step[OF Cons.prems(1)])
  note ex = execute_replayable[OF q(2) Cons.prems(2,3) q(4), of cfg "es i"] and log = run_log_step[OF q(4,3)]
  show ?case
  proof (cases "h (es i) args (sdbs s ! 0)")
    case (Ret p)
    obtain r d where p: "p = (r, d)" by fastforce
    let ?s = "s\<lparr>sdbs := (sdbs s)[0 := d], saof := map_option (aof_Write (n # args)) (saof s)\<rparr>"
    have e: "execute cfg (es i) n (map bulk_value args) c s = Ret (r, c, ?s)" using ex Ret p by simp
    have "go_bind (run_all cfg es i (map as_bulk (q # cmds)) c s) (\<lambda>(rs, c', s'). Ret (sdbs s'))
        = go_bind (run_all cfg es (Suc i) (map as_bulk cmds) c ?s) (\<lambda>(rs, c', s'). Ret (sdbs s'))"
      by (cases "run_all cfg es (Suc i) (map as_bulk cmds) c ?s") (auto simp: q(1) as_bulk_def e)
    also have "\<dots> = go_bind (run_log (replay_command es) (command_lines cmds) (Suc i, Some d)) (\<lambda>(failed, j, od). Ret ((sdbs s)[0 := the od]))"
      using Cons.IH[OF q(5) Cons.prems(2), of ?s "Suc i"] Cons.prems(3) by simp
    finally show ?thesis by (simp add: q(1) log Ret p del: run_log.simps run_all.simps)
  qed (simp add: q(1) as_bulk_def ex log del: run_log.simps)
qed

lemma run_log_Some:
  "list_all replayable cmds \<Longrightarrow> run_log (replay_command es) (command_lines cmds) (i, Some d) = Ret (failed, j, od) \<Longrightarrow> od \<noteq> None"
proof (induction cmds arbitrary: i d)
  case (Cons q cmds)
  obtain n args h where q: "q = (n, args)" "ToUpper n = n" "Registry_Get n = Some h" "list_all replayable cmds"
    by (rule replayable_step[OF Cons.prems(1)])
  with Cons.prems(2) Cons.IH[OF q(4)] show ?case
    by (auto simp: run_log_step[OF q(3,2)] go_bind_eq_Ret simp del: run_log.simps)
qed auto

lemma replay_is_run:
  assumes "list_all replayable cmds" and "dbs \<noteq> []"
  shows "replayAOF es (aof_log (command_lines cmds)) dbs
    = go_bind (run_all cfg es 0 (map as_bulk cmds) NewClient \<lparr>sdbs = dbs, saof = lg, sclients = [], sbusy = None\<rparr>) (\<lambda>(rs, c, s). Ret (sdbs s))"
proof -
  have l: "list_all loggable (command_lines cmds)" using assms(1) by (auto simp: list_all_iff replayable_def)
  have d: "DB dbs 0 = Some (dbs ! 0)" using assms(2) by (simp add: DB_def)
  have "replayAOF es (aof_log (command_lines cmds)) dbs
      = go_bind (run_log (replay_command es) (command_lines cmds) (0, Some (dbs ! 0))) (\<lambda>(failed, j, od). Ret (dbs[0 := the od]))"
    using run_log_Some[OF assms(1), of es 0 "dbs ! 0"]
    by (cases "run_log (replay_command es) (command_lines cmds) (0, Some (dbs ! 0))") (auto simp: replayAOF_def Replay_log[OF l] d)
  also have "\<dots> = go_bind (run_all cfg es 0 (map as_bulk cmds) NewClient \<lparr>sdbs = dbs, saof = lg, sclients = [], sbusy = None\<rparr>) (\<lambda>(rs, c, s). Ret (sdbs s))"
    using run_all_replay[OF assms(1), of NewClient "\<lparr>sdbs = dbs, saof = lg, sclients = [], sbusy = None\<rparr>" cfg es 0] assms(2)
    by (simp add: NewClient_def)
  finally show ?thesis .
qed

section \<open>Executing them in other environments\<close>

lemma run_log_twin:
  "list_all replayable cmds \<Longrightarrow> list_all untimed cmds \<Longrightarrow> (\<And>i. env_ok (es i)) \<Longrightarrow> (\<And>i. env_ok (es' i)) \<Longrightarrow> twin d d' \<Longrightarrow>
    run_log (replay_command es) (command_lines cmds) (i, Some d) = Ret (failed, j, od) \<Longrightarrow>
    \<exists>d1 d1'. od = Some d1 \<and> twin d1 d1' \<and> run_log (replay_command es') (command_lines cmds) (i, Some d') = Ret (failed, j, Some d1')"
proof (induction cmds arbitrary: i d d')
  case Nil
  then show ?case by auto
next
  case (Cons q cmds)
  obtain n args h where q: "q = (n, args)" "replayable (n, args)" "ToUpper n = n" "Registry_Get n = Some h" "list_all replayable cmds"
    by (rule replayable_step[OF Cons.prems(1)])
  have "tracks (h (es i) args d) (h (es' i) args d')"
    using q(2) Cons.prems(2-5) by (intro registered_steady[OF q(4,3)]) (auto simp: replayable_def q(1))
  moreover obtain r d2 where x: "h (es i) args d = Ret (r, d2)"
      "run_log (replay_command es) (command_lines cmds) (Suc i, Some d2) = Ret (failed, j, od)"
    using Cons.prems(6) by (auto simp: q(1) run_log_step[OF q(4,3)] go_bind_eq_Ret simp del: run_log.simps)
  ultimately obtain r' d2' where x': "h (es' i) args d' = Ret (r', d2')" "twin d2 d2'"
    by (auto simp: tracks_def alike_def)
  from Cons.IH[OF q(5) _ Cons.prems(3,4) x'(2) x(2)] Cons.prems(2) x'(1) show ?case
    by (simp add: q(1) run_log_step[OF q(4,3)] del: run_log.simps)
qed

lemma twin_newDB: "twin newDB newDB"
  by (simp add: twin_def newDB_def)

lemma replay_same:
  assumes "list_all replayable cmds" and "list_all untimed cmds" and "\<And>i. env_ok (es i)" and "\<And>i. env_ok (es' i)" and "0 < k"
    and "replayAOF es (aof_log (command_lines cmds)) (replicate k newDB) = Ret dbs"
  shows "\<exists>dbs'. replayAOF es' (aof_log (command_lines cmds)) (replicate k newDB) = Ret dbs'
    \<and> (\<forall>e e'. keyspace e' (dbs' ! 0) = keyspace e (dbs ! 0))"
proof -
  have l: "list_all loggable (command_lines cmds)" using assms(1) by (auto simp: list_all_iff replayable_def)
  have d: "DB (replicate k newDB) 0 = Some newDB" using assms(5) by (simp add: DB_def)
  obtain failed j od where r: "run_log (replay_command es) (command_lines cmds) (0, Some newDB) = Ret (failed, j, od)"
    using assms(6) by (cases "run_log (replay_command es) (command_lines cmds) (0, Some newDB)") (auto simp: replayAOF_def Replay_log[OF l] d)
  have dbs: "dbs = (case od of None \<Rightarrow> replicate k newDB | Some d \<Rightarrow> (replicate k newDB)[0 := d])"
    using assms(6) by (simp add: replayAOF_def Replay_log[OF l] d r)
  from run_log_twin[where es = es and es' = es', OF assms(1-4) twin_newDB r] obtain d1 d1' where d1: "od = Some d1" "twin d1 d1'"
    "run_log (replay_command es') (command_lines cmds) (0, Some newDB) = Ret (failed, j, Some d1')" by (elim exE conjE) (rule that)
  have "replayAOF es' (aof_log (command_lines cmds)) (replicate k newDB) = Ret ((replicate k newDB)[0 := d1'])"
    by (simp add: replayAOF_def Replay_log[OF l] d d1(3))
  moreover have "keyspace e' d1' = keyspace e d1" for e e' by (rule twin_keyspace[OF d1(2)])
  ultimately show ?thesis using assms(5) by (simp add: dbs d1(1))
qed

section \<open>Recovery\<close>

lemma recovery:
  assumes "list_all replayable cmds" and "0 < k"
    and "run_all cfg es 0 (map as_bulk cmds) NewClient \<lparr>sdbs = replicate k newDB, saof = Some (NewAOF [] policy), sclients = [], sbusy = None\<rparr>
      = Ret (rs, c', s')"
  shows "\<exists>a. saof s' = Some a \<and> aof_Close a = aof_log (command_lines cmds)"
    and "replayAOF es (aof_log (command_lines cmds)) (replicate k newDB) = Ret (sdbs s')"
proof -
  have a0: "aof_contents (NewAOF [] policy) = []" "aof_ok (NewAOF [] policy)"
    by (simp_all add: NewAOF_def aof_contents_def aof_ok_def)
  show "\<exists>a. saof s' = Some a \<and> aof_Close a = aof_log (command_lines cmds)"
    using run_all_logged[OF assms(1) _ _ _ a0(2) assms(3)] assms(2) a0(1) by (auto simp: NewClient_def aof_Close_def)
  show "replayAOF es (aof_log (command_lines cmds)) (replicate k newDB) = Ret (sdbs s')"
    using assms(2,3) by (subst replay_is_run[OF assms(1), where cfg = cfg and lg = "Some (NewAOF [] policy)"]) simp_all
qed

end
