(* ===== verification/Server_Properties.thy ===== *)
theory Server_Properties
  imports Startup Server_Invariant Store_Properties Recovery
begin

text \<open>
  The properties of the server, of its command table and of the append-only file, each
  with an example to which it applies.
\<close>

section \<open>The state machine\<close>

text \<open>
  C1. In every state the server can reach, the databases keep their invariant, each
  client has selected an existing database and has commands queued only inside a
  transaction, the client for which the thread waits is there, and the append-only file
  holds what it held at the start followed by write commands (nothing of them only in the
  buffer when the policy is \<open>always\<close>). And whatever happens next, no command fails a type
  assertion and the next state is sound again.
\<close>

theorem server_invariant:
  assumes "reachable cfg bytes0 s" and "0 < Databases cfg" and "event_ok ev"
  shows "server_ok cfg bytes0 s \<and>
    (case server_step cfg ev s of Ret s' \<Rightarrow> server_ok cfg bytes0 s' | Panic m \<Rightarrow> m \<noteq> conversion_panic)"
  using reachable_ok[OF assms(1,2)] server_step_ok[OF reachable_ok[OF assms(1,2)] assms(2,3)]
  by (simp add: guards_def)

definition start_state :: server where
  "start_state = \<lparr>sdbs = replicate 16 newDB, saof = None, sclients = [], sbusy = None\<rparr>"

lemma start_reachable: "reachable Default bytes0 start_state"
proof (rule reachable.start)
  show "\<forall>i. env_ok (plain_env 0)" by (simp add: plain_env_ok)
  show "Server_New Default (\<lambda>i. plain_env 0) bytes0 = Ret start_state"
    by (simp add: Server_New_def New_def Default_def make_slice_def max_alloc_def start_state_def)
qed

theorem server_invariant_witness:
  "case server_step Default (Accept 7) start_state of
     Ret s \<Rightarrow> server_ok Default [] s \<and> map_of (sclients s) 7 = Some NewClient | Panic m \<Rightarrow> False"
  using server_invariant[OF start_reachable, of "Accept 7" "[]"] by (simp add: start_state_def Default_def)

text \<open>
  C5. Inside a transaction a command is queued and nothing else happens to the server.
  \<open>EXEC\<close> executes the queued commands in their order, within one step of the event
  loop, leaves the transaction, and sends the replies as one array in that order.
\<close>

theorem transaction:
  assumes "inMulti c" and "n \<notin> {''MULTI'', ''DISCARD'', ''EXEC'', ''QUIT''}"
  shows "dispatch cfg es n args c s = Ret (False, send (WriteSimpleString ''QUEUED'') (Enqueue n args c), s)
    \<and> dispatch cfg es ''EXEC'' args c s =
      go_bind (run_all cfg es 0 (queue c) (c\<lparr>queue := [], inMulti := False\<rparr>) s) (\<lambda>(rs, c', s').
        Ret (False, send (WriteArrayLen (int (length (queue c))) @ concat (map (\<lambda>r. fst (WriteValue r)) rs)) c', s'))"
  using multi_queues[OF assms] exec_runs[OF assms(1)] by blast

lemma Registry_PING: "Registry_Get ''PING'' = Some cmdPing"
  by (simp add: Registry_Get_def registerAll_def table_defs ToUpper_def upper_char_def)

theorem transaction_witness:
  "dispatch Default (\<lambda>i. plain_env 0) ''EXEC'' [] (NewClient\<lparr>inMulti := True, queue := [(''PING'', []), (''FLUSHALL'', [])]\<rparr>) start_state
    = Ret (False, NewClient\<lparr>writer := ''*2'' @ crlf @ ''+PONG'' @ crlf @ ''+OK'' @ crlf\<rparr>, start_state\<lparr>sdbs := replicate 16 (db_Flush newDB)\<rparr>)"
proof -
  let ?c = "NewClient\<lparr>inMulti := True, queue := [(''PING'', []), (''FLUSHALL'', [])]\<rparr>"
  have s: "start_state\<lparr>sdbs := (replicate 16 newDB)[0 := newDB]\<rparr> = start_state"
    by (simp add: start_state_def list_update_same_conv)
  have two: "FormatInt 2 = ''2''" by code_simp
  have "inMulti ?c" by simp
  from conjunct2[OF transaction[OF this, of "''GET''" Default "\<lambda>i. plain_env 0" "[]" start_state]] s show ?thesis
    by (simp add: execute_def Registry_PING DB_def NewClient_def start_state_def cmdPing_def log_command_def send_def WriteArrayLen_def
        simple_value_def type_defs WriteSimpleString_def two)
qed

text \<open>
  C32. \<open>SELECT\<close> on a connection of a reachable state: the client gets the database it asks
  for when the argument is a number within the configured databases, and otherwise an
  error and keeps its own; so it always has one of the databases. The server is unchanged.
\<close>

theorem select_in_range:
  assumes "reachable cfg bytes0 s" and "0 < Databases cfg" and "map_of (sclients s) fd = Some c"
  shows "\<exists>r c'. execute cfg e ''SELECT'' [arg] c s = Ret (r, c', s) \<and> nat (dbIndex c') < length (sdbs s) \<and> 0 \<le> dbIndex c' \<and>
    (case parsed (Atoi (Str arg)) of
       None \<Rightarrow> r = error_value ''ERR DB index is out of range'' \<and> c' = c
     | Some i \<Rightarrow> if 0 \<le> i \<and> i < Databases cfg then r = simple_value ''OK'' \<and> dbIndex c' = i
                 else r = error_value ''ERR DB index is out of range'' \<and> c' = c)"
proof -
  have "server_ok cfg bytes0 s" by (rule reachable_ok[OF assms(1,2)])
  then have "length (sdbs s) = nat (Databases cfg)" "0 \<le> dbIndex c" "dbIndex c < Databases cfg"
    using assms(3) by (auto simp: server_ok_def client_ok_def)
  then show ?thesis by (auto simp: execute_SELECT split: option.split)
qed

lemma accept_reachable: "reachable Default bytes0 (start_state\<lparr>sclients := [(7, NewClient)]\<rparr>)"
proof (rule reachable.step[OF start_reachable, of "Accept 7"])
  show "server_step Default (Accept 7) start_state = Ret (start_state\<lparr>sclients := [(7, NewClient)]\<rparr>)"
    by (simp add: start_state_def)
qed simp

theorem select_in_range_witness:
  "(\<exists>c'. execute Default (plain_env 0) ''SELECT'' [bulk_value ''15''] NewClient (start_state\<lparr>sclients := [(7, NewClient)]\<rparr>)
      = Ret (simple_value ''OK'', c', start_state\<lparr>sclients := [(7, NewClient)]\<rparr>) \<and> dbIndex c' = 15) \<and>
  (\<exists>c'. execute Default (plain_env 0) ''SELECT'' [bulk_value ''16''] NewClient (start_state\<lparr>sclients := [(7, NewClient)]\<rparr>)
      = Ret (error_value ''ERR DB index is out of range'', c', start_state\<lparr>sclients := [(7, NewClient)]\<rparr>) \<and> c' = NewClient)"
proof -
  have p: "parsed (Atoi ''15'') = Some 15" "parsed (Atoi ''16'') = Some 16" by code_simp+
  have "0 < Databases Default" "map_of (sclients (start_state\<lparr>sclients := [(7, NewClient)]\<rparr>)) 7 = Some NewClient"
    by (simp_all add: Default_def)
  note s = select_in_range[OF accept_reachable this, of "plain_env 0"]
  show ?thesis
    using s[of "bulk_value ''15''"] s[of "bulk_value ''16''"] p by (auto simp: bulk_value_def Default_def)
qed

text \<open>
  C6. Request and reply, when the thread looks at a connection. A whole command has arrived: exactly
  its bytes are taken from the stream, whatever follows them, a reply is appended to what
  was written to this client, and no other client is touched; a command that is executed at once
  is answered by exactly what its execution returns. The connection is closed by \<open>QUIT\<close>, and by a command
  executed outside a transaction whose reply cannot be written, and by nothing else (that the connection
  takes what is written to it is C10). Only a part of a
  command has arrived: if it ends in the body of a string, and the peer has not closed, the thread waits and
  serves nobody else, and when the rest has come the command is handled as if it had come at
  once; if it ends in a line, or the peer has closed, the connection is closed.
\<close>

theorem request_reply:
  assumes "reachable cfg bytes0 s" and "0 < Databases cfg" and "\<forall>i. env_ok (es i)"
    and "map_of (sclients s) fd = Some c" and "sbusy s = None \<or> sbusy s = Some fd"
  shows "(wire_ok v \<and> reader c = fst (WriteValue v) @ rest \<longrightarrow>
      (case server_step cfg (Ready fd es) s of
         Panic m \<Rightarrow> m \<noteq> conversion_panic
       | Ret s' \<Rightarrow> sbusy s' = None \<and> (\<forall>fd'. fd' \<noteq> fd \<longrightarrow> map_of (sclients s') fd' = map_of (sclients s) fd') \<and>
          (case map_of (sclients s') fd of
             None \<Rightarrow> \<exists>n args. ToCommand v = Inr (n, args) \<and>
               (ToUpper n = ''QUIT'' \<or> unwritable cfg (es 0) (ToUpper n) args (c\<lparr>reader := rest\<rparr>) (s\<lparr>sbusy := None\<rparr>))
           | Some c' \<Rightarrow> reader c' = rest \<and> (\<exists>reply. reply \<noteq> [] \<and> writer c' = writer c @ reply)))
      \<and> (\<forall>n args. ToCommand v = Inr (n, args) \<and> \<not> inMulti c \<and> ToUpper n \<notin> session_commands \<longrightarrow>
          server_step cfg (Ready fd es) s =
            go_bind (execute cfg (es 0) (ToUpper n) args (c\<lparr>reader := rest\<rparr>) (s\<lparr>sbusy := None\<rparr>)) (\<lambda>(r, c', s').
              Ret (if snd (WriteValue r) then s'\<lparr>sclients := AList.update fd (send (fst (WriteValue r)) c') (sclients s')\<rparr>
                   else removeClient fd s'))))
    \<and> (wire_ok (request ws) \<and> fst (WriteValue (request ws)) = reader c @ missing \<and> missing \<noteq> [] \<longrightarrow>
        (if request_cut ws (reader c) \<and> \<not> hungup c
         then server_step cfg (Ready fd es) s = Ret (s\<lparr>sbusy := Some fd\<rparr>)
           \<and> (\<forall>fd' es'. fd' \<noteq> fd \<longrightarrow> server_step cfg (Ready fd' es') (s\<lparr>sbusy := Some fd\<rparr>) = Ret (s\<lparr>sbusy := Some fd\<rparr>))
           \<and> go_bind (server_step cfg (Receive fd missing) (s\<lparr>sbusy := Some fd\<rparr>)) (server_step cfg (Ready fd es)) =
             server_step cfg (Ready fd es) (s\<lparr>sclients := AList.update fd (c\<lparr>reader := fst (WriteValue (request ws))\<rparr>) (sclients s)\<rparr>)
         else server_step cfg (Ready fd es) s = Ret (removeClient fd (s\<lparr>sbusy := None\<rparr>))))"
proof (rule conjI[OF impI impI])
  assume *: "wire_ok v \<and> reader c = fst (WriteValue v) @ rest"
  then have v: "ReadValue (reader c) = Ret (Inr (v, rest))" using ReadValue_write[of v rest] by simp
  note r = ready_reply[OF reachable_ok[OF assms(1,2)] assms(3-5) v, unfolded guards_def]
  note e = ready_execute[OF assms(4,5) v, where cfg = cfg and es = es]
  show "(case server_step cfg (Ready fd es) s of
         Panic m \<Rightarrow> m \<noteq> conversion_panic
       | Ret s' \<Rightarrow> sbusy s' = None \<and> (\<forall>fd'. fd' \<noteq> fd \<longrightarrow> map_of (sclients s') fd' = map_of (sclients s) fd') \<and>
          (case map_of (sclients s') fd of
             None \<Rightarrow> \<exists>n args. ToCommand v = Inr (n, args) \<and>
               (ToUpper n = ''QUIT'' \<or> unwritable cfg (es 0) (ToUpper n) args (c\<lparr>reader := rest\<rparr>) (s\<lparr>sbusy := None\<rparr>))
           | Some c' \<Rightarrow> reader c' = rest \<and> (\<exists>reply. reply \<noteq> [] \<and> writer c' = writer c @ reply)))
      \<and> (\<forall>n args. ToCommand v = Inr (n, args) \<and> \<not> inMulti c \<and> ToUpper n \<notin> session_commands \<longrightarrow>
          server_step cfg (Ready fd es) s =
            go_bind (execute cfg (es 0) (ToUpper n) args (c\<lparr>reader := rest\<rparr>) (s\<lparr>sbusy := None\<rparr>)) (\<lambda>(r, c', s').
              Ret (if snd (WriteValue r) then s'\<lparr>sclients := AList.update fd (send (fst (WriteValue r)) c') (sclients s')\<rparr>
                   else removeClient fd s')))"
    using r e by blast
next
  assume *: "wire_ok (request ws) \<and> fst (WriteValue (request ws)) = reader c @ missing \<and> missing \<noteq> []"
  then have p: "wire_ok (request ws)" "fst (WriteValue (request ws)) = reader c @ missing" "missing \<noteq> []" by blast+
  note step = ready_partial[OF assms(4,5) p, of cfg es]
  show "if request_cut ws (reader c) \<and> \<not> hungup c
         then server_step cfg (Ready fd es) s = Ret (s\<lparr>sbusy := Some fd\<rparr>)
           \<and> (\<forall>fd' es'. fd' \<noteq> fd \<longrightarrow> server_step cfg (Ready fd' es') (s\<lparr>sbusy := Some fd\<rparr>) = Ret (s\<lparr>sbusy := Some fd\<rparr>))
           \<and> go_bind (server_step cfg (Receive fd missing) (s\<lparr>sbusy := Some fd\<rparr>)) (server_step cfg (Ready fd es)) =
             server_step cfg (Ready fd es) (s\<lparr>sclients := AList.update fd (c\<lparr>reader := fst (WriteValue (request ws))\<rparr>) (sclients s)\<rparr>)
         else server_step cfg (Ready fd es) s = Ret (removeClient fd (s\<lparr>sbusy := None\<rparr>))"
  proof (cases "request_cut ws (reader c) \<and> \<not> hungup c")
    case True
    with step ready_resumes[OF assms(4,5), of cfg missing es] show ?thesis unfolding p(2) if_P[OF True] by auto
  next
    case False
    with step show ?thesis unfolding if_not_P[OF False] by blast
  qed
qed

text \<open>A client has sent some bytes.\<close>

definition bytes_sent :: "string \<Rightarrow> server" where
  "bytes_sent bytes = start_state\<lparr>sclients := [(7, NewClient\<lparr>reader := bytes\<rparr>)]\<rparr>"

lemma bytes_sent_reachable: "reachable Default bytes0 (bytes_sent bytes)"
proof (rule reachable.step[OF accept_reachable, of "Receive 7 bytes"])
  show "server_step Default (Receive 7 bytes) (start_state\<lparr>sclients := [(7, NewClient)]\<rparr>) = Ret (bytes_sent bytes)"
    by (simp add: bytes_sent_def NewClient_def)
qed simp

lemma PING_bytes: "fst (WriteValue (request [''PING''])) = ''*1'' @ crlf @ ''$4'' @ crlf @ ''PING'' @ crlf"
proof -
  have "FormatInt 1 = ''1''" "FormatInt 4 = ''4''" by code_simp+
  then show ?thesis by (simp add: write_request WriteArrayLen_def WriteBulkString_def type_defs)
qed

lemma PING_cuts: "request_cut [''PING''] (''*1'' @ crlf @ ''$4'' @ crlf @ ''PI'')" "\<not> request_cut [''PING''] ''*1''"
  by code_simp+

text \<open>A whole \<open>PING\<close> is answered; half of its body keeps the thread, and the rest gets the answer; half of its first line ends the connection.\<close>

theorem request_reply_witness:
  "server_step Default (Ready 7 (\<lambda>i. plain_env 0)) (bytes_sent (''*1'' @ crlf @ ''$4'' @ crlf @ ''PING'' @ crlf))
      = Ret (start_state\<lparr>sclients := [(7, NewClient\<lparr>writer := ''+PONG'' @ crlf\<rparr>)]\<rparr>)
    \<and> server_step Default (Ready 7 (\<lambda>i. plain_env 0)) (bytes_sent (''*1'' @ crlf @ ''$4'' @ crlf @ ''PI''))
      = Ret ((bytes_sent (''*1'' @ crlf @ ''$4'' @ crlf @ ''PI''))\<lparr>sbusy := Some 7\<rparr>)
    \<and> go_bind (server_step Default (Receive 7 (''NG'' @ crlf)) ((bytes_sent (''*1'' @ crlf @ ''$4'' @ crlf @ ''PI''))\<lparr>sbusy := Some 7\<rparr>))
        (server_step Default (Ready 7 (\<lambda>i. plain_env 0))) = Ret (start_state\<lparr>sclients := [(7, NewClient\<lparr>writer := ''+PONG'' @ crlf\<rparr>)]\<rparr>)
    \<and> server_step Default (Ready 7 (\<lambda>i. plain_env 0)) (bytes_sent ''*1'') = Ret start_state"
proof -
  let ?w = "fst (WriteValue (request [''PING'']))" and ?half = "''*1'' @ crlf @ ''$4'' @ crlf @ ''PI''" and ?es = "\<lambda>i::nat. plain_env 0"
  have w: "wire_ok (request [''PING''])" by (simp add: request_def array_value_def bulk_value_def type_defs max_alloc_def)
  have d: "0 < Databases Default" "\<forall>i. env_ok (?es i)" by (simp_all add: Default_def plain_env_ok)
  have c: "map_of (sclients (bytes_sent b)) 7 = Some (NewClient\<lparr>reader := b\<rparr>)" "sbusy (bytes_sent b) = None \<or> sbusy (bytes_sent b) = Some 7" for b
    by (simp_all add: bytes_sent_def start_state_def)
  have u: "ToUpper ''PING'' = ''PING''" by code_simp
  have cmd: "ToCommand (request [''PING'']) = Inr (''PING'', [])"
    by (simp add: request_def ToCommand_def array_value_def bulk_value_def type_defs)
  have s: "start_state\<lparr>sdbs := (replicate 16 newDB)[0 := newDB]\<rparr> = start_state" by (simp add: start_state_def list_update_same_conv)
  have whole: "server_step Default (Ready 7 ?es) (bytes_sent ?w) = Ret (start_state\<lparr>sclients := [(7, NewClient\<lparr>writer := ''+PONG'' @ crlf\<rparr>)]\<rparr>)"
    using mp[OF conjunct1[OF request_reply[OF bytes_sent_reachable[of "[]" ?w] d c[of ?w], where v = "request [''PING'']" and rest = "[]"]], THEN conjunct2, rule_format, of "''PING''" "[]"] w cmd u
    by (simp add: NewClient_def session_commands_def execute_def Registry_PING DB_def bytes_sent_def start_state_def cmdPing_def
        log_command_def send_def simple_value_def type_defs WriteSimpleString_def list_update_same_conv)
  have m: "?w = ?half @ ''NG'' @ crlf" "?w = ''*1'' @ (crlf @ ''$4'' @ crlf @ ''PING'' @ crlf)" unfolding PING_bytes by simp_all
  have half: "request_cut [''PING''] (reader (NewClient\<lparr>reader := ?half\<rparr>)) \<and> \<not> hungup (NewClient\<lparr>reader := ?half\<rparr>)"
    using PING_cuts(1) by (simp add: NewClient_def)
  have line: "\<not> (request_cut [''PING''] (reader (NewClient\<lparr>reader := ''*1''\<rparr>)) \<and> \<not> hungup (NewClient\<lparr>reader := ''*1''\<rparr>))"
    using PING_cuts(2) by simp
  have up: "(bytes_sent ?half)\<lparr>sclients := AList.update 7 ((NewClient\<lparr>reader := ?half\<rparr>)\<lparr>reader := ?w\<rparr>) (sclients (bytes_sent ?half))\<rparr> = bytes_sent ?w"
    by (simp add: bytes_sent_def start_state_def)
  have p1: "wire_ok (request [''PING'']) \<and> ?w = reader (NewClient\<lparr>reader := ?half\<rparr>) @ ''NG'' @ crlf \<and> ''NG'' @ crlf \<noteq> []"
    using w m(1) by simp
  note h = mp[OF conjunct2[OF request_reply[OF bytes_sent_reachable[of "[]" ?half] d c[of ?half]]] p1, unfolded if_P[OF half] up]
  have p2: "wire_ok (request [''PING'']) \<and> ?w = reader (NewClient\<lparr>reader := ''*1''\<rparr>) @ (crlf @ ''$4'' @ crlf @ ''PING'' @ crlf)
      \<and> crlf @ ''$4'' @ crlf @ ''PING'' @ crlf \<noteq> []" using w m(2) by simp
  note l = mp[OF conjunct2[OF request_reply[OF bytes_sent_reachable[of "[]" "''*1''"] d c[of "''*1''"]]] p2, unfolded if_not_P[OF line]]
  have "removeClient 7 ((bytes_sent ''*1'')\<lparr>sbusy := None\<rparr>) = start_state" by (simp add: bytes_sent_def start_state_def)
  with whole h l show ?thesis unfolding PING_bytes by simp
qed

section \<open>The command table\<close>

text \<open>
  C7. Whatever command the table holds and whatever its arguments: it leaves the database
  sound, and if it panics, then never because a value did not have the type that its key
  announces.
\<close>

theorem handlers_safe:
  assumes "Registry_Get name = Some h" and "env_ok e" and "wf_db d"
  shows "case h e args d of Ret (r, d') \<Rightarrow> wf_db d' | Panic m \<Rightarrow> m \<noteq> conversion_panic"
  using registered_keeps[OF assms(1)] assms(2,3) by (auto simp: keeps_def guards_def split_beta split: go.splits)

lemma Registry_samples:
  "Registry_Get ''ZADD'' = Some cmdZAdd" "Registry_Get ''MSET'' = Some cmdMSet" "Registry_Get ''DEL'' = Some cmdDel"
  by (simp_all add: Registry_Get_def registerAll_def table_defs ToUpper_def upper_char_def)

theorem handlers_safe_witness:
  "case cmdZAdd (plain_env 10) [''a'', ''1'', ''m''] sample_db of Ret (r, d') \<Rightarrow> wf_db d' | Panic m \<Rightarrow> m \<noteq> conversion_panic"
  by (rule handlers_safe[OF Registry_samples(1) plain_env_ok sample_db_wf])

section \<open>The append-only file\<close>

text \<open>
  C4. Every change of the data reaches the append-only file: a command of the list of write
  commands is appended to it after it ran, with all its arguments, and a command that is
  not appended changes no key of any database that can be seen. Only the database of the client
  is touched. The one exception is \<open>FLUSHALL\<close>, which the server executes before it gets to the
  file: it empties every database and leaves no trace in the file.
\<close>

theorem log_complete:
  assumes "server_ok cfg bytes0 s" and "client_ok cfg c" and "env_ok e" and "ToUpper n = n"
  shows "(n \<noteq> ''FLUSHALL'' \<longrightarrow> guards (execute cfg e n args c s) (\<lambda>(r, c', s').
      (\<forall>i < length (sdbs s). i \<noteq> nat (dbIndex c) \<longrightarrow> sdbs s' ! i = sdbs s ! i) \<and>
      (if isWriteCommand n \<and> Registry_Get n \<noteq> None \<and> n \<noteq> ''SELECT''
       then saof s' = map_option (aof_Write (n # map Str args)) (saof s)
       else saof s' = saof s \<and> (\<forall>i < length (sdbs s). keyspace e (sdbs s' ! i) = keyspace e (sdbs s ! i)))))
    \<and> (\<exists>s'. execute cfg e ''FLUSHALL'' args c s = Ret (simple_value ''OK'', c, s') \<and> saof s' = saof s
      \<and> length (sdbs s') = length (sdbs s) \<and> (\<forall>i < length (sdbs s). keyspace e (sdbs s' ! i) = Map.empty))"
  by (rule conjI[OF impI[OF execute_effects[OF assms]] execute_FLUSHALL])

theorem log_complete_witness:
  "guards (execute Default (plain_env 0) ''MSET'' [bulk_value ''k'', bulk_value ''v''] NewClient
       (start_state\<lparr>saof := Some (NewAOF [] AOFSyncEverySec)\<rparr>))
     (\<lambda>(r, c', s'). saof s' = Some (aof_Write [''MSET'', ''k'', ''v''] (NewAOF [] AOFSyncEverySec)) \<and> sdbs s' ! 1 = newDB)"
proof -
  let ?s = "start_state\<lparr>saof := Some (NewAOF [] AOFSyncEverySec)\<rparr>"
  have s: "server_ok Default [] ?s"
    using reachable_ok[OF start_reachable, of "[]"] log_ok_New[of Default "[]"] by (simp add: server_ok_def Default_def)
  have c: "client_ok Default NewClient" by (simp add: client_ok_def NewClient_def Default_def)
  have u: "ToUpper ''MSET'' = ''MSET''" by code_simp
  have w: "isWriteCommand ''MSET''" by (simp add: isWriteCommand_def write_commands_def)
  have n: "sdbs start_state ! Suc 0 = newDB" "length (sdbs start_state) = 16" by (simp_all add: start_state_def)
  have f: "''MSET'' \<noteq> ''FLUSHALL''" by simp
  show ?thesis
    by (rule guards_mono[OF mp[OF conjunct1[OF log_complete[OF s c plain_env_ok u, where args = "[bulk_value ''k'', bulk_value ''v'']"]] f]])
      (auto simp: w Registry_samples n NewClient_def bulk_value_def)
qed




text \<open>
  C3. A crash: whatever part of the log reached the file, the replay executes exactly the
  commands that are there completely, in order, and stops at the one that was cut off
  without an error.
\<close>

theorem crash_prefix:
  assumes "list_all loggable cmds" and "aof_log cmds = p @ lost"
  shows "\<exists>n \<le> length cmds. Replay h p st = run_log h (take n cmds) st \<and> length (aof_log (take n cmds)) \<le> length p
    \<and> (\<forall>m \<le> length cmds. length (aof_log (take m cmds)) \<le> length p \<longrightarrow> m \<le> n)"
  by (rule Replay_crash[OF assms])

theorem crash_prefix_witness:
  "Replay (\<lambda>cmd args st. Ret (False, st @ [(cmd, args)])) (aof_bytes [''SET'', ''a'', ''1''] @ ''*2'') []
    = Ret (False, [(''SET'', [''a'', ''1''])])"
proof -
  let ?q = "[[''SET'', ''a'', ''1''], [''GETDEL'', ''a'']]"
  let ?h = "\<lambda>cmd args st. Ret (False, st @ [(cmd, args)])"
  have two: "FormatInt 2 = ''2''" and u: "ToUpper ''SET'' = ''SET''" by code_simp+
  have l: "list_all loggable ?q" by (simp add: loggable_def max_alloc_def)
  have len: "length ?q = 2" by simp
  obtain lost where b: "aof_bytes [''GETDEL'', ''a''] = ''*2'' @ lost" "lost \<noteq> []"
    by (simp add: aof_bytes_def aof_header_def two crlf_def)
  have "aof_log ?q = (aof_bytes [''SET'', ''a'', ''1''] @ ''*2'') @ lost" using b(1) by (simp add: aof_log_def)
  from crash_prefix[OF l this, of ?h "[]", unfolded len] obtain n where n: "n \<le> 2"
    "Replay ?h (aof_bytes [''SET'', ''a'', ''1''] @ ''*2'') [] = run_log ?h (take n ?q) []"
    "length (aof_log (take n ?q)) \<le> length (aof_bytes [''SET'', ''a'', ''1''] @ ''*2'')"
    "\<forall>m \<le> 2. length (aof_log (take m ?q)) \<le> length (aof_bytes [''SET'', ''a'', ''1''] @ ''*2'') \<longrightarrow> m \<le> n" by blast
  have "length (aof_log (take 1 ?q)) \<le> length (aof_bytes [''SET'', ''a'', ''1''] @ ''*2'')" by (simp add: aof_log_def)
  then have "1 \<le> n" using n(4)[rule_format, of 1] by linarith
  moreover have "length (aof_log (take 2 ?q)) = length (aof_bytes [''SET'', ''a'', ''1''] @ ''*2'') + length lost"
    using b(1) by (simp add: aof_log_def)
  then have "n \<noteq> 2" using n(3) b(2) by (cases lost) auto
  ultimately have "n = 1" using n(1) by linarith
  then have "take n ?q = [[''SET'', ''a'', ''1'']]" by simp
  with n(2) u show ?thesis by simp
qed

section \<open>The event loop and its connections\<close>

text \<open>
  C9. The event loop is a run of the state machine: whatever waits and accepts return and
  whatever arrives in between, also while the thread waits for the rest of a body, it fails no type assertion and leads from a reachable state to
  a reachable state. A round changes no client but those whose descriptors are reported and
  those that are accepted.
\<close>

theorem event_loop:
  assumes "reachable cfg contents s" and "0 < Databases cfg" and "list_all input_ok ins" and "\<forall>i j. env_ok (es i j)"
  shows "guards (eventLoop cfg serverFd ins s) (\<lambda>s'. reachable cfg contents s' \<and> server_ok cfg contents s')
    \<and> (\<forall>c. c \<notin> set fds \<longrightarrow> (\<forall>i err. Inr (c, err) \<notin> set (conns i)) \<longrightarrow>
        guards (handle_fds cfg serverFd conns late es 0 fds s) (\<lambda>s'. map_of (sclients s') c = map_of (sclients s) c))"
  using eventLoop_reachable[OF assms(1,3,2), of serverFd] reachable_ok[of cfg contents, OF _ assms(2)]
    handle_fds_others[OF reachable_ok[OF assms(1,2)] assms(4,2)]
  by (auto elim!: guards_mono)

definition sample_inputs :: "input list" where
  "sample_inputs = [Waited (Inr [3]) (\<lambda>i. [Inr (7, None), Inr (8, Some (Errno 9)), Inl EAGAIN]) (\<lambda>i. []) (\<lambda>i j. plain_env 0),
     Arrives 7 ''x'', Waited (Inl EINTR) (\<lambda>i. []) (\<lambda>i. []) (\<lambda>i j. plain_env 0)]"

theorem event_loop_witness:
  "case eventLoop Default 3 sample_inputs start_state of
     Ret s' \<Rightarrow> server_ok Default [] s' \<and> map_option reader (map_of (sclients s') 7) = Some ''x'' \<and> map_of (sclients s') 8 = None
   | Panic m \<Rightarrow> False"
proof -
  have i: "list_all input_ok sample_inputs" "\<forall>i j. env_ok (plain_env 0)" by (simp_all add: sample_inputs_def plain_env_ok)
  have d: "0 < Databases Default" by (simp add: Default_def)
  from event_loop[OF start_reachable[of "[]"] d i, of 3 "[]" "\<lambda>i. []" "\<lambda>i. []"]
  have "guards (eventLoop Default 3 sample_inputs start_state) (\<lambda>s'. server_ok Default [] s')"
    by (auto elim!: guards_mono)
  then show ?thesis
    by (simp add: sample_inputs_def start_state_def EPoll_Wait_def addClient_def NewClient_def)
qed

text \<open>
  C10. Writing to a connection: when every call that takes nothing uses up some of the patience
  of the peer, \<open>Write\<close> ends, has sent a first part of the bytes in their order, and all of them unless
  there is an error. When the peer does not read at all, it never returns, and with it the one
  thread of the server.
\<close>

theorem connection_write:
  assumes "writes_socket sys taken patience" and "\<And>q k. fst (stuck q k) = (- 1, Some EAGAIN)" and "p \<noteq> []"
  shows "(\<exists>n err k'. rawConn_Write sys p k = Some (n, err, k') \<and> 0 \<le> n \<and> n \<le> int (length p)
      \<and> taken k' = taken k @ take (nat n) p \<and> (err = None \<longrightarrow> n = int (length p)))
    \<and> rawConn_Write stuck p j = None"
proof
  show "\<exists>n err k'. rawConn_Write sys p k = Some (n, err, k') \<and> 0 \<le> n \<and> n \<le> int (length p)
      \<and> taken k' = taken k @ take (nat n) p \<and> (err = None \<longrightarrow> n = int (length p))"
    using write_loop_socket[OF assms(1), of 0 p k] by (simp add: rawConn_Write_def)
  have "rawConn_Write stuck p j \<noteq> Some r" for r
    using write_loop_blocked[where sys = stuck, OF assms(2), of p 0 j r] assms(3) by (auto simp: rawConn_Write_def)
  then show "rawConn_Write stuck p j = None" by (cases "rawConn_Write stuck p j") auto
qed

text \<open>A peer that takes two bytes after every two calls.\<close>

definition slow_peer :: "(string \<times> nat) sys_write" where
  "slow_peer p k = (case k of (sent, w) \<Rightarrow>
     if 0 < w then ((- 1, Some EAGAIN), (sent, w - 1)) else ((int (length (take 2 p)), None), (sent @ take 2 p, 1)))"

theorem connection_write_witness:
  "(\<exists>n err k'. rawConn_Write slow_peer ''hello'' ([], 0) = Some (n, err, k') \<and> fst k' = take (nat n) ''hello'' \<and> (err = None \<longrightarrow> n = 5))
    \<and> rawConn_Write (\<lambda>q k. ((- 1, Some EAGAIN), k)) ''hello'' () = None"
proof -
  have w: "writes_socket slow_peer fst snd"
    by (auto simp: writes_socket_def slow_peer_def min_def)
  have s: "fst ((\<lambda>q k. ((- 1 :: int, Some EAGAIN), k)) q k) = (- 1, Some EAGAIN)" for q :: string and k :: unit by simp
  from connection_write[where p = "''hello''" and k = "([], 0)" and j = "()", OF w s] show ?thesis by auto
qed

text \<open>
  C37. Reading from a connection through the buffer. A line or a type byte: the bytes that have arrived
  come in their order; when there are none the reader gives up after 100 calls, which the server takes as
  a reason to close the connection; a connection that the peer has closed is an error. The body of a
  bulk string: \<open>ReadFull\<close> never gives up; it returns exactly the bytes asked for, in order, leaving the others,
  when they all come in the end, and the error of the closed connection when the peer closes before; when
  too few are buffered, no more come and the peer does not close, it does not return.
\<close>

theorem connection_read:
  assumes "reads_socket sys pending ended" and "fill sys maxConsecutiveEmptyReads k = (bytes, err, k')"
    and "feeds_socket feed coming patience" and "\<And>i. fst (stuck i) = (- 1, [], Some EAGAIN)"
  shows "(ended k' = ended k \<and> pending k = bytes @ pending k' \<and>
      (if pending k \<noteq> [] then bytes \<noteq> [] \<and> err = None else err = Some (if ended k then ConnClosed else NoProgress)))
    \<and> (\<exists>body e buf' j'. ReadFull feed n [] buf j = Some (body, e, buf', j') \<and> body @ buf' @ coming j' = buf @ coming j \<and>
      (if n \<le> length (buf @ coming j) then length body = n \<and> e = None else e = Some ConnClosed \<and> buf' = [] \<and> coming j' = []))
    \<and> (length buf < n \<longrightarrow> ReadFull stuck n [] buf i = None)"
proof (intro conjI impI)
  have "maxConsecutiveEmptyReads = Suc 99" by (simp add: maxConsecutiveEmptyReads_def)
  with assms(2) have f: "fill sys (Suc 99) k = (bytes, err, k')" by (simp only:)
  from fill_socket[OF assms(1) f] show "ended k' = ended k" "pending k = bytes @ pending k'"
    "if pending k \<noteq> [] then bytes \<noteq> [] \<and> err = None else err = Some (if ended k then ConnClosed else NoProgress)" by blast+
  show "\<exists>body e buf' j'. ReadFull feed n [] buf j = Some (body, e, buf', j') \<and> body @ buf' @ coming j' = buf @ coming j \<and>
      (if n \<le> length (buf @ coming j) then length body = n \<and> e = None else e = Some ConnClosed \<and> buf' = [] \<and> coming j' = [])"
    using ReadFull_feeds[OF assms(3), of "[]" n buf j] by simp
  assume "length buf < n"
  with ReadFull_blocked[where sys = stuck, OF assms(4), of n "[]" buf i] show "ReadFull stuck n [] buf i = None"
    by (cases "ReadFull stuck n [] buf i") auto
qed

text \<open>A socket that gives three bytes at most, and one that gives a byte at every second call and is closed then.\<close>

definition small_reads :: "(string \<times> bool) sys_read" where
  "small_reads k = (case k of (p, c) \<Rightarrow>
     if p \<noteq> [] then ((int (length (take 3 p)), take 3 p, None), (drop 3 p, c))
     else if c then ((0, [], None), k) else ((- 1, [], Some EAGAIN), k))"

definition drip :: "(string \<times> nat) sys_read" where
  "drip k = (case k of (p, w) \<Rightarrow>
     if 0 < w then ((- 1, [], Some EAGAIN), (p, w - 1))
     else if p \<noteq> [] then ((1, take 1 p, None), (drop 1 p, 1)) else ((0, [], None), k))"

theorem connection_read_witness:
  "(case fill small_reads maxConsecutiveEmptyReads ([], False) of (bytes, err, k') \<Rightarrow> bytes = [] \<and> err = Some NoProgress)
    \<and> (\<exists>body buf' j'. ReadFull drip 4 [] ''PI'' (''NGx'', 5) = Some (body, None, buf', j') \<and> length body = 4 \<and> body @ buf' @ fst j' = ''PINGx'')
    \<and> ReadFull (\<lambda>i. ((- 1, [], Some EAGAIN), i)) 4 [] ''PI'' () = None"
proof -
  have r: "reads_socket small_reads fst snd" by (auto simp: reads_socket_def small_reads_def min_def)
  have d: "feeds_socket drip fst snd"
    unfolding feeds_socket_def
  proof
    fix k :: "string \<times> nat"
    obtain p w where k: "k = (p, w)" by (cases k)
    show "case drip k of ((n, q, err), k') \<Rightarrow>
      (0 < n \<and> n \<le> int (length q) \<and> err = None \<and> fst k = take (nat n) q @ fst k') \<or>
      (n = - 1 \<and> err = Some EAGAIN \<and> fst k' = fst k \<and> snd k' < snd k) \<or> (n = 0 \<and> err = None \<and> fst k = [] \<and> fst k' = [])"
      by (cases p) (auto simp: k drip_def)
  qed
  obtain bytes err k' where f: "fill small_reads maxConsecutiveEmptyReads ([], False) = (bytes, err, k')"
    by (cases "fill small_reads maxConsecutiveEmptyReads ([], False)") auto
  have s: "fst ((- 1 :: int, [] :: string, Some EAGAIN), i) = (- 1, [], Some EAGAIN)" for i :: unit by simp
  from connection_read[where stuck = "\<lambda>i. ((- 1, [], Some EAGAIN), i)" and buf = "''PI''" and n = 4 and j = "(''NGx'', 5)" and i = "()",
      OF r f d s] show ?thesis unfolding f by auto
qed

section \<open>The start of the program\<close>

text \<open>
  C8. From the command line to the loop: whatever the arguments, the append-only file and the
  answers of the system, the program fails no type assertion, and when it serves, it has 16
  databases and is in a reachable, sound state of a server that started with what the file held; it then
  holds the listening socket, the epoll descriptor and, if the file is enabled, the one it appends to. A start that
  fails has closed every other descriptor it opened; but when the listening fails, the append-only
  file is still open.
\<close>

theorem program_start:
  assumes "\<forall>i. env_ok (es i)" and "list_all input_ok ins"
  shows "guards (main k f args es ins) (\<lambda>(out, t). case out of
      Exited n \<Rightarrow> t = []
    | Init_failed msg err \<Rightarrow> opened t = closed_fds t
    | Listen_failed msg err \<Rightarrow> \<exists>cfg. FromFlags args = Parsed cfg \<and> opened t = closed_fds t + append_fd f cfg
    | Served cfg s \<Rightarrow> FromFlags args = Parsed cfg \<and> Databases cfg = 16
        \<and> reachable cfg (file_start f cfg) s \<and> server_ok cfg (file_start f cfg) s
        \<and> (\<exists>fd ep. fst (Listen k cfg) = Inr (fd, ep) \<and> opened t = closed_fds t + append_fd f cfg + {#fd, ep#}))"
proof (rule guards_mono[OF main_started[OF assms, of k f args]])
  fix p assume p: "case p of (out, t) \<Rightarrow> started k f args out t"
  obtain out t where e: "p = (out, t)" by (cases p)
  have n: "FromFlags args = Parsed cfg \<Longrightarrow> Databases cfg = 16" for cfg
    using flag_Parse_databases[of args Default cfg] by (simp add: FromFlags_def Default_def)
  have "started k f args out t" using p e by simp
  then show "case p of (out, t) \<Rightarrow> (case out of
      Exited n \<Rightarrow> t = []
    | Init_failed msg err \<Rightarrow> opened t = closed_fds t
    | Listen_failed msg err \<Rightarrow> \<exists>cfg. FromFlags args = Parsed cfg \<and> opened t = closed_fds t + append_fd f cfg
    | Served cfg s \<Rightarrow> FromFlags args = Parsed cfg \<and> Databases cfg = 16
        \<and> reachable cfg (file_start f cfg) s \<and> server_ok cfg (file_start f cfg) s
        \<and> (\<exists>fd ep. fst (Listen k cfg) = Inr (fd, ep) \<and> opened t = closed_fds t + append_fd f cfg + {#fd, ep#}))"
    using n reachable_ok unfolding e by (cases out) (auto simp: started_def)
qed

text \<open>A system where every call succeeds, and one that cannot make an epoll descriptor; a file that is not there yet.\<close>

definition easy_net :: net_calls where
  "easy_net = \<lparr>nSocket = Inr 3, nReuseAddr = (\<lambda>fd. None), nParseIP4 = (\<lambda>h. Some h), nBind = (\<lambda>fd ip port. None),
     nListen = (\<lambda>fd. None), nEpollCreate = Inr 4, nEpollAdd = (\<lambda>ep fd. None)\<rparr>"

definition no_epoll :: net_calls where "no_epoll = easy_net\<lparr>nEpollCreate := Inl (Errno 24)\<rparr>"

definition new_file :: file_calls where
  "new_file = \<lparr>fContents = (\<lambda>f. []), fOpen = (\<lambda>f. Inl (Errno 2)), fNotExist = (\<lambda>e. e = Errno 2), fAppend = (\<lambda>f. Inr 5)\<rparr>"

lemma sample_flags: "FromFlags [''-host'', ''::1'', ''--appendonly=false''] = Parsed (Default\<lparr>Host := ''::1''\<rparr>)"
proof -
  have s: "split_flag ''-host'' = FlagArg ''host'' None" "split_flag ''--appendonly=false'' = FlagArg ''appendonly'' (Some ''false'')"
    by code_simp+
  show ?thesis by (simp add: FromFlags_def s flag_table_def ParseBool_def Default_def)
qed

theorem program_start_witness:
  "(case main easy_net new_file [''-host'', ''::1'', ''--appendonly=false''] (\<lambda>i. plain_env 0) sample_inputs of
     Ret (Served cfg s, t) \<Rightarrow> Host cfg = ''::1'' \<and> server_ok cfg [] s \<and> map_option reader (map_of (sclients s) 7) = Some ''x''
       \<and> opened t = closed_fds t + {#3, 4#}
   | _ \<Rightarrow> False)
   \<and> (case main no_epoll new_file [''--appendonly''] (\<lambda>i. plain_env 0) sample_inputs of
     Ret (Listen_failed msg err, t) \<Rightarrow> opened t = closed_fds t + {#5#} | _ \<Rightarrow> False)"
proof -
  have i: "list_all input_ok sample_inputs" by (simp add: sample_inputs_def plain_env_ok)
  have p: "\<forall>i. env_ok (plain_env 0)" by (simp add: plain_env_ok)
  let ?cfg = "Default\<lparr>Host := ''::1''\<rparr>" and ?es = "\<lambda>i. plain_env 0"
  have n: "New_server new_file ?cfg ?es = Ret (Inr start_state, [])"
    by (simp add: New_server_def New_def Default_def make_slice_def max_alloc_def start_state_def)
  have l: "Listen easy_net ?cfg = (Inr (3, 4), [Opened 3, Opened 4])"
    by (simp add: Listen_def createServerSocket_def NewEPoll_def EPoll_Add_def easy_net_def)
  obtain s where e: "eventLoop ?cfg 3 sample_inputs start_state = Ret s" "map_option reader (map_of (sclients s) 7) = Some ''x''"
    by (simp add: sample_inputs_def start_state_def EPoll_Wait_def addClient_def NewClient_def)
  have m: "main easy_net new_file [''-host'', ''::1'', ''--appendonly=false''] ?es sample_inputs
      = Ret (Served ?cfg s, [Opened 3, Opened 4])"
    by (simp add: main_def sample_flags n l e(1))
  have f: "file_start new_file ?cfg = []" "append_fd new_file ?cfg = {#}"
    by (simp_all add: file_start_def new_file_def append_fd_def Default_def)
  let ?on = "Default\<lparr>AOFEnabled := True\<rparr>"
  have "split_flag ''--appendonly'' = FlagArg ''appendonly'' None" by code_simp
  then have d: "FromFlags [''--appendonly''] = Parsed ?on" by (simp add: FromFlags_def flag_table_def ParseBool_def Default_def)
  have n': "New_server new_file ?on ?es = Ret (Inr \<lparr>sdbs = replicate 16 newDB, saof = Some (NewAOF [] (AOFSyncPolicy ?on)),
      sclients = [], sbusy = None\<rparr>, [Opened 5])"
    by (simp add: New_server_def New_def Default_def make_slice_def max_alloc_def replay_file_def new_file_def)
  have l': "\<exists>msg err t. Listen no_epoll ?on = (Inl (msg, err), t)"
    by (simp add: Listen_def createServerSocket_def NewEPoll_def no_epoll_def easy_net_def)
  then obtain msg err t where m': "main no_epoll new_file [''--appendonly''] ?es sample_inputs = Ret (Listen_failed msg err, Opened 5 # t)"
    by (auto simp: main_def d n')
  have a: "append_fd new_file ?on = {#5#}" by (simp add: append_fd_def new_file_def Default_def)
  from program_start[OF p i, of easy_net new_file "[''-host'', ''::1'', ''--appendonly=false'']"]
    program_start[OF p i, of no_epoll new_file "[''--appendonly'']"]
  show ?thesis unfolding m m' using e(2) f l a d by simp
qed



section \<open>Runs without the commands that break an invariant\<close>

text \<open>
  C12. Values stay apart: in a run of the server from an empty file in which no client sends
  \<open>COPY\<close>, at any time, in any database, no two keys have the same list, hash, set or sorted set as their
  value. The condition \<open>alone\<close> of the theorems on commands holds of every key.
\<close>

theorem values_stay_apart:
  assumes "runs no_copy cfg s" and "0 < Databases cfg" and "d \<in> set (sdbs s)"
  shows "wf_db d \<and> (\<forall>k. alone d k)"
  using apart_runs.runs_databases[OF assms] reachable_ok[OF runs_reachable[OF assms(1)] assms(2)] assms(3)
  by (simp add: apart_def server_ok_def list_all_iff)

text \<open>A client has sent a command.\<close>

definition request_sent :: "string list \<Rightarrow> server" where "request_sent ws = bytes_sent (fst (WriteValue (request ws)))"

lemma request_sent_runs: "runs P Default (request_sent ws)"
proof -
  have s: "runs P Default start_state"
    by (rule runs.start[of "\<lambda>i. plain_env 0"])
      (simp_all add: plain_env_ok Server_New_def New_def Default_def make_slice_def max_alloc_def start_state_def)
  have "runs P Default (start_state\<lparr>sclients := [(7, NewClient)]\<rparr>)"
    by (rule runs.step[OF s, of "Accept 7"]) (simp_all add: start_state_def addClient_def)
  then show ?thesis
    by (rule runs.step[of _ _ _ "Receive 7 (fst (WriteValue (request ws)))"]) (simp_all add: request_sent_def bytes_sent_def NewClient_def)
qed

lemma request_handled:
  assumes "wire_ok (request [n, a, b, c])" and "P (ToUpper n) [a, b, c]"
  shows "handles P (request_sent [n, a, b, c]) (Ready 7 es)"
proof -
  from ReadValue_write[OF assms(1), of "[]"]
  have r: "ReadValue (fst (WriteValue (request [n, a, b, c]))) = Ret (Inr (request [n, a, b, c], []))" by simp
  have "ToCommand (request [n, a, b, c]) = Inr (n, [bulk_value a, bulk_value b, bulk_value c])"
    by (simp add: request_def ToCommand_def array_value_def bulk_value_def type_defs)
  with r assms(2) show ?thesis by (simp add: request_sent_def bytes_sent_def bulk_value_def)
qed

lemma default_pos: "0 < Databases Default"
  by (simp add: Default_def)

theorem values_stay_apart_witness:
  "case server_step Default (Ready 7 (\<lambda>i. plain_env 0)) (request_sent [''rpush'', ''l'', ''a'', ''b'']) of
     Ret s' \<Rightarrow> \<forall>d \<in> set (sdbs s'). wf_db d \<and> (\<forall>k. alone d k) | Panic m \<Rightarrow> m \<noteq> conversion_panic"
proof (cases "server_step Default (Ready 7 (\<lambda>i. plain_env 0)) (request_sent [''rpush'', ''l'', ''a'', ''b''])")
  case (Ret s')
  have w: "wire_ok (request [''rpush'', ''l'', ''a'', ''b''])"
    by (simp add: request_def array_value_def bulk_value_def type_defs max_alloc_def)
  have "ToUpper ''rpush'' \<noteq> ''COPY''" by code_simp
  then have "no_copy (ToUpper ''rpush'') [''l'', ''a'', ''b'']" by (simp add: no_copy_def)
  note h = request_handled[where P = no_copy, OF w this]
  have "runs no_copy Default s'" by (rule runs.step[OF request_sent_runs _ h Ret]) (simp add: plain_env_ok)
  note v = values_stay_apart[OF this default_pos]
  show ?thesis unfolding Ret go.case using v by blast
next
  case (Panic m)
  have "event_ok (Ready 7 (\<lambda>i. plain_env 0))" by (simp add: plain_env_ok)
  note g = server_step_ok[OF reachable_ok[OF runs_reachable[OF request_sent_runs] default_pos] default_pos this]
  show ?thesis unfolding Panic go.case using g[of "[''rpush'', ''l'', ''a'', ''b'']", unfolded Panic guards_simps(2)] .
qed

text \<open>
  C13. Sorted sets stay in step: in a run from an empty file in which no client sends \<open>ZINCRBY\<close> (the sum
  of two infinities is a NaN), nor \<open>ZADD\<close> with a NaN, the map of the scores and the skip list
  of every sorted set hold the same entries, the list in its order.
\<close>

theorem sorted_sets_stay_in_step:
  assumes "runs no_nan cfg s" and "0 < Databases cfg" and "d \<in> set (sdbs s)" and "heap d a = Some (CZSet z)"
  shows "\<exists>es. sl_view (zlist z) es \<and> listing (map_of (zscores z)) es"
proof -
  obtain es where "zset_rel z es"
    using in_step_runs.runs_databases[OF assms(1-3)] assms(4) by (auto simp: zsets_ok_def)
  from zset_rel_facts[OF this] show ?thesis by (intro exI[of _ es]) simp
qed

theorem sorted_sets_stay_in_step_witness:
  "case server_step Default (Ready 7 (\<lambda>i. plain_env 0)) (request_sent [''zadd'', ''z'', ''inf'', ''m'']) of
     Ret s' \<Rightarrow> \<forall>d \<in> set (sdbs s'). \<forall>a z. heap d a = Some (CZSet z) \<longrightarrow> (\<exists>es. sl_view (zlist z) es \<and> listing (map_of (zscores z)) es)
   | Panic m \<Rightarrow> True"
proof (cases "server_step Default (Ready 7 (\<lambda>i. plain_env 0)) (request_sent [''zadd'', ''z'', ''inf'', ''m''])")
  case (Ret s')
  have w: "wire_ok (request [''zadd'', ''z'', ''inf'', ''m''])"
    by (simp add: request_def array_value_def bulk_value_def type_defs max_alloc_def)
  have "no_nan (ToUpper ''zadd'') [''z'', ''inf'', ''m'']" by code_simp
  note h = request_handled[where P = no_nan, OF w this]
  have "runs no_nan Default s'" by (rule runs.step[OF request_sent_runs _ h Ret]) (simp add: plain_env_ok)
  note v = sorted_sets_stay_in_step[OF this default_pos]
  show ?thesis unfolding Ret go.case using v by blast
qed simp

end
