(* ===== verification/Spec2Isabelle.thy ===== *)
theory Spec2Isabelle
  imports Data_Properties Command_Properties Container_Properties Server_Properties
begin

text \<open>
  A verification development for QwikStore, an in-memory store written in Go that speaks the
  protocol of Redis.

  \<^bold>\<open>The program.\<close> The command line (config/config.go) and the listening socket
  (server/rawconn.go) are set up by main.go. One goroutine runs an epoll loop
  (server/server.go). When a descriptor is ready, one value is parsed from its client
  (resp/reader.go), taken as a command, queued if the client is in a transaction, and otherwise
  executed: the command table (commands/registry.go) gives the handler, the handler works
  on the client's database (store/store.go) and on the values behind its keys (datastructures/),
  write commands are appended to a file (persistence/aof.go), and the reply is serialized
  (resp/writer.go). At start the file is replayed on database 0.

  \<^bold>\<open>How the code is modelled.\<close> A handler is a function from an environment, the arguments and
  a database to a reply and a database, or a panic (type \<open>go\<close>): panics, type assertions and
  error replies are values, and every early return of the code is a branch. The environment
  (\<open>env\<close>) holds what a command takes from outside: the clock, the order in which Go ranges over
  a map, the shuffle, the draws and coin flips, the memory statistics. Theorems that need more
  than arbitrary values ask for \<open>env_ok\<close>: an order and a shuffle are permutations, a draw is in
  its range. Machine integers are integers with the 64-bit wrap-around written out
  (\<open>wrap64\<close>), the access counter is a 32-bit word, a double is its 64-bit word. Linked lists
  and skip lists are arenas of nodes with references, as in the code; values behind a pointer
  are cells of a heap, so that the sharing that \<open>COPY\<close> creates is visible. A Go map is an
  association list without duplicate keys.

  \<^bold>\<open>The theories.\<close>
  \<^item> Qwik_Prelude: panics, integers, allocation, the environment, Go maps, shared lemmas.
    Go_Strconv, Go_Float, Go_Float_Text, Go_Glob: what the code uses of strconv, of doubles and of
    filepath.Match.
  \<^item> Resp: values, reader and writer. Linked_List: datastructures/list.go and the locale of a
    double-ended queue. Skip_List, Skip_List_Correct, Skip_List_Range:
    datastructures/skiplist.go, its invariant over all levels, spans and back pointers, and its
    operations as operations on the sorted sequence of entries. Store, Keyspace, Scan, Sorted_Set,
    Eviction: store/store.go and store/eviction.go, the record and the defaults of
    config/config.go, and the abstract keyspace, a map from the live keys to values and
    expiries.
  \<^item> Cmd_Base: arguments, replies, the typed access to keys, and the locales \<open>container\<close> and
    \<open>collection\<close>: from the laws of one of the four pointer types they derive how a handler that
    reads, modifies or creates such a value acts on the keyspace. They are interpreted in
    Cmd_List, Cmd_Hash, Cmd_Set and Cmd_ZSet_Correct.
  \<^item> Cmd_String, Cmd_List, Cmd_Hash, Cmd_Set, Cmd_ZSet, Cmd_Key, Cmd_Server: one definition per
    handler of the file of commands/ of that name; Cmd_String_Correct and Cmd_ZSet_Correct hold the
    longer proofs.
  \<^item> Registry: the command table and the list of write commands. Cmd_Invariant: the locale
    \<open>db_invariant\<close> of what an invariant of a database must stand, and that all commands but
    \<open>COPY\<close>, \<open>ZADD\<close> and \<open>ZINCRBY\<close> keep every such invariant; it is interpreted twice (below).
    Cmd_Replay: the relation \<open>twin\<close> of two databases that differ in what the environment decided
    only, and that the write commands that do not depend on it take twins to twins.
  \<^item> Aof: the append-only file. Server: clients, dispatch, transactions, start and the steps of
    the event loop; Server_Correct has its invariant, transactions and logging, and with
    Partial_Request what it does with a part of a request. Recovery: executing the file again.
    Server_Invariant: the locale \<open>kept_by_commands\<close>, which lifts an invariant that the good
    commands keep to all runs of the server with good commands. Event_Loop: reads and writes on a
    connection, the buffered reader above them, and the event loop with its waits and accepts,
    over the answers of the system calls (server/rawconn.go, server/epoll.go). Flags: the command
    line. Startup: the opening of the file, \<open>New\<close>, \<open>Listen\<close> and \<open>main\<close>.
  \<^item> Data_Properties, Store_Properties, Command_Properties, Container_Properties,
    Server_Properties: the numbered properties with their examples.

  \<^bold>\<open>What the lemmas show.\<close> For the parser: it ends on every input, reads back what the writer
  wrote and does not depend on what follows. For the data structures: every operation keeps the
  invariant and refines the operation on sequences. For the database: lookups and expiry are
  those of the keyspace, every operation keeps the type invariant \<open>wf_db\<close>. For the handlers:
  \<open>keeps\<close> (the invariant is kept, no type assertion fails) of every registered one, \<open>reads\<close>
  (moreover nothing that can be seen changes) of every one that is not written to the file,
  and the effect on the keyspace, errors included, of most. For the server: an invariant of all
  reachable states, an answer to each request, atomic transactions, complete logging, and
  recovery: a restart executes the commands of the file, or of the part of it that is there, in its
  own environment, and gets the same keys and values when none of them depends on it. For the
  program: from any command line to a reachable state, which descriptors are open when the start
  fails (that of the append-only file is), and an event loop that is a run of the state machine.

  \<^bold>\<open>Where a request is cut.\<close> The connections do not block, and a read gives no bytes and no error
  when none are there. In a line (and before the type of a value) the buffered reader gives up after
  100 such reads, and the server closes the connection. In the body of a bulk string
  \<open>io.ReadFull\<close> goes on reading, so that the one thread of the server stays there until the rest has come or
  the peer has closed; the model has the descriptor it waits for in the state of the server
  (\<open>sbusy\<close>), serves nobody else meanwhile, and handles the command when it is complete.

  \<^bold>\<open>Two conditions of the specifications.\<close> \<open>alone\<close>: the key shares its value with no other key.
  This is kept by all commands but \<open>COPY\<close> (\<open>commands_keep_apart\<close>), which shares a list or a sorted
  set, and so holds of all keys at all times in a run without it (\<open>values_stay_apart\<close>).
  \<open>zsets_ok\<close>: every sorted set is in step with its skip list. This is kept by all commands but
  \<open>ZINCRBY\<close>, and \<open>ZADD\<close> of a NaN (\<open>commands_keep_in_step\<close>), and so holds in a run without them
  (\<open>sorted_sets_stay_in_step\<close>). Neither is needed for the invariant of the server.

  \<^bold>\<open>Fuel.\<close> A loop along pointers gets as much fuel as there are nodes, which the invariant shows
  to be enough (no lemma has an assumption on it). \<open>ReadValue\<close> has one more than the length of
  the input; it is shown that more changes nothing and that the fuel never runs out. The
  search for the shortest decimal of a double is bounded by the range of its exponent. The loop
  of \<open>Write\<close> may run for ever and is a partial function, with a proof of when it ends and when it
  does not, and so is \<open>ReadFull\<close>; filling the buffer takes 100 reads at most, the constant of bufio.

  \<^bold>\<open>Parameters.\<close> The system calls (read, write, accept, the epoll and socket calls, the opening of
  the file) and the resolution of the host are functions or lists of answers that the definitions
  take; \<open>reads_socket\<close>, \<open>feeds_socket\<close> and \<open>writes_socket\<close> state what the manual pages say of read and
  write.

  \<^bold>\<open>Not modelled.\<close> The goroutine of main.go that waits for a signal and closes the server while a
  command may be running, the address of the peer (stored, never read), the removal of a
  descriptor from epoll (the kernel does it when it is closed), the syncing of the file and the
  failure of its writes, logging to the console, the texts of the flag package. In the server,
  bytes flushed to a client are taken as sent: the theorems about a single write and read are those
  of Event_Loop. \<open>ToUpper\<close> and \<open>ToLower\<close> are those of ASCII; Go maps further letters.
\<close>

end
